(* ===== verification/Datum_Prelude.thy ===== *)
theory Datum_Prelude
  imports Main "HOL-Library.List_Lexorder" "HOL-Library.Char_ord" "HOL-Library.AList"
    "HOL-Library.Multiset" "HOL-Library.Word"
begin

text \<open>
  Shared ground of the development: the model of the Go standard library functions the
  program calls on strings, slices and maps, and the generic lemmas the components use.

  A Go string is a sequence of bytes, modelled as \<^typ>\<open>string\<close>. A Go map is an association
  list with distinct keys in an arbitrary order (\<open>wf_map\<close>): reading is \<^term>\<open>map_of\<close>,
  writing is \<^term>\<open>AList.update\<close>, and an iteration visits the entries in the order of the
  list, so a result that must not depend on the iteration order of a map is proved equal for
  every reordering of the list. A slice is a list.
\<close>

section \<open>Collections of facts\<close>

named_theorems go_string \<open>evaluation of the string functions\<close>
named_theorems go_map \<open>maps as association lists\<close>

section \<open>Strings\<close>

definition has_prefix :: "string \<Rightarrow> string \<Rightarrow> bool" where
  "has_prefix s p \<longleftrightarrow> take (length p) s = p"

definition has_suffix :: "string \<Rightarrow> string \<Rightarrow> bool" where
  "has_suffix s p \<longleftrightarrow> length p \<le> length s \<and> drop (length s - length p) s = p"

definition trim_prefix :: "string \<Rightarrow> string \<Rightarrow> string" where
  "trim_prefix s p = (if has_prefix s p then drop (length p) s else s)"

definition trim_suffix :: "string \<Rightarrow> string \<Rightarrow> string" where
  "trim_suffix s p = (if has_suffix s p then take (length s - length p) s else s)"

text \<open>\<open>strings.Index\<close>: the position of the first occurrence.\<close>

fun index_of :: "string \<Rightarrow> string \<Rightarrow> nat option" where
  "index_of p [] = (if p = [] then Some 0 else None)"
| "index_of p (c # s) =
     (if has_prefix (c # s) p then Some 0 else map_option Suc (index_of p s))"

definition str_contains :: "string \<Rightarrow> string \<Rightarrow> bool" where
  "str_contains s p \<longleftrightarrow> index_of p s \<noteq> None"

text \<open>\<open>strings.Split\<close> and \<open>strings.Join\<close> on a one-byte separator, \<open>strings.Cut\<close>.\<close>

fun split_on :: "char \<Rightarrow> string \<Rightarrow> string list" where
  "split_on c [] = [[]]"
| "split_on c (x # s) =
     (if x = c then [] # split_on c s
      else case split_on c s of [] \<Rightarrow> [[x]] | w # ws \<Rightarrow> (x # w) # ws)"

fun join_with :: "string \<Rightarrow> string list \<Rightarrow> string" where
  "join_with sep [] = []"
| "join_with sep [w] = w"
| "join_with sep (w # v # ws) = w @ sep @ join_with sep (v # ws)"

fun cut_at :: "char \<Rightarrow> string \<Rightarrow> (string \<times> string) option" where
  "cut_at c [] = None"
| "cut_at c (x # s) =
     (if x = c then Some ([], s)
      else map_option (\<lambda>(a, b). (x # a, b)) (cut_at c s))"

text \<open>
  \<open>strings.TrimSpace\<close> removes Unicode white space at both ends. The white space code points
  are given by their UTF-8 encodings.
\<close>

definition bytes :: "nat list \<Rightarrow> string" where
  "bytes ns = map char_of ns"

definition space_encodings :: "string list" where
  "space_encodings =
     map bytes
      ([[32], [9], [10], [11], [12], [13], [194, 133], [194, 160], [225, 154, 128]]
       @ map (\<lambda>n. [226, 128, n]) [128, 129, 130, 131, 132, 133, 134, 135, 136, 137, 138]
       @ [[226, 128, 168], [226, 128, 169], [226, 128, 175], [226, 129, 159], [227, 128, 128]])"

fun strip_from :: "string list \<Rightarrow> nat \<Rightarrow> string \<Rightarrow> string" where
  "strip_from es 0 s = s"
| "strip_from es (Suc n) s =
     (case find (has_prefix s) es of
        None \<Rightarrow> s
      | Some e \<Rightarrow> strip_from es n (drop (length e) s))"

definition trim_left :: "string \<Rightarrow> string" where
  "trim_left s = strip_from space_encodings (length s) s"

definition trim_right :: "string \<Rightarrow> string" where
  "trim_right s = rev (strip_from (map rev space_encodings) (length s) (rev s))"

definition trim_space :: "string \<Rightarrow> string" where
  "trim_space s = trim_right (trim_left s)"

subsection \<open>UTF-8, as the range loop and package utf8 decode it\<close>

text \<open>
  \<open>decode_rune\<close> reads the first code point of a non-empty byte list and its width.
  \<^const>\<open>None\<close> is the error of width one that a range loop reports as U+FFFD.
\<close>

definition cont_byte :: "nat \<Rightarrow> nat \<Rightarrow> nat \<Rightarrow> bool" where
  "cont_byte lo hi b \<longleftrightarrow> lo \<le> b \<and> b \<le> hi"

fun decode_rune :: "nat list \<Rightarrow> nat option \<times> nat" where
  "decode_rune [] = (None, 1)"
| "decode_rune (b0 # bs) =
     (if b0 < 128 then (Some b0, 1)
      else if 194 \<le> b0 \<and> b0 \<le> 223 then
        (case bs of
           b1 # _ \<Rightarrow>
             if cont_byte 128 191 b1 then (Some ((b0 - 192) * 64 + (b1 - 128)), 2)
             else (None, 1)
         | _ \<Rightarrow> (None, 1))
      else if 224 \<le> b0 \<and> b0 \<le> 239 then
        (case bs of
           b1 # b2 # _ \<Rightarrow>
             if cont_byte (if b0 = 224 then 160 else 128) (if b0 = 237 then 159 else 191) b1
                \<and> cont_byte 128 191 b2
             then (Some ((b0 - 224) * 4096 + (b1 - 128) * 64 + (b2 - 128)), 3)
             else (None, 1)
         | _ \<Rightarrow> (None, 1))
      else if 240 \<le> b0 \<and> b0 \<le> 244 then
        (case bs of
           b1 # b2 # b3 # _ \<Rightarrow>
             if cont_byte (if b0 = 240 then 144 else 128) (if b0 = 244 then 143 else 191) b1
                \<and> cont_byte 128 191 b2 \<and> cont_byte 128 191 b3
             then (Some ((b0 - 240) * 262144 + (b1 - 128) * 4096 + (b2 - 128) * 64 + (b3 - 128)), 4)
             else (None, 1)
         | _ \<Rightarrow> (None, 1))
      else (None, 1))"

text \<open>
  The bytes of a string cut into the pieces the range loop visits: each piece with its code
  point, or \<^const>\<open>None\<close> for a byte that starts no valid encoding.
\<close>

fun runes_fuel :: "nat \<Rightarrow> string \<Rightarrow> (nat option \<times> string) list" where
  "runes_fuel 0 s = []"
| "runes_fuel (Suc n) s =
     (case s of
        [] \<Rightarrow> []
      | _ # _ \<Rightarrow>
          (let (r, w) = decode_rune (map of_char s)
           in (r, take w s) # runes_fuel n (drop w s)))"

definition runes :: "string \<Rightarrow> (nat option \<times> string) list" where
  "runes s = runes_fuel (length s) s"

definition valid_utf8 :: "string \<Rightarrow> bool" where
  "valid_utf8 s \<longleftrightarrow> (\<forall>p \<in> set (runes s). fst p \<noteq> None)"

definition rune_value :: "nat option \<Rightarrow> nat" where
  "rune_value r = (case r of None \<Rightarrow> 65533 | Some n \<Rightarrow> n)"

section \<open>Sorting\<close>

text \<open>
  \<open>sort.Slice\<close> and \<open>sort.SliceStable\<close> take the comparison of the caller. \<open>go_sort\<close> is the
  stable sort by such a comparison; with a key it is the library's \<^const>\<open>sort_key\<close>.
\<close>

fun go_insert :: "('a \<Rightarrow> 'a \<Rightarrow> bool) \<Rightarrow> 'a \<Rightarrow> 'a list \<Rightarrow> 'a list" where
  "go_insert lt x [] = [x]"
| "go_insert lt x (y # ys) = (if lt y x then y # go_insert lt x ys else x # y # ys)"

definition go_sort :: "('a \<Rightarrow> 'a \<Rightarrow> bool) \<Rightarrow> 'a list \<Rightarrow> 'a list" where
  "go_sort lt xs = foldr (go_insert lt) xs []"

section \<open>Maps and lists without repetition\<close>

definition wf_map :: "('k \<times> 'v) list \<Rightarrow> bool" where
  "wf_map m \<longleftrightarrow> distinct (map fst m)"

definition sorted_keys :: "(string \<times> 'v) list \<Rightarrow> string list" where
  "sorted_keys m = sort (map fst m)"

text \<open>The append-if-not-seen loop the program uses to combine slices.\<close>

fun append_unseen :: "'a list \<Rightarrow> 'a list \<Rightarrow> 'a list" where
  "append_unseen out [] = out"
| "append_unseen out (x # xs) =
     (if x \<in> set out then append_unseen out xs else append_unseen (out @ [x]) xs)"

section \<open>Lemmas on strings\<close>

lemma has_prefix_append [simp]: "has_prefix (p @ s) p"
  by (simp add: has_prefix_def)

lemma has_prefix_iff: "has_prefix s p \<longleftrightarrow> (\<exists>t. s = p @ t)"
  by (metis append_take_drop_id has_prefix_append has_prefix_def)

lemma has_prefix_Nil [simp]: "has_prefix s []"
  by (simp add: has_prefix_def)

lemma has_suffix_iff: "has_suffix s p \<longleftrightarrow> (\<exists>t. s = t @ p)"
  by (auto simp: has_suffix_def) (metis append_take_drop_id)

lemma index_of_Some_le: "index_of p s = Some i \<Longrightarrow> i + length p \<le> length s"
proof (induction s arbitrary: i)
  case Nil
  then show ?case by (simp split: if_splits)
next
  case (Cons c s)
  then show ?case
    by (auto simp: has_prefix_def split: if_splits) (metis length_Cons length_take min.absorb_iff2 nat_le_linear)
qed

lemma index_of_Some_drop: "index_of p s = Some i \<Longrightarrow> has_prefix (drop i s) p"
  by (induction s arbitrary: i) (auto split: if_splits)

lemma split_on_not_Nil [simp]: "split_on c s \<noteq> []"
  by (induction s) (auto split: list.splits)

lemma split_on_no_sep: "c \<notin> set s \<Longrightarrow> split_on c s = [s]"
  by (induction s) auto

lemma split_on_append_sep: "split_on c (s @ c # t) = split_on c s @ split_on c t"
  by (induction s) (auto split: list.splits)

lemma split_on_parts: "w \<in> set (split_on c s) \<Longrightarrow> c \<notin> set w"
proof (induction s arbitrary: w)
  case (Cons x s)
  then show ?case by (cases "split_on c s") (auto split: if_splits)
qed simp

lemma join_with_split_on: "join_with [c] (split_on c s) = s"
proof (induction s)
  case (Cons x s)
  obtain w ws where ws: "split_on c s = w # ws"
    by (cases "split_on c s") auto
  with Cons show ?case by (cases ws) auto
qed simp

lemma split_on_join_with:
  "ws \<noteq> [] \<Longrightarrow> \<forall>w \<in> set ws. c \<notin> set w \<Longrightarrow> split_on c (join_with [c] ws) = ws"
proof (induction ws)
  case (Cons w ws)
  then show ?case by (cases ws) (auto simp: split_on_no_sep split_on_append_sep)
qed simp

section \<open>Lemmas on sorting\<close>

lemma mset_go_insert [simp]: "mset (go_insert lt x xs) = add_mset x (mset xs)"
  by (induction xs) auto

lemma mset_go_sort [simp]: "mset (go_sort lt xs) = mset xs"
  by (induction xs) (auto simp: go_sort_def)

lemma set_go_sort [simp]: "set (go_sort lt xs) = set xs"
  by (metis mset_go_sort set_mset_mset)

lemma length_go_sort [simp]: "length (go_sort lt xs) = length xs"
  by (metis mset_go_sort size_mset)

lemma distinct_go_sort [simp]: "distinct (go_sort lt xs) = distinct xs"
  by (metis mset_go_sort mset_eq_imp_distinct_iff)

lemma go_insert_key: "go_insert (\<lambda>a b. f a < f b) x xs = insort_key f x xs"
  by (induction xs) auto

lemma go_sort_key: "go_sort (\<lambda>a b. f a < f b) xs = sort_key f xs"
  by (induction xs) (auto simp: go_sort_def go_insert_key)

lemma set_sorted_keys [simp]: "set (sorted_keys m) = fst ` set m"
  by (simp add: sorted_keys_def)

lemma sorted_keys_sorted [simp]: "sorted (sorted_keys m)"
  by (simp add: sorted_keys_def)

lemma filter_inj_perm:
  assumes "mset xs = mset ys" and "inj_on f (set xs)" and "k \<in> set xs"
  shows "filter (\<lambda>x. f k = f x) xs = filter (\<lambda>x. f k = f x) ys"
proof -
  have "set ys = set xs" using assms(1) by (metis mset_eq_setD)
  then have eq: "filter (\<lambda>x. f k = f x) zs = filter (\<lambda>x. k = x) zs" if "set zs = set xs" for zs
    using that assms(2,3) by (intro filter_cong) (auto dest: inj_onD)
  have rep: "filter (\<lambda>x. k = x) zs = replicate (count (mset zs) k) k" for zs
    by (induction zs) auto
  show ?thesis
    by (simp add: eq rep assms(1) \<open>set ys = set xs\<close>)
qed

lemma sort_key_perm_eq:
  assumes "mset xs = mset ys" and "inj_on f (set xs)"
  shows "sort_key f xs = sort_key f ys"
proof (rule properties_for_sort_key)
  have set_eq: "set ys = set xs" using assms(1) by (metis mset_eq_setD)
  show "mset (sort_key f ys) = mset xs" using assms(1) by simp
  show "sorted (map f (sort_key f ys))" by simp
  fix k assume k: "k \<in> set (sort_key f ys)"
  show "filter (\<lambda>x. f k = f x) (sort_key f ys) = filter (\<lambda>x. f k = f x) xs"
    by (rule filter_inj_perm) (use assms k set_eq in auto)
qed

lemma sort_perm: "mset xs = mset ys \<Longrightarrow> sort xs = sort (ys :: 'a :: linorder list)"
  by (rule sort_key_perm_eq) simp_all

lemma sorted_keys_perm: "mset a = mset b \<Longrightarrow> sorted_keys a = sorted_keys b"
  unfolding sorted_keys_def by (rule sort_perm) (simp add: mset_map)

lemma sum_list_sort_key: "(\<Sum>x \<leftarrow> sort_key f xs. g x) = (\<Sum>x \<leftarrow> xs. g x :: nat)"
  by (simp flip: sum_mset_sum_list)

section \<open>Lemmas on maps\<close>

lemma wf_map_Nil [simp]: "wf_map []"
  by (simp add: wf_map_def)

lemma wf_map_Cons [simp]: "wf_map ((k, v) # m) \<longleftrightarrow> k \<notin> fst ` set m \<and> wf_map m"
  by (auto simp: wf_map_def)

lemma wf_map_update [simp]: "wf_map m \<Longrightarrow> wf_map (AList.update k v m)"
  by (simp add: wf_map_def distinct_update)

lemma wf_map_map_snd [simp]: "wf_map (map (\<lambda>(k, v). (k, f k v)) m) = wf_map m"
  by (simp add: wf_map_def comp_def case_prod_beta)

lemma wf_map_Some: "wf_map m \<Longrightarrow> (k, v) \<in> set m \<Longrightarrow> map_of m k = Some v"
  by (simp add: wf_map_def)

lemma wf_map_perm: "mset m = mset m' \<Longrightarrow> wf_map m \<longleftrightarrow> wf_map m'"
  unfolding wf_map_def by (metis mset_eq_imp_distinct_iff mset_map)

lemma wf_map_perm_map_of:
  assumes "mset m = mset m'" and "wf_map m"
  shows "map_of m = map_of m'"
proof
  fix k
  have "set m = set m'" using assms(1) by (rule mset_eq_setD)
  moreover have "wf_map m'" using assms wf_map_perm by blast
  ultimately show "map_of m k = map_of m' k"
    using assms(2) by (metis map_of_eq_Some_iff not_None_eq wf_map_def)
qed

lemma wf_map_inj_fst: "wf_map m \<Longrightarrow> inj_on fst (set m)"
  by (simp add: wf_map_def distinct_map)

lemma set_append_unseen [simp]: "set (append_unseen out xs) = set out \<union> set xs"
  by (induction xs arbitrary: out) auto

lemma distinct_append_unseen [simp]: "distinct (append_unseen out xs) = distinct out"
  by (induction xs arbitrary: out) auto

lemma append_unseen_subset: "set xs \<subseteq> set out \<Longrightarrow> append_unseen out xs = out"
  by (induction xs arbitrary: out) auto

lemma append_unseen_prefix: "\<exists>ys. append_unseen out xs = out @ ys"
proof (induction xs arbitrary: out)
  case (Cons x xs)
  show ?case
    using Cons.IH [of out] Cons.IH [of "out @ [x]"] by auto
qed simp

lemma update_entries: "(\<forall>(k, v) \<in> set m. P k v) \<Longrightarrow> P k v \<Longrightarrow> \<forall>(k', v') \<in> set (AList.update k v m). P k' v'"
  by (induction m) auto

end
