(* ===== verification/Document.thy ===== *)
theory Document
  imports Datum_Prelude
begin

text \<open>
  Package \<open>internal/document\<close>: references, positions, the desired-state tree \<open>val\<close> with its
  canonical encoding, the rules on names and text, target identity, the domains of resource
  types, and the records the other packages pass around. A problem added to the error list is
  a position and a value of \<open>msg\<close>, one constructor for each message the packages format, with
  the values the message interpolates.
\<close>

section \<open>Data\<close>

datatype reference = Reference (ref_type: string) (ref_name: string)

record position =
  pos_file :: string
  pos_line :: int

text \<open>
  The problems that parsing, discovery, matching, resolution, validation and the graph report,
  grouped by the package that reports them.
\<close>

datatype text_msg = InvalidUtf8 | NulByte | ControlCharacter | DirectionOverride

datatype anchor_msg =
    ProtectedPath string
  | ContainsProtected string string
  | InsideProtected string string
  | ProtectedPackage
  | ProtectedUnit

datatype graph_msg =
    NeedsIdentity reference string
  | Protected reference anchor_msg
  | BothManage "reference list" string
  | NotInManifest reference string reference string
  | DependsOnItself reference
  | DependencyCycle "string list"

datatype match_msg =
    OneOfEmpty string
  | NoneOfEmpty string
  | PresentAndAbsent string
  | ValueAndAbsent string

datatype path_msg =
    PathEmpty
  | PathNotAbsolute
  | PathTooLong
  | PathNotRelative
  | PathOutside
  | PathUnsafe text_msg
  | EmptyComponent
  | DotComponent string

datatype mode_msg =
    ModeNotQuoted string
  | ModeDigits string
  | ModeNotOctal string
  | ModePrivileged string
  | ModeWorldWritable string

datatype value_msg =
    HasToBeList
  | EntriesStrings
  | EntryNotName string
  | SingleValue
  | UnsafeText text_msg
  | NameNotAllowed string
  | NotOneOf string "string list"
  | NotBoolean
  | NotInteger
  | BadPath path_msg
  | BadMode mode_msg

datatype schema_msg =
    NoFieldTable
  | DesiredNotMapping
  | NoField string
  | FieldValue string value_msg
  | MissingField string
  | MutuallyExclusive "string list"
  | MissingUnlessAbsent string
  | NeedsUnsigned
  | KeyAndUnsigned
  | AbsentButSets string

datatype subst_msg =
    UndeclaredLabel string string
  | UnknownPlaceholder string
  | UnclosedPlaceholder string

datatype parse_msg =
    CannotReadYaml string
  | DocumentNotMapping
  | MissingDatum
  | UnsupportedSchema string
  | MissingType
  | MissingName
  | DocumentName string
  | UnrecognisedType string
  | LabelsNotMapping
  | LabelKeyNotAllowed string
  | LabelKeyReserved string
  | LabelNotString string
  | LabelValueNotAllowed string
  | PrecedenceNotInteger
  | NotAnInteger string
  | MatchNotMapping
  | BothTriggers
  | MissingDesired
  | NotAReference string string
  | UnsafeValue text_msg
  | FieldNameNotString
  | FieldNameNotAllowed string
  | AliasNotSupported
  | ExpectedLabelMap
  | ExpectedLabelListMap
  | LabelNotList string
  | NotAList string
  | EntriesNotStrings string
  | UnknownField string string

datatype layer_msg =
    LayersShareDirectory string string
  | NoLayerAbove reference

datatype msg =
    ParseMsg parse_msg
  | LayerMsg layer_msg
  | GraphMsg graph_msg
  | MatchMsg match_msg
  | SchemaMsg reference schema_msg
  | SubstMsg reference subst_msg
  | ConflictingValues string string string int string string int
  | RestartAndReload reference "string list"
  | NoHostDocument string

record doc_error =
  err_pos :: position
  err_msg :: msg

type_synonym errors = "doc_error list"

datatype kind = KindScalar | KindList | KindMap

record origin =
  origin_layer :: string
  origin_scalar :: string

text \<open>
  One node of a desired-state tree. As in the program, every node has all the fields and the
  kind says which of them is meant; the fields of the other kinds hold their zero value.
\<close>

datatype val =
  Value (v_kind: kind) (v_scalar: string) (v_quoted: bool) (v_list: "val list")
    (v_map: "(string \<times> val) list") (v_from: string) (v_displaced: "origin list")

abbreviation zero_val :: val where
  "zero_val \<equiv> Value KindScalar [] False [] [] [] []"

abbreviation scalar_val :: "string \<Rightarrow> val" where
  "scalar_val s \<equiv> Value KindScalar s False [] [] [] []"

abbreviation list_val :: "val list \<Rightarrow> val" where
  "list_val vs \<equiv> Value KindList [] False vs [] [] []"

abbreviation map_val :: "(string \<times> val) list \<Rightarrow> val" where
  "map_val m \<equiv> Value KindMap [] False [] m [] []"

record matcher =
  m_labels :: "(string \<times> string) list"
  m_oneOf :: "(string \<times> string list) list"
  m_noneOf :: "(string \<times> string list) list"
  m_has :: "string list"
  m_missing :: "string list"

record fleet =
  fleet_name :: string
  fleet_exclude :: "string list"
  fleet_position :: position
  fleet_schema :: string

record host =
  host_name :: string
  host_labels :: "(string \<times> string) list"
  host_position :: position
  host_schema :: string

record layer =
  layer_name :: string
  layer_precedence :: int
  layer_match :: matcher
  layer_position :: position
  layer_schema :: string
  layer_dir :: string

record resource =
  res_type :: string
  res_name :: string
  res_requires :: "reference list"
  res_restartOn :: "reference list"
  res_reloadOn :: "reference list"
  res_desired :: val
  res_position :: position
  res_schema :: string
  res_layer :: string
  res_layerDir :: string

record doc_set =
  set_fleet :: fleet
  set_hosts :: "host list"
  set_layers :: "layer list"
  set_resources :: "resource list"

section \<open>Operations\<close>

subsection \<open>References, schema versions and the error list\<close>

definition ref_string :: "reference \<Rightarrow> string" where
  "ref_string r = ref_type r @ ''['' @ ref_name r @ '']''"

definition res_ref :: "resource \<Rightarrow> reference" where
  "res_ref r = Reference (res_type r) (res_name r)"

definition schema_versions :: "string list" where
  "schema_versions = [''v1alpha1'']"

definition supports_schema :: "string \<Rightarrow> bool" where
  "supports_schema version \<longleftrightarrow> version \<in> set schema_versions"

definition reserved_label_prefix :: string where
  "reserved_label_prefix = ''datum/''"

definition host_label :: string where
  "host_label = ''datum/host''"

definition add_error :: "errors \<Rightarrow> position \<Rightarrow> msg \<Rightarrow> errors" where
  "add_error errs pos m = errs @ [\<lparr>err_pos = pos, err_msg = m\<rparr>]"

definition errors_list :: "errors \<Rightarrow> errors" where
  "errors_list errs =
     go_sort (\<lambda>a b.
       if pos_file (err_pos a) \<noteq> pos_file (err_pos b)
       then pos_file (err_pos a) < pos_file (err_pos b)
       else pos_line (err_pos a) < pos_line (err_pos b)) errs"

definition errors_err :: "errors \<Rightarrow> errors option" where
  "errors_err errs = (if errs = [] then None else Some (errors_list errs))"

definition no_position :: position where
  "no_position = \<lparr>pos_file = [], pos_line = 0\<rparr>"

subsection \<open>Names and text\<close>

definition resource_types :: "string list" where
  "resource_types =
     [''Package'', ''File'', ''Directory'', ''Symlink'', ''Service'', ''User'', ''Group'',
      ''Sysctl'', ''Repository'']"

definition max_name_length :: nat where "max_name_length = 256"

definition max_path_length :: nat where "max_path_length = 4096"

definition name_rune :: "nat \<Rightarrow> bool" where
  "name_rune r \<longleftrightarrow>
     97 \<le> r \<and> r \<le> 122 \<or> 65 \<le> r \<and> r \<le> 90 \<or> 48 \<le> r \<and> r \<le> 57 \<or> r \<in> {46, 45, 95, 43}"

definition valid_name :: "string \<Rightarrow> bool" where
  "valid_name s \<longleftrightarrow>
     s \<noteq> [] \<and> length s \<le> max_name_length
     \<and> list_all (\<lambda>p. name_rune (rune_value (fst p))) (runes s)"

definition valid_label_key :: "string \<Rightarrow> bool" where
  "valid_label_key s =
     (case cut_at CHR ''/'' s of
        None \<Rightarrow> valid_name s
      | Some (prefix, rest) \<Rightarrow> valid_name prefix \<and> valid_name rest)"

definition is_bidi_control :: "nat \<Rightarrow> bool" where
  "is_bidi_control r \<longleftrightarrow>
     r \<in> {1564, 8206, 8207, 8234, 8235, 8236, 8237, 8238, 8294, 8295, 8296, 8297}"

lemma is_bidi_control_code [code]:
  "is_bidi_control r \<longleftrightarrow>
     (let n = int r
      in n = 1564 \<or> n = 8206 \<or> n = 8207 \<or> 8234 \<le> n \<and> n \<le> 8238 \<or> 8294 \<le> n \<and> n \<le> 8297)"
  by (auto simp: is_bidi_control_def)

text \<open>\<open>unicode.IsControl\<close>: the category Cc.\<close>

definition is_control :: "nat \<Rightarrow> bool" where
  "is_control r \<longleftrightarrow> r < 32 \<or> 127 \<le> r \<and> r < 160"

fun safe_runes :: "nat list \<Rightarrow> text_msg option" where
  "safe_runes [] = None"
| "safe_runes (r # rs) =
     (if r = 0 then Some NulByte
      else if is_control r \<and> r \<noteq> 9 \<and> r \<noteq> 10 then Some ControlCharacter
      else if is_bidi_control r then Some DirectionOverride
      else safe_runes rs)"

definition safe_text :: "string \<Rightarrow> text_msg option" where
  "safe_text s =
     (if \<not> valid_utf8 s then Some InvalidUtf8
      else safe_runes (map (\<lambda>p. rune_value (fst p)) (runes s)))"

definition parse_reference :: "string \<Rightarrow> reference option" where
  "parse_reference s =
     (case index_of ''['' s of
        None \<Rightarrow> None
      | Some open \<Rightarrow>
          if open = 0 \<or> \<not> has_suffix s '']'' then None
          else
            let type_name = take open s;
                name = take (length s - 1 - (open + 1)) (drop (open + 1) s)
            in if type_name \<notin> set resource_types \<or> \<not> valid_name name then None
               else Some (Reference type_name name))"

subsection \<open>Desired-state trees\<close>

fun lookup_parts :: "val \<Rightarrow> string list \<Rightarrow> val option" where
  "lookup_parts v [] = Some v"
| "lookup_parts v (p # ps) =
     (if v_kind v \<noteq> KindMap then None
      else case map_of (v_map v) p of None \<Rightarrow> None | Some next \<Rightarrow> lookup_parts next ps)"

definition lookup_val :: "val \<Rightarrow> string \<Rightarrow> val option" where
  "lookup_val v path = lookup_parts v (split_on CHR ''.'' path)"

definition val_keys :: "val \<Rightarrow> string list" where
  "val_keys v = sorted_keys (v_map v)"

fun clone :: "val \<Rightarrow> val" where
  "clone (Value k s q l m fr d) =
     (case k of
        KindScalar \<Rightarrow> Value k s q l m fr d
      | KindList \<Rightarrow> Value k s q (map clone l) m fr d
      | KindMap \<Rightarrow> Value k s q l (map (\<lambda>(key, field). (key, clone field)) m) fr d)"

text \<open>
  \<open>json.Marshal\<close> of a string: short escapes for the quote, the backslash and five control
  characters, a hexadecimal escape for the other control characters and for the three
  characters that matter in HTML, an escape for U+2028 and U+2029, the replacement character
  for a byte that starts no valid encoding, and every other code point as it stands.
\<close>

definition hex_digit :: "nat \<Rightarrow> char" where
  "hex_digit n = char_of (if n < 10 then 48 + n else 87 + n)"

definition json_ascii :: "nat \<Rightarrow> string" where
  "json_ascii b =
     (if b = 92 then [CHR 0x5C, CHR 0x5C]
      else if b = 34 then [CHR 0x5C, CHR 0x22]
      else if b = 8 then [CHR 0x5C, CHR ''b'']
      else if b = 12 then [CHR 0x5C, CHR ''f'']
      else if b = 10 then [CHR 0x5C, CHR ''n'']
      else if b = 13 then [CHR 0x5C, CHR ''r'']
      else if b = 9 then [CHR 0x5C, CHR ''t'']
      else if b < 32 \<or> b \<in> {38, 60, 62} then
        [CHR 0x5C, CHR ''u'', CHR ''0'', CHR ''0'', hex_digit (b div 16), hex_digit (b mod 16)]
      else [char_of b])"

definition json_piece :: "nat option \<times> string \<Rightarrow> string" where
  "json_piece p =
     (case fst p of
        None \<Rightarrow> CHR 0x5C # ''ufffd''
      | Some r \<Rightarrow>
          if r < 128 then json_ascii r
          else if r = 8232 \<or> r = 8233 then CHR 0x5C # ''u202'' @ [hex_digit (r mod 16)]
          else snd p)"

definition json_string :: "string \<Rightarrow> string" where
  "json_string s = CHR 0x22 # concat (map json_piece (runes s)) @ [CHR 0x22]"

fun canonical :: "val \<Rightarrow> string" where
  "canonical (Value k s q l m fr d) =
     (case k of
        KindScalar \<Rightarrow> json_string s
      | KindList \<Rightarrow> ''['' @ join_with '','' (map canonical l) @ '']''
      | KindMap \<Rightarrow>
          ''{'' @ join_with '',''
            (map (\<lambda>(key, text). json_string key @ '':'' @ text)
              (sort_key fst (map (\<lambda>(key, field). (key, canonical field)) m))) @ ''}'')"

subsection \<open>Target identity and domains\<close>

definition target_identity_field :: "string \<Rightarrow> string option" where
  "target_identity_field type_name =
     map_of [(''File'', ''path''), (''Directory'', ''path''), (''Symlink'', ''path''),
             (''Repository'', ''id'')] type_name"

definition target_identity :: "string \<Rightarrow> string \<Rightarrow> val \<Rightarrow> (string \<times> string) + string" where
  "target_identity type_name name desired =
     (case target_identity_field type_name of
        None \<Rightarrow> Inr name
      | Some field \<Rightarrow>
          (case lookup_val desired field of
             None \<Rightarrow> Inl (type_name, field)
           | Some value \<Rightarrow>
               if v_kind value \<noteq> KindScalar \<or> v_scalar value = [] then Inl (type_name, field)
               else Inr (v_scalar value)))"

datatype domain = DomainCore | DomainIdentity | DomainRuntime | DomainKernel

definition domains :: "domain list" where
  "domains = [DomainCore, DomainIdentity, DomainRuntime, DomainKernel]"

definition domain_table :: "(string \<times> domain) list" where
  "domain_table =
     [(''Package'', DomainCore), (''Repository'', DomainCore), (''File'', DomainCore),
      (''Directory'', DomainCore), (''Symlink'', DomainCore),
      (''User'', DomainIdentity), (''Group'', DomainIdentity),
      (''Service'', DomainRuntime), (''Sysctl'', DomainKernel)]"

definition domain_of :: "string \<Rightarrow> domain option" where
  "domain_of type_name = map_of domain_table type_name"

definition types_in :: "domain \<Rightarrow> string list" where
  "types_in wanted = sort (map fst (filter (\<lambda>(t, d). d = wanted) domain_table))"

section \<open>Lemmas on names and references\<close>

lemma index_of_char:
  "index_of [c] s = Some i \<longleftrightarrow> i < length s \<and> s ! i = c \<and> c \<notin> set (take i s)"
proof (induction s arbitrary: i)
  case (Cons x s)
  then show ?case by (cases i) (auto simp: has_prefix_def)
qed simp

lemma resource_types_no_bracket: "t \<in> set resource_types \<Longrightarrow> CHR ''['' \<notin> set t \<and> t \<noteq> []"
  by (auto simp: resource_types_def)

lemma ref_string_inj:
  assumes "ref_string a = ref_string b" "CHR ''['' \<notin> set (ref_type a)" "CHR ''['' \<notin> set (ref_type b)"
  shows "a = b"
proof -
  have *: "takeWhile (\<lambda>c. c \<noteq> CHR ''['') (ref_string r) = ref_type r"
    if "CHR ''['' \<notin> set (ref_type r)" for r
    unfolding ref_string_def by (subst takeWhile_append2) (use that in auto)
  from *[of a] *[of b] assms have "ref_type a = ref_type b" by metis
  with assms(1) show ?thesis by (cases a; cases b) (simp add: ref_string_def)
qed

lemma parse_reference_sound:
  assumes "parse_reference s = Some r"
  shows "s = ref_string r \<and> ref_type r \<in> set resource_types \<and> valid_name (ref_name r)"
proof -
  from assms obtain i where i: "index_of ''['' s = Some i" "has_suffix s '']''"
    and r: "r = Reference (take i s) (take (length s - 1 - (i + 1)) (drop (i + 1) s))"
    and ok: "take i s \<in> set resource_types" "valid_name (ref_name r)"
    by (auto simp: parse_reference_def Let_def split: option.splits if_splits)
  from i(2) obtain t where t: "s = t @ '']''" by (auto simp: has_suffix_iff)
  from i(1) have "i < length s" "s ! i = CHR ''[''" by (simp_all add: index_of_char)
  with t have "i < length t" "t ! i = CHR ''[''"
    by (auto simp: nth_append split: if_splits)
  then have "t = take i t @ CHR ''['' # drop (i + 1) t"
    by (metis Suc_eq_plus1 id_take_nth_drop)
  with t r ok \<open>i < length t\<close> show ?thesis by (simp add: ref_string_def)
qed

lemma parse_reference_complete:
  assumes "ref_type r \<in> set resource_types" "valid_name (ref_name r)"
  shows "parse_reference (ref_string r) = Some r"
proof -
  have "index_of ''['' (ref_string r) = Some (length (ref_type r))"
    using assms(1) resource_types_no_bracket
    by (auto simp: index_of_char ref_string_def nth_append)
  moreover have "has_suffix (ref_string r) '']''"
    by (auto simp: has_suffix_iff ref_string_def)
  ultimately show ?thesis
    using assms resource_types_no_bracket [OF assms(1)]
    by (cases r) (simp add: parse_reference_def Let_def ref_string_def)
qed

section \<open>Properties\<close>

text \<open>
  Reading a reference and writing it are inverse. A text is accepted exactly when it is
  \<open>Type[name]\<close> of a known type and an allowed name, and it is the text of the reference read.
\<close>

theorem parse_reference_roundtrip:
  "parse_reference s = Some r
     \<longleftrightarrow> s = ref_string r \<and> ref_type r \<in> set resource_types \<and> valid_name (ref_name r)"
  using parse_reference_sound parse_reference_complete by blast

end
