(* ===== verification/Match.thy ===== *)
theory Match
  imports Document
begin

text \<open>
  Package \<open>internal/match\<close>: whether a layer's matcher selects a host, the label terms that made
  it so, and the problems a matcher has whatever the host.
\<close>

section \<open>Definitions\<close>

record reason =
  reason_key :: string
  reason_value :: string

definition matcher_empty :: "matcher \<Rightarrow> bool" where
  "matcher_empty m \<longleftrightarrow>
     m_labels m = [] \<and> m_oneOf m = [] \<and> m_noneOf m = [] \<and> m_has m = [] \<and> m_missing m = []"

text \<open>The five loops of \<open>Evaluate\<close>; \<^const>\<open>None\<close> is the early return of false.\<close>

fun eval_labels :: "(string \<times> string) list \<Rightarrow> (string \<times> string) list \<Rightarrow> string list
    \<Rightarrow> reason list \<Rightarrow> reason list option" where
  "eval_labels wanted labels [] reasons = Some reasons"
| "eval_labels wanted labels (key # keys) reasons =
     (case map_of labels key of
        None \<Rightarrow> None
      | Some value \<Rightarrow>
          if Some value \<noteq> map_of wanted key then None
          else eval_labels wanted labels keys
            (reasons @ [\<lparr>reason_key = key, reason_value = value\<rparr>]))"

fun eval_oneOf :: "(string \<times> string list) list \<Rightarrow> (string \<times> string) list \<Rightarrow> string list
    \<Rightarrow> reason list \<Rightarrow> reason list option" where
  "eval_oneOf oneOf labels [] reasons = Some reasons"
| "eval_oneOf oneOf labels (key # keys) reasons =
     (case map_of labels key of
        None \<Rightarrow> None
      | Some value \<Rightarrow>
          if value \<notin> set (the (map_of oneOf key)) then None
          else eval_oneOf oneOf labels keys
            (reasons @ [\<lparr>reason_key = key, reason_value = value\<rparr>]))"

fun eval_noneOf :: "(string \<times> string list) list \<Rightarrow> (string \<times> string) list \<Rightarrow> string list \<Rightarrow> bool" where
  "eval_noneOf noneOf labels [] = True"
| "eval_noneOf noneOf labels (key # keys) =
     (case map_of labels key of
        None \<Rightarrow> eval_noneOf noneOf labels keys
      | Some value \<Rightarrow>
          if value \<in> set (the (map_of noneOf key)) then False
          else eval_noneOf noneOf labels keys)"

fun eval_has :: "(string \<times> string) list \<Rightarrow> string list \<Rightarrow> reason list \<Rightarrow> reason list option" where
  "eval_has labels [] reasons = Some reasons"
| "eval_has labels (key # keys) reasons =
     (case map_of labels key of
        None \<Rightarrow> None
      | Some value \<Rightarrow>
          eval_has labels keys (reasons @ [\<lparr>reason_key = key, reason_value = value\<rparr>]))"

fun eval_missing :: "(string \<times> string) list \<Rightarrow> string list \<Rightarrow> bool" where
  "eval_missing labels [] = True"
| "eval_missing labels (key # keys) =
     (if map_of labels key \<noteq> None then False else eval_missing labels keys)"

definition evaluate :: "matcher \<Rightarrow> (string \<times> string) list \<Rightarrow> bool \<times> reason list" where
  "evaluate m labels =
     (if matcher_empty m then (True, [])
      else case eval_labels (m_labels m) labels (sorted_keys (m_labels m)) [] of
        None \<Rightarrow> (False, [])
      | Some r1 \<Rightarrow>
        (case eval_oneOf (m_oneOf m) labels (sorted_keys (m_oneOf m)) r1 of
           None \<Rightarrow> (False, [])
         | Some r2 \<Rightarrow>
             if \<not> eval_noneOf (m_noneOf m) labels (sorted_keys (m_noneOf m)) then (False, [])
             else case eval_has labels (sort (m_has m)) r2 of
               None \<Rightarrow> (False, [])
             | Some r3 \<Rightarrow>
                 if \<not> eval_missing labels (sort (m_missing m)) then (False, []) else (True, r3)))"

definition reason_string :: "reason \<Rightarrow> string" where
  "reason_string r =
     (if reason_value r = [] then reason_key r else reason_key r @ ''='' @ reason_value r)"

definition reasons_string :: "reason list \<Rightarrow> string" where
  "reasons_string rs = join_with '', '' (map reason_string rs)"

text \<open>\<open>Validate\<close>: one pass over each map or list, adding to the error list.\<close>

definition validate_matcher :: "matcher \<Rightarrow> position \<Rightarrow> errors \<Rightarrow> errors" where
  "validate_matcher m pos errs =
     (let missing = (\<lambda>key. key \<in> set (m_missing m));
          e1 = fold (\<lambda>(key, values) e.
                 if values = [] then add_error e pos (MatchMsg (OneOfEmpty key)) else e)
                 (m_oneOf m) errs;
          e2 = fold (\<lambda>(key, values) e.
                 if values = [] then add_error e pos (MatchMsg (NoneOfEmpty key)) else e)
                 (m_noneOf m) e1;
          e3 = fold (\<lambda>key e.
                 if missing key then add_error e pos (MatchMsg (PresentAndAbsent key)) else e)
                 (m_has m) e2;
          e4 = fold (\<lambda>(key, value) e.
                 if missing key then add_error e pos (MatchMsg (ValueAndAbsent key)) else e)
                 (m_labels m) e3
      in fold (\<lambda>(key, values) e.
           if missing key then add_error e pos (MatchMsg (ValueAndAbsent key)) else e)
           (m_oneOf m) e4)"

definition describe_matcher :: "matcher \<Rightarrow> string" where
  "describe_matcher m =
     (if matcher_empty m then ''every host''
      else join_with '', ''
        (map (\<lambda>key. key @ ''='' @ the (map_of (m_labels m) key)) (sorted_keys (m_labels m))
         @ map (\<lambda>key. key @ '' in ['' @ join_with '' '' (the (map_of (m_oneOf m) key)) @ '']'')
             (sorted_keys (m_oneOf m))
         @ map (\<lambda>key. key @ '' not in ['' @ join_with '' '' (the (map_of (m_noneOf m) key)) @ '']'')
             (sorted_keys (m_noneOf m))
         @ map (\<lambda>key. ''has '' @ key) (sort (m_has m))
         @ map (\<lambda>key. ''missing '' @ key) (sort (m_missing m))))"

section \<open>Specification\<close>

text \<open>The conjunction a matcher stands for, with no loop and no order.\<close>

definition selects :: "matcher \<Rightarrow> (string \<rightharpoonup> string) \<Rightarrow> bool" where
  "selects m labels \<longleftrightarrow>
     (\<forall>(key, value) \<in> set (m_labels m). labels key = Some value)
     \<and> (\<forall>(key, values) \<in> set (m_oneOf m). \<exists>v \<in> set values. labels key = Some v)
     \<and> (\<forall>(key, values) \<in> set (m_noneOf m). \<forall>v \<in> set values. labels key \<noteq> Some v)
     \<and> (\<forall>key \<in> set (m_has m). labels key \<noteq> None)
     \<and> (\<forall>key \<in> set (m_missing m). labels key = None)"

definition wf_matcher :: "matcher \<Rightarrow> bool" where
  "wf_matcher m \<longleftrightarrow> wf_map (m_labels m) \<and> wf_map (m_oneOf m) \<and> wf_map (m_noneOf m)"

text \<open>The label terms a matcher names, in the order they are reported.\<close>

definition named_terms :: "matcher \<Rightarrow> (string \<times> string) list \<Rightarrow> reason list" where
  "named_terms m labels =
     map (\<lambda>key. \<lparr>reason_key = key, reason_value = the (map_of labels key)\<rparr>)
       (sorted_keys (m_labels m) @ sorted_keys (m_oneOf m) @ sort (m_has m))"

section \<open>Lemmas\<close>

lemma eval_labels_eq:
  "eval_labels w labels keys rs =
     (if \<forall>k \<in> set keys. map_of labels k \<noteq> None \<and> map_of labels k = map_of w k
      then Some (rs @ map (\<lambda>k. \<lparr>reason_key = k, reason_value = the (map_of labels k)\<rparr>) keys)
      else None)"
  by (induction keys arbitrary: rs) (auto split: option.splits)

lemma eval_oneOf_eq:
  "eval_oneOf w labels keys rs =
     (if \<forall>k \<in> set keys. \<exists>v. map_of labels k = Some v \<and> v \<in> set (the (map_of w k))
      then Some (rs @ map (\<lambda>k. \<lparr>reason_key = k, reason_value = the (map_of labels k)\<rparr>) keys)
      else None)"
  by (induction keys arbitrary: rs) (auto split: option.splits)

lemma eval_noneOf_eq:
  "eval_noneOf w labels keys
     \<longleftrightarrow> (\<forall>k \<in> set keys. \<forall>v. map_of labels k = Some v \<longrightarrow> v \<notin> set (the (map_of w k)))"
  by (induction keys) (auto split: option.splits)

lemma eval_has_eq:
  "eval_has labels keys rs =
     (if \<forall>k \<in> set keys. map_of labels k \<noteq> None
      then Some (rs @ map (\<lambda>k. \<lparr>reason_key = k, reason_value = the (map_of labels k)\<rparr>) keys)
      else None)"
  by (induction keys arbitrary: rs) (auto split: option.splits)

lemma eval_missing_eq: "eval_missing labels keys \<longleftrightarrow> (\<forall>k \<in> set keys. map_of labels k = None)"
  by (induction keys) auto

lemma wf_map_ball:
  "wf_map m \<Longrightarrow> (\<forall>k \<in> set (sorted_keys m). P k (the (map_of m k))) \<longleftrightarrow> (\<forall>(k, v) \<in> set m. P k v)"
  by (force simp: wf_map_Some)

lemma wf_map_ball_Some:
  "wf_map m \<Longrightarrow> (\<forall>k \<in> set (sorted_keys m). f k \<noteq> None \<and> f k = map_of m k)
     \<longleftrightarrow> (\<forall>(k, v) \<in> set m. f k = Some v)"
  by (force simp: wf_map_Some)

lemma evaluate_eq:
  assumes "wf_matcher m"
  shows "evaluate m labels =
    (if selects m (map_of labels) then (True, named_terms m labels) else (False, []))"
proof -
  have wf: "wf_map (m_labels m)" "wf_map (m_oneOf m)" "wf_map (m_noneOf m)"
    using assms by (simp_all add: wf_matcher_def)
  have one: "(\<forall>k \<in> set (sorted_keys (m_oneOf m)).
          \<exists>v. map_of labels k = Some v \<and> v \<in> set (the (map_of (m_oneOf m) k)))
      \<longleftrightarrow> (\<forall>(k, vs) \<in> set (m_oneOf m). \<exists>v \<in> set vs. map_of labels k = Some v)"
    using wf_map_ball [OF wf(2), of "\<lambda>k vs. \<exists>v. map_of labels k = Some v \<and> v \<in> set vs"]
    by (simp add: Bex_def conj_commute del: set_sorted_keys)
  have none: "(\<forall>k \<in> set (sorted_keys (m_noneOf m)).
          \<forall>v. map_of labels k = Some v \<longrightarrow> v \<notin> set (the (map_of (m_noneOf m) k)))
      \<longleftrightarrow> (\<forall>(k, vs) \<in> set (m_noneOf m). \<forall>v \<in> set vs. map_of labels k \<noteq> Some v)"
    using wf_map_ball [OF wf(3), of "\<lambda>k vs. \<forall>v. map_of labels k = Some v \<longrightarrow> v \<notin> set vs"]
    by (auto simp del: set_sorted_keys)
  note lab = wf_map_ball_Some [OF wf(1), of "map_of labels", unfolded not_None_eq]
  show ?thesis
    by (cases "matcher_empty m")
      (simp_all add: evaluate_def eval_labels_eq eval_oneOf_eq eval_noneOf_eq eval_has_eq
        eval_missing_eq selects_def named_terms_def one none lab
        matcher_empty_def sorted_keys_def [of "[]"] del: set_sorted_keys)
qed

lemma fold_add_error:
  "fold (\<lambda>x e. if P x then add_error e pos (g x) else e) xs errs
     = errs @ map (\<lambda>x. \<lparr>err_pos = pos, err_msg = g x\<rparr>) (filter P xs)"
  by (induction xs arbitrary: errs) (auto simp: add_error_def)

lemma validate_matcher_msgs:
  assumes "e \<in> set (validate_matcher m pos [])"
  shows "(\<exists>k. err_msg e = MatchMsg (NoneOfEmpty k))
    \<or> (\<exists>k. (k, []) \<in> set (m_oneOf m))
    \<or> (\<exists>k. k \<in> set (m_missing m) \<inter> (set (m_has m) \<union> fst ` set (m_labels m) \<union> fst ` set (m_oneOf m)))"
proof -
  have "e \<in> set (map (\<lambda>x. \<lparr>err_pos = pos, err_msg = MatchMsg (OneOfEmpty (fst x))\<rparr>)
        (filter (\<lambda>x. snd x = []) (m_oneOf m)))
      \<or> (\<exists>x. err_msg e = MatchMsg (NoneOfEmpty (fst x)))
      \<or> e \<in> set (map (\<lambda>k. \<lparr>err_pos = pos, err_msg = MatchMsg (PresentAndAbsent k)\<rparr>)
        (filter (\<lambda>k. k \<in> set (m_missing m)) (m_has m)))
      \<or> e \<in> set (map (\<lambda>x. \<lparr>err_pos = pos, err_msg = MatchMsg (ValueAndAbsent (fst x))\<rparr>)
        (filter (\<lambda>x. fst x \<in> set (m_missing m)) (m_labels m)))
      \<or> e \<in> set (map (\<lambda>x. \<lparr>err_pos = pos, err_msg = MatchMsg (ValueAndAbsent (fst x))\<rparr>)
        (filter (\<lambda>x. fst x \<in> set (m_missing m)) (m_oneOf m)))"
    using assms unfolding validate_matcher_def Let_def case_prod_beta fold_add_error by auto
  then show ?thesis
    by (elim disjE) (auto, (metis prod.collapse)?)
qed

lemma evaluate_perm:
  assumes wfm: "wf_matcher m" and lab: "mset (m_labels m') = mset (m_labels m)"
    and one: "mset (m_oneOf m') = mset (m_oneOf m)" and none: "mset (m_noneOf m') = mset (m_noneOf m)"
    and has: "mset (m_has m') = mset (m_has m)" and mis: "mset (m_missing m') = mset (m_missing m)"
  shows "evaluate m' labels = evaluate m labels"
proof -
  have wf: "wf_matcher m'"
    using wfm wf_map_perm [OF lab] wf_map_perm [OF one] wf_map_perm [OF none]
    by (simp add: wf_matcher_def)
  have "named_terms m' labels = named_terms m labels"
    by (simp add: named_terms_def sorted_keys_perm [OF lab] sorted_keys_perm [OF one]
        sort_perm [OF has])
  moreover have "selects m' l = selects m l" for l
    by (simp add: selects_def mset_eq_setD [OF lab] mset_eq_setD [OF one] mset_eq_setD [OF none]
        mset_eq_setD [OF has] mset_eq_setD [OF mis])
  ultimately show ?thesis by (simp add: evaluate_eq wfm wf)
qed

section \<open>Properties\<close>

text \<open>
  C26: the matcher is the conjunction of its terms. A host is selected exactly when every
  label, oneOf, noneOf, has and missing term holds of its labels, and the reasons recorded for
  a selected host are the values of the labels the matcher names, by kind and then by key,
  whatever the order of the maps.
\<close>

theorem evaluate_conjunction:
  assumes "wf_matcher m"
  shows "evaluate m labels =
    (if selects m (map_of labels) then (True, named_terms m labels) else (False, []))"
  by (rule evaluate_eq [OF assms])

theorem evaluate_conjunction_witness:
  "evaluate \<lparr>m_labels = [(''role'', ''web'')], m_oneOf = [(''site'', [''lon'', ''par''])],
      m_noneOf = [(''env'', [''test''])], m_has = [''rack''], m_missing = [''retired'']\<rparr>
     [(''site'', ''par''), (''rack'', ''7''), (''role'', ''web'')]
   = (True, [\<lparr>reason_key = ''role'', reason_value = ''web''\<rparr>,
       \<lparr>reason_key = ''site'', reason_value = ''par''\<rparr>, \<lparr>reason_key = ''rack'', reason_value = ''7''\<rparr>])"
  by (subst evaluate_conjunction)
    (simp_all add: wf_matcher_def selects_def named_terms_def sorted_keys_def)

text \<open>
  A matcher problem reported by validation is real. When \<open>Validate\<close> reports anything but an
  empty noneOf list, the layer would never apply: no host, whatever its labels, is selected.
\<close>

theorem validate_matcher_sound:
  assumes "wf_matcher m" "e \<in> set (validate_matcher m pos [])"
    and "\<And>k. err_msg e \<noteq> MatchMsg (NoneOfEmpty k)"
  shows "\<not> fst (evaluate m labels)"
proof -
  from validate_matcher_msgs [OF assms(2)] assms(3) have "\<not> selects m (map_of labels)"
    by (auto simp: selects_def) force+
  then show ?thesis by (simp add: evaluate_eq [OF assms(1)])
qed

theorem validate_matcher_sound_witness:
  "\<not> fst (evaluate \<lparr>m_labels = [], m_oneOf = [], m_noneOf = [], m_has = [''a''], m_missing = [''a'']\<rparr>
     [(''a'', ''1'')])"
  by (rule validate_matcher_sound
      [of _ "\<lparr>err_pos = no_position, err_msg = MatchMsg (PresentAndAbsent ''a'')\<rparr>" no_position])
    (simp_all add: wf_matcher_def validate_matcher_def add_error_def)

end
