(* ===== verification/Canonical.thy ===== *)
theory Canonical
  imports Document
begin

text \<open>
  The canonical encoding of desired state. \<open>plain\<close> is what a tree says about the host; the
  encoding of two trees is equal exactly when they say the same (\<open>canonical_iff_plain\<close>), so
  equal manifest digests mean equal instructions up to collisions of the hash. The proof reads
  the encoding back: pieces of a string, strings, items of a list and entries of a map can each
  be cut off the front of a text in one way only.
\<close>

section \<open>Specification functions\<close>

text \<open>
  What a tree says about the host: maps by sorted key, quoting and provenance forgotten.
\<close>

fun plain :: "val \<Rightarrow> val" where
  "plain (Value k s q l m fr d) =
     (case k of
        KindScalar \<Rightarrow> scalar_val s
      | KindList \<Rightarrow> list_val (map plain l)
      | KindMap \<Rightarrow> map_val (sort_key fst (map (\<lambda>(key, field). (key, plain field)) m)))"

text \<open>Every scalar and every key is valid UTF-8, and the keys of every map are distinct.\<close>

fun utf8_val :: "val \<Rightarrow> bool" where
  "utf8_val (Value k s q l m fr d) \<longleftrightarrow>
     (case k of
        KindScalar \<Rightarrow> valid_utf8 s
      | KindList \<Rightarrow> list_all id (map utf8_val l)
      | KindMap \<Rightarrow> list_all id (map (\<lambda>(key, field). valid_utf8 key \<and> utf8_val field) m))"

fun wf_val :: "val \<Rightarrow> bool" where
  "wf_val (Value k s q l m fr d) \<longleftrightarrow>
     (case k of
        KindScalar \<Rightarrow> True
      | KindList \<Rightarrow> list_all id (map wf_val l)
      | KindMap \<Rightarrow> wf_map m \<and> list_all id (map (\<lambda>(key, field). wf_val field) m))"

text \<open>Auxiliary functions of the proofs.\<close>

text \<open>A piece of a string that is one well-formed encoding.\<close>

definition good_piece :: "nat option \<times> string \<Rightarrow> bool" where
  "good_piece p \<longleftrightarrow>
     fst p \<noteq> None \<and> decode_rune (map of_char (snd p)) = (fst p, length (snd p))"

definition unhex :: "char \<Rightarrow> nat" where
  "unhex c = (if of_char c < (58 :: nat) then of_char c - 48 else of_char c - 87)"

fun json_read :: "string \<Rightarrow> nat \<times> string" where
  "json_read (c # s) =
     (if c \<noteq> CHR 0x5C then (of_char c, s)
      else case s of
        [] \<Rightarrow> (0, [])
      | d # t \<Rightarrow>
          if d = CHR ''u'' then
            (case t of
               _ # _ # e # f # u \<Rightarrow> (16 * unhex e + unhex f, u)
             | _ \<Rightarrow> (0, []))
          else
            (if d = CHR ''b'' then 8 else if d = CHR ''f'' then 12 else if d = CHR ''n'' then 10
             else if d = CHR ''r'' then 13 else if d = CHR ''t'' then 9 else of_char d, t))"
| "json_read [] = (0, [])"

definition tail_items :: "('a \<Rightarrow> string) \<Rightarrow> 'a list \<Rightarrow> string" where
  "tail_items f xs = concat (map (\<lambda>x. CHR '','' # f x) xs)"

definition entry_text :: "string \<times> val \<Rightarrow> string" where
  "entry_text e = json_string (fst e) @ '':'' @ canonical (snd e)"

section \<open>Decoding and the string encoding\<close>

lemma decode_rune_width: "0 < snd (decode_rune bs)"
  by (cases bs) (auto split: list.splits if_splits)

lemma decode_rune_width_le: "bs \<noteq> [] \<Longrightarrow> snd (decode_rune bs) \<le> length bs"
  by (cases bs) (auto split: list.splits)

lemma decode_rune_width_max: "snd (decode_rune bs) \<le> 4"
  by (cases bs) (auto split: list.splits)

lemma decode_rune_take:
  assumes "decode_rune bs = (Some r, w)"
  shows "decode_rune (take w bs) = (Some r, w)"
  using assms by (cases bs) (auto split: list.splits if_splits)

lemma decode_rune_extend:
  assumes "decode_rune bs = (Some r, length bs)"
  shows "decode_rune (bs @ cs) = (Some r, length bs)"
proof -
  have "length bs \<le> 4"
    using decode_rune_width_max [of bs] assms by simp
  then consider "bs = []" | a where "bs = [a]" | a b where "bs = [a, b]"
    | a b c where "bs = [a, b, c]" | a b c d where "bs = [a, b, c, d]"
    by (auto simp: numeral_eq_Suc le_Suc_eq length_Suc_conv)
  then show ?thesis
    using assms by cases (simp_all split: if_splits)
qed

lemma runes_fuel_concat: "length s \<le> n \<Longrightarrow> concat (map snd (runes_fuel n s)) = s"
proof (induction n arbitrary: s)
  case (Suc n)
  show ?case
  proof (cases s)
    case (Cons c t)
    define w where "w = snd (decode_rune (map of_char s))"
    have "0 < w" by (simp add: w_def decode_rune_width)
    with Cons Suc.prems have "length (drop w s) \<le> n" by simp
    then have "concat (map snd (runes_fuel n (drop w s))) = drop w s" by (rule Suc.IH)
    then show ?thesis
      using Cons by (simp add: w_def case_prod_beta Let_def del: decode_rune.simps)
  qed simp
qed simp

lemma runes_concat: "concat (map snd (runes s)) = s"
  by (simp add: runes_def runes_fuel_concat)

lemma runes_fuel_good: "p \<in> set (runes_fuel n s) \<Longrightarrow> fst p \<noteq> None \<Longrightarrow> good_piece p"
proof (induction n arbitrary: s)
  case (Suc n)
  show ?case
  proof (cases s)
    case (Cons c t)
    obtain r w where d: "decode_rune (map of_char s) = (r, w)" by fastforce
    from d have "w \<le> length s" using decode_rune_width_le [of "map of_char s"] Cons by simp
    show ?thesis
    proof (cases "p = (r, take w s)")
      case True
      with Suc.prems(2) obtain r' where "r = Some r'" by auto
      with d have "decode_rune (take w (map of_char s)) = (Some r', w)"
        by (simp add: decode_rune_take)
      with True \<open>r = Some r'\<close> \<open>w \<le> length s\<close> show ?thesis
        by (simp add: good_piece_def take_map)
    next
      case False
      with Suc.prems d Cons have "p \<in> set (runes_fuel n (drop w s))"
        by (simp del: decode_rune.simps)
      then show ?thesis using Suc.prems(2) by (rule Suc.IH)
    qed
  qed (use Suc.prems in simp)
qed simp

lemma valid_utf8_good: "valid_utf8 s \<Longrightarrow> list_all good_piece (runes s)"
  by (auto simp: valid_utf8_def list_all_iff runes_def intro: runes_fuel_good)

lemma good_piece_cases:
  assumes "good_piece p"
  obtains (ascii) b where "p = (Some b, [char_of b])" "b < 128"
    | (multi) r c cs where "p = (Some r, c # cs)" "128 \<le> r" "194 \<le> (of_char c :: nat)"
proof (cases p)
  case (Pair o_r chunk)
  with assms obtain r where r: "o_r = Some r"
    and d: "decode_rune (map of_char chunk) = (Some r, length chunk)"
    by (auto simp: good_piece_def)
  from d obtain c cs where chunk: "chunk = c # cs" by (cases chunk) auto
  show thesis
  proof (cases "of_char c < (128 :: nat)")
    case True
    with d chunk have "r = of_char c" "cs = []" by auto
    with True show thesis
      using that(1) [of "of_char c"] Pair r chunk by simp
  next
    case False
    with d chunk have "128 \<le> r" "194 \<le> (of_char c :: nat)"
      by (auto simp: cont_byte_def split: if_splits list.splits)
    then show thesis using that(2) Pair r chunk by simp
  qed
qed

section \<open>Reading the encoding back\<close>

lemma char_of_eq: "b < 256 \<Longrightarrow> char_of b = c \<longleftrightarrow> (b :: nat) = of_char c"
  by (metis char_of_char mod_less of_char_of)

lemma unhex_hex_digit: "n < 16 \<Longrightarrow> unhex (hex_digit n) = n"
  by (auto simp: unhex_def hex_digit_def)

lemma json_read_ascii:
  assumes "b < 128" shows "json_read (json_ascii b @ xs) = (b, xs)"
proof -
  consider "b \<in> {92, 34, 8, 12, 10, 13, 9}"
    | (hex) "b \<notin> {92, 34, 8, 12, 10, 13, 9}" "b < 32 \<or> b \<in> {38, 60, 62}"
    | (self) "b \<notin> {92, 34, 8, 12, 10, 13, 9}" "\<not> (b < 32 \<or> b \<in> {38, 60, 62})"
    by blast
  then show ?thesis
  proof cases
    case 1
    then show ?thesis by (auto simp: json_ascii_def)
  next
    case hex
    then have "b div 16 < 16" "b mod 16 < 16" "16 * (b div 16) + b mod 16 = b" by auto
    with hex show ?thesis by (simp add: json_ascii_def unhex_hex_digit)
  next
    case self
    then have "char_of b \<noteq> CHR 0x5C" using assms by (simp add: char_of_eq)
    with self assms show ?thesis by (simp add: json_ascii_def)
  qed
qed

lemma json_ascii_unique:
  "b < 128 \<Longrightarrow> c < 128 \<Longrightarrow> json_ascii b @ xs = json_ascii c @ ys \<Longrightarrow> b = c \<and> xs = ys"
  by (metis json_read_ascii prod.inject)

lemma decode_rune_form:
  assumes "decode_rune bs = (Some r, length bs)"
  obtains (one) a where "bs = [a]" "r = a" "a < 128"
  | (two) a b where "bs = [a, b]" "194 \<le> a" "128 \<le> b" "b \<le> 191" "a * 64 + b = r + 12416" "r < 2048"
  | (three) a b c where "bs = [a, b, c]" "224 \<le> a" "128 \<le> b" "b \<le> 191" "128 \<le> c" "c \<le> 191"
      "a * 4096 + b * 64 + c = r + 925824" "2048 \<le> r" "r < 65536"
  | (four) a b c d where "bs = [a, b, c, d]" "240 \<le> a" "128 \<le> b" "b \<le> 191" "128 \<le> c" "c \<le> 191"
      "128 \<le> d" "d \<le> 191" "a * 262144 + b * 4096 + c * 64 + d = r + 63447168" "65536 \<le> r"
proof -
  have "length bs \<le> 4" "bs \<noteq> []"
    using decode_rune_width_max [of bs] assms by auto
  then consider a where "bs = [a]" | a b where "bs = [a, b]"
    | a b c where "bs = [a, b, c]" | a b c d where "bs = [a, b, c, d]"
    by (auto simp: numeral_eq_Suc le_Suc_eq length_Suc_conv)
  then show thesis
  proof cases
    case 1
    then show thesis using assms one by (auto split: if_splits)
  next
    case (2 a b)
    with assms have "194 \<le> a \<and> a \<le> 223 \<and> cont_byte 128 191 b \<and> r = (a - 192) * 64 + (b - 128)"
      by (simp split: if_splits)
    then have f: "194 \<le> a" "a \<le> 223" "128 \<le> b" "b \<le> 191" "r = (a - 192) * 64 + (b - 128)"
      by (simp_all add: cont_byte_def)
    then show thesis using two 2 by simp
  next
    case (3 a b c)
    with assms have "224 \<le> a \<and> a \<le> 239 \<and> cont_byte 128 191 c
        \<and> cont_byte (if a = 224 then 160 else 128) (if a = 237 then 159 else 191) b
        \<and> r = (a - 224) * 4096 + (b - 128) * 64 + (c - 128)"
      by (simp split: if_split_asm)
    then have f: "224 \<le> a" "a \<le> 239" "160 \<le> b \<or> a \<noteq> 224" "128 \<le> b" "b \<le> 191"
      "128 \<le> c" "c \<le> 191" "r = (a - 224) * 4096 + (b - 128) * 64 + (c - 128)"
      by (simp_all add: cont_byte_def split: if_split_asm)
    from f have "a * 4096 + b * 64 + c = r + 925824" "r < 65536" by simp_all
    moreover from f have "2048 \<le> r" by (cases "a = 224") simp_all
    ultimately show thesis using three 3 f by blast
  next
    case (4 a b c d)
    with assms have "240 \<le> a \<and> cont_byte 128 191 c \<and> cont_byte 128 191 d
        \<and> cont_byte (if a = 240 then 144 else 128) (if a = 244 then 143 else 191) b
        \<and> r = (a - 240) * 262144 + (b - 128) * 4096 + (c - 128) * 64 + (d - 128)"
      by (simp split: if_split_asm)
    then have f: "240 \<le> a" "144 \<le> b \<or> a \<noteq> 240" "128 \<le> b" "b \<le> 191" "128 \<le> c" "c \<le> 191"
      "128 \<le> d" "d \<le> 191" "r = (a - 240) * 262144 + (b - 128) * 4096 + (c - 128) * 64 + (d - 128)"
      by (simp_all add: cont_byte_def split: if_split_asm)
    from f have "a * 262144 + b * 4096 + c * 64 + d = r + 63447168" by simp
    moreover from f have "65536 \<le> r" by (cases "a = 240") simp_all
    ultimately show thesis using four 4 f by blast
  qed
qed

lemma continuation_inj:
  fixes a b a' b' :: nat
  assumes "a * 64 + b = a' * 64 + b'" "128 \<le> b" "b \<le> 191" "128 \<le> b'" "b' \<le> 191"
  shows "a = a' \<and> b = b'"
proof -
  have "a = a'"
  proof (rule ccontr)
    assume "a \<noteq> a'"
    then have "a + 1 \<le> a' \<or> a' + 1 \<le> a" by linarith
    then show False using assms by (elim disjE) linarith+
  qed
  with assms show ?thesis by simp
qed

lemma decode_rune_inj:
  assumes "decode_rune bs = (Some r, length bs)" "decode_rune cs = (Some r, length cs)"
  shows "bs = cs"
  using assms(1)
proof (cases rule: decode_rune_form)
  case (one a)
  show ?thesis
  proof (rule decode_rune_form [OF assms(2)])
    fix b assume "cs = [b]" "r = b" then show ?thesis using one by simp
  qed (insert one, linarith+)
next
  case (two a b)
  show ?thesis
  proof (rule decode_rune_form [OF assms(2)])
    fix a' b' assume "cs = [a', b']" "a' * 64 + b' = r + 12416" "128 \<le> b'" "b' \<le> 191"
    then show ?thesis using two continuation_inj [of a b a' b'] by simp
  qed (insert two, linarith+)
next
  case (three a b c)
  show ?thesis
  proof (rule decode_rune_form [OF assms(2)])
    fix a' b' c' assume *: "cs = [a', b', c']" "a' * 4096 + b' * 64 + c' = r + 925824"
      "128 \<le> b'" "b' \<le> 191" "128 \<le> c'" "c' \<le> 191"
    have "(a * 64 + b) * 64 + c = (a' * 64 + b') * 64 + c'" using * three by simp
    then have "a * 64 + b = a' * 64 + b' \<and> c = c'"
      by (rule continuation_inj) (use * three in simp_all)
    then show ?thesis using * three continuation_inj [of a b a' b'] by simp
  qed (insert three, linarith+)
next
  case (four a b c d)
  show ?thesis
  proof (rule decode_rune_form [OF assms(2)])
    fix a' b' c' d' assume *: "cs = [a', b', c', d']"
      "a' * 262144 + b' * 4096 + c' * 64 + d' = r + 63447168"
      "128 \<le> b'" "b' \<le> 191" "128 \<le> c'" "c' \<le> 191" "128 \<le> d'" "d' \<le> 191"
    have "((a * 64 + b) * 64 + c) * 64 + d = ((a' * 64 + b') * 64 + c') * 64 + d'"
      using * four by simp
    then have h1: "(a * 64 + b) * 64 + c = (a' * 64 + b') * 64 + c' \<and> d = d'"
      by (rule continuation_inj) (use * four in simp_all)
    then have h2: "a * 64 + b = a' * 64 + b' \<and> c = c'"
      by (intro continuation_inj) (use * four in simp_all)
    then have h3: "a = a' \<and> b = b'"
      by (intro continuation_inj) (use * four in simp_all)
    show ?thesis using h1 h2 h3 *(1) four(1) by simp
  qed (insert four, linarith+)
qed

lemma json_piece_ascii: "b < 128 \<Longrightarrow> json_piece (Some b, [char_of b]) = json_ascii b"
  by (simp add: json_piece_def)

lemma json_ascii_head: "b < 128 \<Longrightarrow> \<exists>c t. json_ascii b = c # t \<and> (of_char c :: nat) < 128 \<and> c \<noteq> CHR 0x22"
  by (auto simp: json_ascii_def char_of_eq intro!: exI [of _ "char_of b"])

lemma json_piece_multi:
  assumes "good_piece (Some r, c # cs)" "128 \<le> r" "194 \<le> (of_char c :: nat)"
  shows "json_piece (Some r, c # cs) =
    (if r = 8232 \<or> r = 8233 then CHR 0x5C # ''u202'' @ [hex_digit (r mod 16)] else c # cs)"
  using assms by (simp add: json_piece_def)

lemma json_ascii_not_202:
  assumes "b < 128" "json_ascii b = CHR 0x5C # t"
  shows "t @ xs \<noteq> CHR ''u'' # CHR ''2'' # ys"
  using assms by (auto simp: json_ascii_def char_of_eq split: if_splits)

lemma good_piece_inj: "good_piece (Some r, cs) \<Longrightarrow> good_piece (Some r, ds) \<Longrightarrow> cs = ds"
  unfolding good_piece_def
  by (metis decode_rune_inj fst_conv inj_map_eq_map inj_of_char length_map snd_conv)

lemma good_piece_raw_unique:
  assumes "good_piece (Some r, cs)" "good_piece (Some r', ds)" "cs @ xs = ds @ ys"
  shows "(Some r, cs) = (Some r', ds) \<and> xs = ys"
proof -
  have "decode_rune (map of_char (cs @ xs)) = (Some r, length cs)"
    using assms(1) decode_rune_extend [of "map of_char cs" r "map of_char xs"]
    by (simp add: good_piece_def)
  moreover have "decode_rune (map of_char (ds @ ys)) = (Some r', length ds)"
    using assms(2) decode_rune_extend [of "map of_char ds" r' "map of_char ys"]
    by (simp add: good_piece_def)
  ultimately have "r = r'" "length cs = length ds" using assms(3) by auto
  with assms(3) show ?thesis by simp
qed

lemma json_piece_unique:
  assumes p: "good_piece p" and q: "good_piece q" and eq: "json_piece p @ xs = json_piece q @ ys"
  shows "p = q \<and> xs = ys"
  using p
proof (cases rule: good_piece_cases)
  case p1: (ascii b)
  show ?thesis using q
  proof (cases rule: good_piece_cases)
    case q1: (ascii b')
    with p1 eq show ?thesis by (metis json_ascii_unique json_piece_ascii)
  next
    case q1: (multi r c cs)
    obtain d t where h: "json_ascii b = d # t" "of_char d < (128 :: nat)"
      using json_ascii_head [OF p1(2)] by blast
    have "d = CHR 0x5C \<Longrightarrow> t @ xs \<noteq> CHR ''u'' # CHR ''2'' # zs" for zs
      using json_ascii_not_202 [OF p1(2)] h by simp
    with p1 q1 q eq h show ?thesis
      by (auto simp: json_piece_ascii json_piece_multi split: if_splits)
  qed
next
  case p1: (multi r c cs)
  show ?thesis using q
  proof (cases rule: good_piece_cases)
    case q1: (ascii b')
    obtain d t where h: "json_ascii b' = d # t" "of_char d < (128 :: nat)"
      using json_ascii_head [OF q1(2)] by blast
    have "d = CHR 0x5C \<Longrightarrow> CHR ''u'' # CHR ''2'' # zs \<noteq> t @ ys" for zs
      using json_ascii_not_202 [OF q1(2)] h by metis
    with p1 q1 p eq h show ?thesis
      by (auto simp: json_piece_ascii json_piece_multi split: if_splits)
  next
    case q1: (multi r' c' cs')
    show ?thesis
    proof (cases "r \<in> {8232, 8233} \<or> r' \<in> {8232, 8233}")
      case True
      with p1 q1 p q eq have "r = r' \<and> xs = ys"
        by (auto simp: json_piece_multi hex_digit_def split: if_splits)
      with p q p1 q1 show ?thesis using good_piece_inj by auto
    next
      case False
      with p q p1 q1 eq show ?thesis
        using good_piece_raw_unique [of r "c # cs" r' "c' # cs'" xs ys]
        by (simp add: json_piece_multi)
    qed
  qed
qed

lemma json_piece_head: "good_piece p \<Longrightarrow> \<exists>c t. json_piece p = c # t \<and> c \<noteq> CHR 0x22"
proof (erule good_piece_cases)
  fix b assume "p = (Some b, [char_of b])" "b < (128 :: nat)"
  then show ?thesis using json_ascii_head [of b] by (auto simp: json_piece_ascii)
next
  fix r c cs assume "p = (Some r, c # cs)" "128 \<le> r" "194 \<le> (of_char c :: nat)"
  then show ?thesis by (auto simp: json_piece_def)
qed

lemma json_pieces_unique:
  assumes "list_all good_piece ps" "list_all good_piece qs"
    and "concat (map json_piece ps) @ CHR 0x22 # xs = concat (map json_piece qs) @ CHR 0x22 # ys"
  shows "ps = qs \<and> xs = ys"
  using assms
proof (induction ps arbitrary: qs)
  case Nil
  then show ?case by (cases qs) (auto dest: json_piece_head)
next
  case (Cons p ps)
  show ?case
  proof (cases qs)
    case Nil
    with Cons.prems show ?thesis by (auto dest: json_piece_head)
  next
    case (Cons q qs')
    with Cons.prems have "p = q \<and> concat (map json_piece ps) @ CHR 0x22 # xs
        = concat (map json_piece qs') @ CHR 0x22 # ys"
      by (intro json_piece_unique) simp_all
    with Cons Cons.prems Cons.IH [of qs'] show ?thesis by simp
  qed
qed

lemma json_string_unique:
  assumes "valid_utf8 s" "valid_utf8 t" "json_string s @ xs = json_string t @ ys"
  shows "s = t \<and> xs = ys"
proof -
  have "runes s = runes t \<and> xs = ys"
    by (rule json_pieces_unique) (use assms in \<open>auto simp: json_string_def valid_utf8_good\<close>)
  then show ?thesis by (metis runes_concat)
qed

section \<open>Lists, maps and trees\<close>

lemma insort_key_map_pair:
  "insort_key fst (k, g k x) (map (\<lambda>(k, x). (k, g k x)) m)
     = map (\<lambda>(k, x). (k, g k x)) (insort_key fst (k, x) m)"
  by (induction m) auto

lemma sort_key_map_pair:
  "sort_key fst (map (\<lambda>(k, x). (k, g k x)) m) = map (\<lambda>(k, x). (k, g k x)) (sort_key fst m)"
  by (induction m) (auto simp: insort_key_map_pair)

lemma join_with_Cons: "join_with '','' (map f (x # xs)) = f x @ tail_items f xs"
proof (induction xs arbitrary: x)
  case (Cons y ys)
  from Cons.IH [of y] show ?case by (simp add: tail_items_def)
qed (simp add: tail_items_def)

lemma tail_items_unique:
  assumes "\<And>x y s t. x \<in> set xs \<Longrightarrow> y \<in> set ys \<Longrightarrow> f x @ s = f y @ t \<Longrightarrow> R x y \<and> s = t"
    and "tail_items f xs @ c # a = tail_items f ys @ c # b" and "c \<noteq> CHR '',''"
  shows "list_all2 R xs ys \<and> a = b"
  using assms(1,2)
proof (induction xs arbitrary: ys)
  case Nil
  then show ?case using assms(3) by (cases ys) (auto simp: tail_items_def)
next
  case (Cons x xs)
  show ?case
  proof (cases ys)
    case Nil
    then show ?thesis using Cons.prems(2) assms(3) by (auto simp: tail_items_def)
  next
    case (Cons y ys')
    have "f x @ (tail_items f xs @ c # a) = f y @ (tail_items f ys' @ c # b)"
      using Cons.prems(2) Cons by (simp add: tail_items_def)
    then have "R x y \<and> tail_items f xs @ c # a = tail_items f ys' @ c # b"
      by (rule Cons.prems(1) [rotated 2]) (simp_all add: Cons)
    moreover from this have "list_all2 R xs ys' \<and> a = b"
    proof (intro Cons.IH)
      show "x \<in> set xs \<Longrightarrow> y \<in> set ys' \<Longrightarrow> f x @ s = f y @ t \<Longrightarrow> R x y \<and> s = t" for x y s t
        by (rule Cons.prems(1)) (simp_all add: Cons)
    qed simp
    ultimately show ?thesis using Cons by simp
  qed
qed

lemma items_unique:
  assumes "\<And>x y s t. x \<in> set xs \<Longrightarrow> y \<in> set ys \<Longrightarrow> f x @ s = f y @ t \<Longrightarrow> R x y \<and> s = t"
    and "join_with '','' (map f xs) @ c # a = join_with '','' (map f ys) @ c # b" and "c \<noteq> CHR '',''"
    and "\<And>x. x \<in> set xs \<union> set ys \<Longrightarrow> f x \<noteq> [] \<and> hd (f x) \<noteq> c"
  shows "list_all2 R xs ys \<and> a = b"
proof (cases xs)
  case Nil
  then show ?thesis
  proof (cases ys)
    case (Cons y ys')
    with assms(4) [of y] have "join_with '','' (map f ys) @ c # b \<noteq> c # a"
      unfolding Cons join_with_Cons by (cases "f y") auto
    with assms(2) Nil show ?thesis by simp
  qed (use assms(2) in simp)
next
  case (Cons x xs')
  note xs = Cons
  show ?thesis
  proof (cases ys)
    case Nil
    with assms(4) [of x] have "join_with '','' (map f xs) @ c # a \<noteq> c # b"
      unfolding Cons join_with_Cons by (cases "f x") auto
    with assms(2) Nil show ?thesis by simp
  next
    case (Cons y ys')
    have "f x @ (tail_items f xs' @ c # a) = f y @ (tail_items f ys' @ c # b)"
      using assms(2) unfolding xs Cons join_with_Cons by simp
    then have h: "R x y \<and> tail_items f xs' @ c # a = tail_items f ys' @ c # b"
      by (rule assms(1) [rotated 2]) (simp_all add: xs Cons)
    have "list_all2 R xs' ys' \<and> a = b"
    proof (rule tail_items_unique)
      show "tail_items f xs' @ c # a = tail_items f ys' @ c # b" using h by simp
      show "x \<in> set xs' \<Longrightarrow> y \<in> set ys' \<Longrightarrow> f x @ s = f y @ t \<Longrightarrow> R x y \<and> s = t" for x y s t
        by (rule assms(1)) (simp_all add: xs Cons)
    qed (rule assms(3))
    with h xs Cons show ?thesis by simp
  qed
qed

lemma canonical_map:
  "canonical (Value KindMap s q l m fr d) =
     ''{'' @ join_with '','' (map entry_text (sort_key fst m)) @ ''}''"
  by (simp add: sort_key_map_pair entry_text_def [abs_def] case_prod_beta comp_def)

lemma plain_map:
  "plain (Value KindMap s q l m fr d) = map_val (map (\<lambda>(k, x). (k, plain x)) (sort_key fst m))"
  by (simp add: sort_key_map_pair)

lemma canonical_head: "canonical v \<noteq> [] \<and> hd (canonical v) \<in> {CHR 0x22, CHR ''['', CHR ''{''}"
  by (cases v) (auto simp: json_string_def split: kind.splits)

lemma entry_head: "entry_text e \<noteq> [] \<and> hd (entry_text e) = CHR 0x22"
  by (simp add: entry_text_def json_string_def)

lemma canonical_unique:
  "utf8_val v \<Longrightarrow> utf8_val w \<Longrightarrow> canonical v @ a = canonical w @ b \<Longrightarrow> plain v = plain w \<and> a = b"
proof (induction v arbitrary: w a b)
  case (Value k s q l m fr d)
  obtain k' s' q' l' m' fr' d' where w: "w = Value k' s' q' l' m' fr' d'" by (cases w)
  have kk: "k' = k"
    using Value.prems(3) w by (cases k; cases k') (auto simp: json_string_def)
  show ?case
  proof (cases k)
    case KindScalar
    with Value.prems w kk show ?thesis using json_string_unique [of s s' a b] by simp
  next
    case KindList
    have "list_all2 (\<lambda>x y. plain x = plain y) l l' \<and> a = b"
    proof (rule items_unique)
      show "join_with '','' (map canonical l) @ CHR '']'' # a
          = join_with '','' (map canonical l') @ CHR '']'' # b"
        using Value.prems(3) w kk KindList by simp
      show "\<And>x y s t. x \<in> set l \<Longrightarrow> y \<in> set l' \<Longrightarrow> canonical x @ s = canonical y @ t
          \<Longrightarrow> plain x = plain y \<and> s = t"
        using Value.IH(1) Value.prems(1,2) w kk KindList by (auto simp: list_all_iff)
      show "canonical x \<noteq> [] \<and> hd (canonical x) \<noteq> CHR '']''" for x
        using canonical_head [of x] by auto
    qed simp
    with KindList w kk show ?thesis
      by (simp add: list_all2_conv_all_nth list_eq_iff_nth_eq)
  next
    case KindMap
    have "list_all2 (\<lambda>x y. fst x = fst y \<and> plain (snd x) = plain (snd y))
        (sort_key fst m) (sort_key fst m') \<and> a = b"
    proof (rule items_unique)
      show "join_with '','' (map entry_text (sort_key fst m)) @ CHR ''}'' # a
          = join_with '','' (map entry_text (sort_key fst m')) @ CHR ''}'' # b"
        using Value.prems(3) unfolding w kk KindMap canonical_map by simp
      fix x y s t
      assume x: "x \<in> set (sort_key fst m)" and y: "y \<in> set (sort_key fst m')"
        and eq: "entry_text x @ s = entry_text y @ t"
      have "valid_utf8 (fst x)" "utf8_val (snd x)" "valid_utf8 (fst y)" "utf8_val (snd y)"
        using x y Value.prems(1,2) w kk KindMap by (auto simp: list_all_iff case_prod_beta)
      moreover from this eq have "fst x = fst y \<and> canonical (snd x) @ s = canonical (snd y) @ t"
        using json_string_unique [of "fst x" "fst y" "'':'' @ canonical (snd x) @ s"
            "'':'' @ canonical (snd y) @ t"]
        by (simp add: entry_text_def)
      ultimately show "(fst x = fst y \<and> plain (snd x) = plain (snd y)) \<and> s = t"
        using Value.IH(2) [of x "snd x" "snd y" s t] x by (auto simp: snds.simps)
    next
      show "\<And>x. x \<in> set (sort_key fst m) \<union> set (sort_key fst m')
          \<Longrightarrow> entry_text x \<noteq> [] \<and> hd (entry_text x) \<noteq> CHR ''}''"
        using entry_head by simp
    qed simp
    then show ?thesis unfolding w kk KindMap plain_map
      by (simp add: list_all2_conv_all_nth list_eq_iff_nth_eq case_prod_beta)
  qed
qed

lemma canonical_plain: "canonical (plain v) = canonical v"
proof (induction v)
  case (Value k s q l m fr d)
  show ?case
  proof (cases k)
    case KindList
    with Value.IH(1) show ?thesis by (simp add: comp_def cong: map_cong)
  next
    case KindMap
    have "entry_text (case e of (k, x) \<Rightarrow> (k, plain x)) = entry_text e" if "e \<in> set m" for e
      using Value.IH(2) [OF that] by (simp add: entry_text_def snds.simps case_prod_beta)
    then have "map entry_text (map (\<lambda>(k, x). (k, plain x)) (sort_key fst m))
        = map entry_text (sort_key fst m)"
      unfolding map_map by (intro map_cong) simp_all
    moreover have "sort_key fst (sort_key fst m) = sort_key fst m"
      by (simp add: sort_key_id_if_sorted)
    ultimately show ?thesis
      unfolding KindMap plain_map canonical_map sort_key_map_pair
      by (simp del: map_map map_eq_conv)
  qed simp
qed

lemma plain_perm:
  assumes "mset m = mset m'" "wf_map m"
  shows "plain (map_val m) = plain (map_val m')"
  unfolding plain_map using assms by (simp add: sort_key_perm_eq wf_map_inj_fst)

lemma clone_id [simp]: "clone v = v"
proof (induction v)
  case (Value k s q l m fr d)
  have "map clone l = l" using Value.IH(1) by (simp add: map_idI)
  moreover have "map (\<lambda>(key, field). (key, clone field)) m = m"
    using Value.IH(2) by (intro map_idI) (auto simp: snds.simps)
  ultimately show ?case by (cases k) simp_all
qed

lemma canonical_iff_plain:
  assumes "utf8_val v" "utf8_val w"
  shows "canonical v = canonical w \<longleftrightarrow> plain v = plain w"
  using canonical_unique [OF assms, of "[]" "[]"] canonical_plain by (metis append_Nil2)

section \<open>Properties\<close>

text \<open>
  C17: two trees of valid UTF-8 text have the same canonical encoding exactly when they declare
  the same desired state, whatever the order of their maps, their quoting and the layers that
  set their values: the encoding loses nothing a host would act on and adds nothing it would not.
\<close>

theorem canonical_faithful:
  assumes "utf8_val v" "utf8_val w"
  shows "canonical v = canonical w \<longleftrightarrow> plain v = plain w"
  by (rule canonical_iff_plain [OF assms])

theorem canonical_faithful_witness:
  "(canonical (map_val [(''mode'', scalar_val ''0644''), (''path'', scalar_val ''/a'')])
      = canonical (Value KindMap [] False [] [(''path'', Value KindScalar ''/a'' True [] [] ''base'' []),
          (''mode'', scalar_val ''0644'')] [] []))
   = (plain (map_val [(''mode'', scalar_val ''0644''), (''path'', scalar_val ''/a'')])
      = plain (Value KindMap [] False [] [(''path'', Value KindScalar ''/a'' True [] [] ''base'' []),
          (''mode'', scalar_val ''0644'')] [] []))"
  by (rule canonical_faithful; code_simp)

end
