(* ===== verification/Merge.thy ===== *)
theory Merge
  imports Canonical
begin

text \<open>
  The merge of layer contributions, \<open>internal/resolve/merge.go\<close>. The merger's map of layer
  precedences is an argument, the list of conflicts it appends to is threaded through, and a
  contribution is a layer with its precedence.
\<close>

section \<open>Definitions\<close>

record contribution =
  c_layer :: string
  c_precedence :: int

record conflict =
  cf_field :: string
  cf_a :: contribution
  cf_b :: contribution
  cf_a_text :: string
  cf_b_text :: string

definition merger_of :: "(string \<times> int) list \<Rightarrow> val \<Rightarrow> contribution option" where
  "merger_of precedence v =
     (if v_from v = [] then None
      else case map_of precedence (v_from v) of
        None \<Rightarrow> None
      | Some p \<Rightarrow> Some \<lparr>c_layer = v_from v, c_precedence = p\<rparr>)"

text \<open>
  \<open>stamp\<close> iterates over the keys of the map it returns; the order does not matter, since every
  entry is replaced by its own stamped value.
\<close>

fun stamp :: "val \<Rightarrow> contribution \<Rightarrow> val" where
  "stamp (Value k s q l m fr d) src =
     (if k = KindMap then Value k s q l (map (\<lambda>(key, field). (key, stamp field src)) m) fr d
      else Value k s q l m (c_layer src) d)"

definition render :: "val \<Rightarrow> string" where
  "render v = (if v_kind v = KindScalar then v_scalar v else canonical v)"

definition same_value :: "val \<Rightarrow> val \<Rightarrow> bool" where
  "same_value a b \<longleftrightarrow> render a = render b"

definition join_field :: "string \<Rightarrow> string \<Rightarrow> string" where
  "join_field prefix key = (if prefix = [] then key else prefix @ ''.'' @ key)"

definition with_map :: "val \<Rightarrow> (string \<times> val) list \<Rightarrow> val" where
  "with_map v m = Value (v_kind v) (v_scalar v) (v_quoted v) (v_list v) m (v_from v) (v_displaced v)"

definition with_displaced :: "val \<Rightarrow> origin list \<Rightarrow> val" where
  "with_displaced v d = Value (v_kind v) (v_scalar v) (v_quoted v) (v_list v) (v_map v) (v_from v) d"

definition replaced :: "val \<Rightarrow> val \<Rightarrow> contribution \<Rightarrow> val" where
  "replaced old new src =
     (let displaced_by = (if v_from old = [] then ''an earlier layer'' else v_from old)
      in with_displaced (stamp new src)
           (\<lparr>origin_layer = displaced_by, origin_scalar = render old\<rparr> # v_displaced old))"

lemma size_entries: "(\<Sum>e \<leftarrow> m. Suc (size (snd e))) < size (Value k s q l m fr d)"
  by (induction m) auto

text \<open>
  \<open>merge\<close> with its loop over the keys of the new map in order as \<open>merge_entries\<close>; the result is
  the merged value and the conflicts so far.
\<close>

function merge :: "(string \<times> int) list \<Rightarrow> string \<Rightarrow> val \<Rightarrow> val \<Rightarrow> contribution \<Rightarrow> conflict list
       \<Rightarrow> val \<times> conflict list"
  and merge_entries :: "(string \<times> int) list \<Rightarrow> string \<Rightarrow> (string \<times> val) list \<Rightarrow> (string \<times> val) list
       \<Rightarrow> contribution \<Rightarrow> conflict list \<Rightarrow> (string \<times> val) list \<times> conflict list" where
  "merge prec field old new src cs =
     (if v_kind old = KindMap \<and> v_kind new = KindMap then
        (let out = clone old;
             (m, cs') = merge_entries prec field (v_map out) (sort_key fst (v_map new)) src cs
         in (with_map out m, cs'))
      else if same_value old new then (old, cs)
      else case merger_of prec old of
        Some previous \<Rightarrow>
          if c_precedence previous = c_precedence src then
            (old, cs @ [\<lparr>cf_field = field, cf_a = previous, cf_b = src,
                         cf_a_text = render old, cf_b_text = render new\<rparr>])
          else (replaced old new src, cs)
      | None \<Rightarrow> (replaced old new src, cs))"
| "merge_entries prec field out [] src cs = (out, cs)"
| "merge_entries prec field out ((key, child) # es) src cs =
     (case map_of out key of
        None \<Rightarrow> merge_entries prec field (AList.update key (stamp child src) out) es src cs
      | Some existing \<Rightarrow>
          (let (v, cs1) = merge prec (join_field field key) existing child src cs
           in merge_entries prec field (AList.update key v out) es src cs1))"
  by pat_completeness auto

termination
proof (relation "measure (\<lambda>x. case x of Inl (_, _, _, new, _, _) \<Rightarrow> size new
    | Inr (_, _, _, es, _, _) \<Rightarrow> \<Sum>e \<leftarrow> es. Suc (size (snd e)))", goal_cases)
  case (2 prec field old new src cs)
  then show ?case
    using size_entries [of "v_map new"] sum_list_sort_key [of "\<lambda>e. Suc (size (snd e))" fst "v_map new"]
    by (cases new) (simp del: map_map)
qed auto

declare merge.simps [simp del]

definition merge_refs :: "reference list \<Rightarrow> reference list \<Rightarrow> reference list" where
  "merge_refs existing incoming = append_unseen (append_unseen [] existing) incoming"

section \<open>Specification\<close>

text \<open>At every proper prefix of the path the tree holds a map, or nothing at all.\<close>

fun open_along :: "val \<Rightarrow> string list \<Rightarrow> bool" where
  "open_along v [] = True"
| "open_along v (k # ks) =
     (v_kind v = KindMap
      \<and> (case map_of (v_map v) k of None \<Rightarrow> True | Some child \<Rightarrow> open_along child ks))"

text \<open>The path names a value that is not a map.\<close>

definition leaf_at :: "val \<Rightarrow> string list \<Rightarrow> val \<Rightarrow> bool" where
  "leaf_at v path x \<longleftrightarrow> lookup_parts v path = Some x \<and> v_kind x \<noteq> KindMap"

text \<open>
  A map records no layer: it is the work of every layer that set one of its keys. \<open>stamp\<close> and
  \<open>merge\<close> keep it so.
\<close>

fun maps_unstamped :: "val \<Rightarrow> bool" where
  "maps_unstamped (Value k s q l m fr d) \<longleftrightarrow>
     (k = KindMap \<longrightarrow> fr = [] \<and> list_all id (map (\<lambda>(key, field). maps_unstamped field) m))"

text \<open>
  The conflicts of two trees: at some path the old tree has a value that is not a map and was
  set by a known layer of the precedence of the source, and the new tree has a value, of
  whatever kind, that reads differently. Where the old tree has a map there is none.
\<close>

definition conflicts_of :: "(string \<times> int) list \<Rightarrow> string \<Rightarrow> val \<Rightarrow> val \<Rightarrow> contribution \<Rightarrow> conflict set" where
  "conflicts_of prec field old new src =
     {\<lparr>cf_field = foldl join_field field path,
       cf_a = \<lparr>c_layer = v_from a, c_precedence = c_precedence src\<rparr>, cf_b = src,
       cf_a_text = render a, cf_b_text = render b\<rparr> | path a b.
       leaf_at old path a \<and> lookup_parts new path = Some b \<and> render a \<noteq> render b
       \<and> v_from a \<noteq> [] \<and> map_of prec (v_from a) = Some (c_precedence src)}"

section \<open>Lemmas\<close>

lemma stamp_kind [simp]: "v_kind (stamp v src) = v_kind v"
  by (cases v) simp

lemma stamp_scalar [simp]: "v_scalar (stamp v src) = v_scalar v"
  by (cases v) simp

lemma stamp_map: "v_kind v = KindMap
    \<Longrightarrow> v_map (stamp v src) = map (\<lambda>(key, field). (key, stamp field src)) (v_map v)"
  by (cases v) simp

lemma stamp_from: "v_kind v \<noteq> KindMap \<Longrightarrow> v_from (stamp v src) = c_layer src"
  by (cases v) simp

lemma canonical_stamp [simp]: "canonical (stamp v src) = canonical v"
proof (induction v)
  case (Value k s q l m fr d)
  have "map (\<lambda>(key, field). (key, canonical field)) (map (\<lambda>(key, field). (key, stamp field src)) m)
      = map (\<lambda>(key, field). (key, canonical field)) m"
    using Value(2) by (auto simp: snds.simps)
  then show ?case by (cases k) (simp_all del: map_map)
qed

lemma render_stamp [simp]: "render (stamp v src) = render v"
  by (simp add: render_def)

lemma map_of_map_snd: "map_of (map (\<lambda>(k, x). (k, f x)) m) k = map_option f (map_of m k)"
  by (induction m) auto

lemma lookup_stamp: "lookup_parts (stamp v src) path = map_option (\<lambda>x. stamp x src) (lookup_parts v path)"
  by (induction v path rule: lookup_parts.induct)
    (auto simp: stamp_map map_of_map_snd split: option.splits)

lemma open_along_stamp [simp]: "open_along (stamp v src) path = open_along v path"
  by (induction v path rule: open_along.induct)
    (auto simp: stamp_map map_of_map_snd split: option.splits)

lemma with_map_simps [simp]:
  "v_kind (with_map v m) = v_kind v" "v_map (with_map v m) = m" "v_from (with_map v m) = v_from v"
  by (simp_all add: with_map_def)

lemma replaced_simps [simp]:
  "v_kind (replaced old new src) = v_kind new" "v_scalar (replaced old new src) = v_scalar new"
  "v_map (replaced old new src) = v_map (stamp new src)"
  by (simp_all add: replaced_def with_displaced_def Let_def)

lemma canonical_with_displaced: "canonical (with_displaced v d) = canonical v"
  by (cases v) (simp add: with_displaced_def split: kind.splits)

lemma render_replaced [simp]: "render (replaced old new src) = render new"
  unfolding render_def replaced_simps by (simp add: replaced_def canonical_with_displaced Let_def)

text \<open>The conflicts so far are only appended to.\<close>

lemma merge_accumulates_all:
  fixes cs :: "conflict list"
  shows "\<forall>ds. merge prec field old new src ds
     = (fst (merge prec field old new src []), ds @ snd (merge prec field old new src []))"
  "\<forall>ds. merge_entries prec field out es src ds
     = (fst (merge_entries prec field out es src []), ds @ snd (merge_entries prec field out es src []))"
proof (induction prec field old new src cs and prec field out es src cs rule: merge_merge_entries.induct)
  case (1 prec field old new src cs)
  show ?case
  proof (cases "v_kind old = KindMap \<and> v_kind new = KindMap")
    case True
    let ?e = "merge_entries prec field (v_map (clone old)) (sort_key fst (v_map new)) src"
    have u: "merge prec field old new src ds = (with_map old (fst (?e ds)), snd (?e ds))" for ds
      using True by (simp add: merge.simps [of prec field old new src] case_prod_beta)
    show ?thesis
    proof
      fix ds
      from 1 [OF True refl] have "?e ds = (fst (?e []), ds @ snd (?e []))" by blast
      then have "fst (?e ds) = fst (?e [])" "snd (?e ds) = ds @ snd (?e [])"
        by (metis fst_conv, metis snd_conv)
      then show "merge prec field old new src ds
          = (fst (merge prec field old new src []), ds @ snd (merge prec field old new src []))"
        by (simp only: u fst_conv snd_conv)
    qed
  next
    case False
    show ?thesis
      unfolding merge.simps [of prec field old new src] if_not_P [OF False]
      by (simp split: option.splits)
  qed
next
  case (3 prec field out key child es src cs)
  show ?case
  proof (cases "map_of out key")
    case None
    have u: "merge_entries prec field out ((key, child) # es) src ds
        = merge_entries prec field (AList.update key (stamp child src) out) es src ds" for ds
      using None by simp
    show ?thesis unfolding u by (rule 3(1) [OF None])
  next
    case (Some existing)
    let ?m = "merge prec (join_field field key) existing child src"
    let ?e = "merge_entries prec field (AList.update key (fst (?m [])) out) es src"
    have m: "?m ds = (fst (?m []), ds @ snd (?m []))" for ds
      using 3(2) [OF Some] by (rule spec)
    have fc: "fst (?m cs) = fst (?m [])" by (subst m) (rule fst_conv)
    have e: "?e ds = (fst (?e []), ds @ snd (?e []))" for ds
      using 3(3) [OF Some refl prod.collapse, unfolded fc] by (rule spec)
    have u: "merge_entries prec field out ((key, child) # es) src ds = ?e (ds @ snd (?m []))" for ds
    proof -
      have "merge_entries prec field out ((key, child) # es) src ds
          = merge_entries prec field (AList.update key (fst (?m ds)) out) es src (snd (?m ds))"
        by (simp only: merge_entries.simps Some option.case case_prod_beta Let_def)
      also have "fst (?m ds) = fst (?m [])" by (subst m) (rule fst_conv)
      also have "snd (?m ds) = ds @ snd (?m [])" by (subst m) (rule snd_conv)
      finally show ?thesis .
    qed
    show ?thesis
    proof
      fix ds
      let ?a = "snd (?m [])"
      have "?e (ds @ ?a) = (fst (?e []), ds @ ?a @ snd (?e []))"
        by (subst e) simp
      moreover have "?e ([] @ ?a) = (fst (?e []), ?a @ snd (?e []))"
        by (subst e) simp
      ultimately show "merge_entries prec field out ((key, child) # es) src ds
          = (fst (merge_entries prec field out ((key, child) # es) src []),
             ds @ snd (merge_entries prec field out ((key, child) # es) src []))"
        unfolding u by (simp only: fst_conv snd_conv)
    qed
  qed
qed simp_all

lemmas merge_acc = merge_accumulates_all(1) [rule_format] and merge_entries_acc = merge_accumulates_all(2) [rule_format]

text \<open>What the loop over the keys leaves in the map, and the conflicts it adds.\<close>

lemma merge_entries_result:
  assumes "distinct (map fst es)"
  shows "map_of (fst (merge_entries prec field out es src [])) k =
    (case map_of es k of
       None \<Rightarrow> map_of out k
     | Some child \<Rightarrow>
         (case map_of out k of
            None \<Rightarrow> Some (stamp child src)
          | Some existing \<Rightarrow> Some (fst (merge prec (join_field field k) existing child src []))))"
  using assms
proof (induction es arbitrary: out)
  case (Cons e es)
  obtain key child where e: "e = (key, child)" by fastforce
  with Cons.prems have new: "map_of es key = None" and d: "distinct (map fst es)"
    by (auto simp: map_of_eq_None_iff)
  show ?case
  proof (cases "map_of out key")
    case None
    then show ?thesis
      using Cons.IH [OF d, of "AList.update key (stamp child src) out"] new
      by (auto simp: e update_conv' split: option.splits)
  next
    case (Some existing)
    let ?v = "fst (merge prec (join_field field key) existing child src [])"
    show ?thesis
      using Cons.IH [OF d, of "AList.update key ?v out"] new Some
      by (auto simp: e case_prod_beta update_conv' merge_entries_acc [of _ _ _ _ _ "snd _"]
          split: option.splits)
  qed
qed simp

lemma merge_entries_conflicts:
  assumes "distinct (map fst es)"
  shows "snd (merge_entries prec field out es src []) =
    concat (map (\<lambda>(key, child). case map_of out key of
        None \<Rightarrow> []
      | Some existing \<Rightarrow> snd (merge prec (join_field field key) existing child src [])) es)"
  using assms
proof (induction es arbitrary: out)
  case (Cons e es)
  obtain key child where e: "e = (key, child)" by fastforce
  with Cons.prems have new: "key \<notin> fst ` set es" and d: "distinct (map fst es)" by auto
  have same: "concat (map (\<lambda>(key, child). case map_of (AList.update key' v out) key of
        None \<Rightarrow> []
      | Some existing \<Rightarrow> snd (merge prec (join_field field key) existing child src [])) es)
    = concat (map (\<lambda>(key, child). case map_of out key of
        None \<Rightarrow> []
      | Some existing \<Rightarrow> snd (merge prec (join_field field key) existing child src [])) es)"
    if "key' = key" for v key'
    using new that by (intro arg_cong [of _ _ concat] map_cong) (auto simp: update_conv' image_iff)
  show ?case
  proof (cases "map_of out key")
    case None
    then show ?thesis
      using Cons.IH [OF d] same [OF refl] by (simp add: e)
  next
    case (Some existing)
    let ?v = "fst (merge prec (join_field field key) existing child src [])"
    show ?thesis
      using Cons.IH [OF d, of "AList.update key ?v out"] same [OF refl, of ?v] Some
      by (simp add: e split_def Let_def merge_entries_acc [of _ _ _ _ _ "snd _"])
  qed
qed simp

text \<open>The merge of two maps by key, and the other three cases, for well-formed trees.\<close>

lemma wf_val_map: "wf_val v \<Longrightarrow> v_kind v = KindMap \<Longrightarrow> wf_map (v_map v)"
  by (cases v) simp

lemma wf_val_child: "wf_val v \<Longrightarrow> v_kind v = KindMap \<Longrightarrow> map_of (v_map v) k = Some c \<Longrightarrow> wf_val c"
  by (cases v) (auto simp: list_all_iff dest: map_of_SomeD)

lemma sort_key_wf:
  "wf_map m \<Longrightarrow> distinct (map fst (sort_key fst m)) \<and> map_of (sort_key fst m) = map_of m"
  using wf_map_perm_map_of [of m "sort_key fst m"] wf_map_perm [of m "sort_key fst m"]
  by (simp add: wf_map_def)

lemma merge_maps:
  assumes "v_kind old = KindMap" "v_kind new = KindMap" "wf_map (v_map new)"
  shows "v_kind (fst (merge prec field old new src [])) = KindMap"
    and "map_of (v_map (fst (merge prec field old new src []))) k =
      (case map_of (v_map new) k of
         None \<Rightarrow> map_of (v_map old) k
       | Some child \<Rightarrow>
           (case map_of (v_map old) k of
              None \<Rightarrow> Some (stamp child src)
            | Some existing \<Rightarrow> Some (fst (merge prec (join_field field k) existing child src []))))"
    and "snd (merge prec field old new src []) =
      concat (map (\<lambda>(key, child). case map_of (v_map old) key of
          None \<Rightarrow> []
        | Some existing \<Rightarrow> snd (merge prec (join_field field key) existing child src []))
        (sort_key fst (v_map new)))"
proof -
  note s = sort_key_wf [OF assms(3)]
  show "v_kind (fst (merge prec field old new src [])) = KindMap"
    using assms by (simp add: merge.simps case_prod_beta)
  show "map_of (v_map (fst (merge prec field old new src []))) k =
      (case map_of (v_map new) k of
         None \<Rightarrow> map_of (v_map old) k
       | Some child \<Rightarrow>
           (case map_of (v_map old) k of
              None \<Rightarrow> Some (stamp child src)
            | Some existing \<Rightarrow> Some (fst (merge prec (join_field field k) existing child src []))))"
    using assms merge_entries_result [OF conjunct1 [OF s], of prec field "v_map old" src k] s
    by (simp add: merge.simps [of prec field old new] case_prod_beta)
  show "snd (merge prec field old new src []) =
      concat (map (\<lambda>(key, child). case map_of (v_map old) key of
          None \<Rightarrow> []
        | Some existing \<Rightarrow> snd (merge prec (join_field field key) existing child src []))
        (sort_key fst (v_map new)))"
    using assms merge_entries_conflicts [OF conjunct1 [OF s], of prec field "v_map old" src] s
    by (simp add: merge.simps [of prec field old new] case_prod_beta)
qed

lemma merge_other:
  assumes "\<not> (v_kind old = KindMap \<and> v_kind new = KindMap)"
  shows "merge prec field old new src [] =
    (if render old = render new then (old, [])
     else case merger_of prec old of
       Some previous \<Rightarrow>
         if c_precedence previous = c_precedence src then
           (old, [\<lparr>cf_field = field, cf_a = previous, cf_b = src,
                   cf_a_text = render old, cf_b_text = render new\<rparr>])
         else (replaced old new src, [])
     | None \<Rightarrow> (replaced old new src, []))"
  unfolding merge.simps [of prec field old new src "[]"] same_value_def append_Nil if_not_P [OF assms]
  by (rule refl)

lemma merge_no_conflict_child:
  assumes "snd (merge prec field old new src []) = []" "v_kind old = KindMap" "v_kind new = KindMap"
    and "wf_map (v_map new)" "map_of (v_map new) k = Some child" "map_of (v_map old) k = Some existing"
  shows "snd (merge prec (join_field field k) existing child src []) = []"
proof -
  have "(k, child) \<in> set (sort_key fst (v_map new))" using assms(5) by (simp add: map_of_SomeD)
  then show ?thesis
    using assms(1,6) unfolding merge_maps(3) [OF assms(2-4)] by fastforce
qed

text \<open>The lookups in a merged tree.\<close>

lemma lookup_replaced:
  "lookup_parts (replaced old new src) (k # ks) = lookup_parts (stamp new src) (k # ks)"
  by simp

lemma merge_leaf:
  assumes "snd (merge prec field old new src []) = []" "wf_val new"
    and "leaf_at new path x" "open_along old path"
  shows "\<exists>w. lookup_parts (fst (merge prec field old new src [])) path = Some w \<and> render w = render x"
  using assms
proof (induction path arbitrary: field old new)
  case Nil
  then have "\<not> (v_kind old = KindMap \<and> v_kind new = KindMap)" "x = new" by (auto simp: leaf_at_def)
  then show ?case
    using Nil(1,3) unfolding merge_other [OF \<open>\<not> (_ \<and> _)\<close>]
    by (auto simp: leaf_at_def split: option.splits if_splits)
next
  case (Cons k ks)
  then have m: "v_kind old = KindMap" "v_kind new = KindMap"
    by (auto simp: leaf_at_def split: if_splits)
  then have wf: "wf_map (v_map new)" using Cons.prems(2) by (simp add: wf_val_map)
  from Cons.prems(3) obtain child where child: "map_of (v_map new) k = Some child" "leaf_at child ks x"
    by (auto simp: leaf_at_def split: if_splits option.splits)
  note r = merge_maps [OF m wf, of prec field src]
  show ?case
  proof (cases "map_of (v_map old) k")
    case None
    then show ?thesis
      using r(1) r(2) [of k] child by (auto simp: leaf_at_def lookup_stamp)
  next
    case (Some existing)
    have "snd (merge prec (join_field field k) existing child src []) = []"
      by (rule merge_no_conflict_child [OF Cons.prems(1) m wf child(1) Some])
    moreover have "wf_val child" using wf_val_child [OF Cons.prems(2) m(2) child(1)] .
    moreover have "open_along existing ks" using Cons.prems(4) Some by simp
    ultimately show ?thesis
      using Cons.IH [of "join_field field k" existing child] child(2) Some child(1) r(1) r(2) [of k] m(1)
      by (auto simp: leaf_at_def)
  qed
qed

lemma merge_silent:
  assumes "wf_val new" "lookup_parts new path = None" "open_along new path" "open_along old path"
  shows "lookup_parts (fst (merge prec field old new src [])) path = lookup_parts old path"
  using assms
proof (induction path arbitrary: field old new)
  case (Cons k ks)
  then have m: "v_kind old = KindMap" "v_kind new = KindMap" by auto
  then have wf: "wf_map (v_map new)" using Cons.prems(1) by (simp add: wf_val_map)
  note r = merge_maps [OF m wf, of prec field src]
  show ?case
  proof (cases "map_of (v_map new) k")
    case None
    then show ?thesis using r(1) r(2) [of k] m by simp
  next
    case (Some child)
    have "wf_val child" using wf_val_child [OF Cons.prems(1) m(2) Some] .
    then show ?thesis
      using Cons.IH [of child _ "join_field field k"] Cons.prems Some r(1) r(2) [of k] m
      by (auto simp: lookup_stamp split: option.splits)
  qed
qed simp

lemma merge_open:
  assumes "wf_val new" "open_along new path" "open_along old path"
  shows "open_along (fst (merge prec field old new src [])) path"
  using assms
proof (induction path arbitrary: field old new)
  case (Cons k ks)
  then have m: "v_kind old = KindMap" "v_kind new = KindMap" by auto
  then have wf: "wf_map (v_map new)" using Cons.prems(1) by (simp add: wf_val_map)
  note r = merge_maps [OF m wf, of prec field src]
  show ?case
  proof (cases "map_of (v_map new) k")
    case None
    then show ?thesis using r(1) r(2) [of k] m Cons.prems(3) by simp
  next
    case (Some child)
    have "wf_val child" using wf_val_child [OF Cons.prems(1) m(2) Some] .
    then show ?thesis
      using Cons.IH [of child _ "join_field field k"] Cons.prems Some r(1) r(2) [of k] m
      by (auto split: option.splits)
  qed
qed simp

lemma conflicts_of_other:
  assumes "\<not> (v_kind old = KindMap \<and> v_kind new = KindMap)"
  shows "conflicts_of prec field old new src =
    {\<lparr>cf_field = field, cf_a = \<lparr>c_layer = v_from old, c_precedence = c_precedence src\<rparr>, cf_b = src,
      cf_a_text = render old, cf_b_text = render new\<rparr> | x :: unit.
      v_kind old \<noteq> KindMap \<and> render old \<noteq> render new
      \<and> v_from old \<noteq> [] \<and> map_of prec (v_from old) = Some (c_precedence src)}"
proof -
  have "path = [] \<and> a = old \<and> b = new" if "leaf_at old path a" "lookup_parts new path = Some b" for path a b
    using that assms by (cases path) (auto simp: leaf_at_def split: if_splits)
  then show ?thesis
    unfolding conflicts_of_def by (fastforce simp: leaf_at_def intro: exI [of _ "[]"])
qed

lemma conflicts_of_maps:
  assumes "v_kind old = KindMap" "v_kind new = KindMap"
  shows "conflicts_of prec field old new src =
    (\<Union>(k, child) \<in> {(k, child). map_of (v_map new) k = Some child}.
      case map_of (v_map old) k of None \<Rightarrow> {}
      | Some existing \<Rightarrow> conflicts_of prec (join_field field k) existing child src)" (is "_ = ?r")
proof (intro set_eqI iffI)
  fix c assume "c \<in> conflicts_of prec field old new src"
  then obtain path a b where p: "leaf_at old path a" "lookup_parts new path = Some b"
    and c: "render a \<noteq> render b" "v_from a \<noteq> []" "map_of prec (v_from a) = Some (c_precedence src)"
      "c = \<lparr>cf_field = foldl join_field field path, cf_a = \<lparr>c_layer = v_from a, c_precedence = c_precedence src\<rparr>,
        cf_b = src, cf_a_text = render a, cf_b_text = render b\<rparr>"
    unfolding conflicts_of_def by blast
  with assms obtain k ks where k: "path = k # ks" by (cases path) (auto simp: leaf_at_def)
  with p obtain child existing where m: "map_of (v_map new) k = Some child"
    "map_of (v_map old) k = Some existing" "leaf_at existing ks a" "lookup_parts child ks = Some b"
    by (auto simp: leaf_at_def split: if_splits option.splits)
  have "c \<in> conflicts_of prec (join_field field k) existing child src"
    unfolding conflicts_of_def using c m(3,4) k by auto
  with m(1,2) show "c \<in> ?r" by force
next
  fix c assume "c \<in> ?r"
  then obtain k child existing where m: "map_of (v_map new) k = Some child" "map_of (v_map old) k = Some existing"
    and "c \<in> conflicts_of prec (join_field field k) existing child src"
    by (auto split: option.splits)
  then obtain path a b where p: "leaf_at existing path a" "lookup_parts child path = Some b"
    and c: "render a \<noteq> render b" "v_from a \<noteq> []" "map_of prec (v_from a) = Some (c_precedence src)"
      "c = \<lparr>cf_field = foldl join_field (join_field field k) path,
        cf_a = \<lparr>c_layer = v_from a, c_precedence = c_precedence src\<rparr>,
        cf_b = src, cf_a_text = render a, cf_b_text = render b\<rparr>"
    unfolding conflicts_of_def by blast
  have "leaf_at old (k # path) a" "lookup_parts new (k # path) = Some b"
    using m p assms by (simp_all add: leaf_at_def)
  moreover have "c = \<lparr>cf_field = foldl join_field field (k # path),
        cf_a = \<lparr>c_layer = v_from a, c_precedence = c_precedence src\<rparr>,
        cf_b = src, cf_a_text = render a, cf_b_text = render b\<rparr>" using c(4) by simp
  ultimately show "c \<in> conflicts_of prec field old new src"
    unfolding conflicts_of_def using c(1-3) by blast
qed

lemma maps_unstamped_map: "maps_unstamped v \<Longrightarrow> v_kind v = KindMap \<Longrightarrow> v_from v = []"
  by (cases v) simp

lemma maps_unstamped_entries: "v_kind v = KindMap
    \<Longrightarrow> maps_unstamped v \<longleftrightarrow> v_from v = [] \<and> (\<forall>(k, c) \<in> set (v_map v). maps_unstamped c)"
  by (cases v) (auto simp: list_all_iff)

lemma maps_unstamped_child:
  "maps_unstamped v \<Longrightarrow> v_kind v = KindMap \<Longrightarrow> map_of (v_map v) k = Some c \<Longrightarrow> maps_unstamped c"
  by (auto simp: maps_unstamped_entries dest: map_of_SomeD)

lemma maps_unstamped_stamp: "maps_unstamped v \<Longrightarrow> maps_unstamped (stamp v src)"
proof (induction v)
  case (Value k s q l m fr d)
  then show ?case by (cases "k = KindMap") (force simp: list_all_iff snds.simps)+
qed

lemma maps_unstamped_replaced: "maps_unstamped new \<Longrightarrow> maps_unstamped (replaced old new src)"
  using maps_unstamped_stamp [of new src]
  by (cases "stamp new src") (simp add: replaced_def with_displaced_def Let_def)

lemma maps_unstamped_merge:
  "maps_unstamped old \<Longrightarrow> maps_unstamped new \<Longrightarrow> maps_unstamped (fst (merge prec field old new src cs))"
  "\<forall>(k, c) \<in> set out. maps_unstamped c \<Longrightarrow> \<forall>(k, c) \<in> set es. maps_unstamped c
    \<Longrightarrow> \<forall>(k, c) \<in> set (fst (merge_entries prec field out es src cs)). maps_unstamped c"
proof (induction prec field old new src cs and prec field out es src cs rule: merge_merge_entries.induct)
  case (1 prec field old new src cs)
  show ?case
  proof (cases "v_kind old = KindMap \<and> v_kind new = KindMap")
    case True
    with 1 have "\<forall>(k, c) \<in> set (fst (merge_entries prec field (v_map (clone old)) (sort_key fst (v_map new)) src cs)).
        maps_unstamped c"
      by (simp add: maps_unstamped_entries)
    with True 1(2) show ?thesis
      by (simp add: merge.simps [of prec field old] case_prod_beta maps_unstamped_entries)
  next
    case False
    show ?thesis
      unfolding merge.simps [of prec field old new src] if_not_P [OF False]
      using 1(2,3) maps_unstamped_replaced [of new old src] by (simp split: option.splits)
  qed
next
  case (3 prec field out key child es src cs)
  have child: "maps_unstamped child" and es: "\<forall>(k, c) \<in> set es. maps_unstamped c" using 3(5) by simp_all
  show ?case
  proof (cases "map_of out key")
    case None
    have "\<forall>(k, c) \<in> set (AList.update key (stamp child src) out). maps_unstamped c"
      by (rule update_entries [OF 3(4) maps_unstamped_stamp [OF child]])
    from 3(1) [OF None this es] None show ?thesis by simp
  next
    case (Some existing)
    then have "maps_unstamped existing" using 3(4) by (auto dest: map_of_SomeD)
    from 3(2) [OF Some this child]
    have "\<forall>(k, c) \<in> set (AList.update key (fst (merge prec (join_field field key) existing child src cs)) out).
        maps_unstamped c"
      by (rule update_entries [OF 3(4)])
    from 3(3) [OF Some refl prod.collapse this es] Some show ?thesis by (simp add: case_prod_beta)
  qed
qed simp_all

lemma size_child: "v_kind v = KindMap \<Longrightarrow> map_of (v_map v) k = Some c \<Longrightarrow> size c < size v"
proof (cases v)
  case (Value kd s q l m fr d)
  assume "map_of (v_map v) k = Some c"
  then have "(k, c) \<in> set m" using Value by (auto dest: map_of_SomeD)
  then have "Suc (size c) \<le> (\<Sum>e \<leftarrow> m. Suc (size (snd e)))"
    by (intro member_le_sum_list) (force, simp)
  also have "\<dots> < size v" unfolding Value by (rule size_entries)
  finally show ?thesis by simp
qed

lemma merge_conflicts:
  assumes "wf_val new" "maps_unstamped old"
  shows "set (snd (merge prec field old new src [])) = conflicts_of prec field old new src"
  using assms
proof (induction "size new" arbitrary: field old new rule: less_induct)
  case less
  show ?case
  proof (cases "v_kind old = KindMap \<and> v_kind new = KindMap")
    case False
    then show ?thesis
      unfolding merge_other [OF False] conflicts_of_other [OF False] using maps_unstamped_map [OF less(3)]
      by (auto simp: merger_of_def split: option.splits)
  next
    case True
    then have wf: "wf_map (v_map new)" using less(2) by (simp add: wf_val_map)
    have mem: "(k, c) \<in> set (v_map new) \<longleftrightarrow> map_of (v_map new) k = Some c" for k c
      using wf by (auto simp: wf_map_Some dest: map_of_SomeD)
    have child: "set (case map_of (v_map old) k of None \<Rightarrow> []
          | Some existing \<Rightarrow> snd (merge prec (join_field field k) existing c src []))
        = (case map_of (v_map old) k of None \<Rightarrow> {}
          | Some existing \<Rightarrow> conflicts_of prec (join_field field k) existing c src)"
      if "map_of (v_map new) k = Some c" for k c
      using less(1) [of c _ "join_field field k"] that True size_child wf_val_child [OF less(2)]
        maps_unstamped_child [OF less(3)]
      by (cases "map_of (v_map old) k") simp_all
    have "set (snd (merge prec field old new src [])) = (\<Union>(k, c) \<in> set (v_map new).
        set (case map_of (v_map old) k of None \<Rightarrow> []
          | Some existing \<Rightarrow> snd (merge prec (join_field field k) existing c src [])))"
      unfolding merge_maps(3) [OF conjunct1 [OF True] conjunct2 [OF True] wf]
      by (simp only: set_concat set_map set_sort image_image split_def)
    also have "set (v_map new) = {(k, c). map_of (v_map new) k = Some c}" using mem by auto
    also have "(\<Union>(k, c) \<in> \<dots>. set (case map_of (v_map old) k of None \<Rightarrow> []
          | Some existing \<Rightarrow> snd (merge prec (join_field field k) existing c src [])))
        = conflicts_of prec field old new src"
      unfolding conflicts_of_maps [OF conjunct1 [OF True] conjunct2 [OF True]]
      by (rule SUP_cong [OF refl], clarify, rule child)
    finally show ?thesis .
  qed
qed

lemma set_merge_refs [simp]: "set (merge_refs a b) = set a \<union> set b"
  by (simp add: merge_refs_def)

lemma distinct_append_unseen_id: "distinct (out @ xs) \<Longrightarrow> append_unseen out xs = out @ xs"
  by (induction xs arbitrary: out) auto

lemma merge_refs_distinct [simp]: "distinct (merge_refs a b)"
  by (simp add: merge_refs_def)

lemma merge_refs_prefix: "distinct a \<Longrightarrow> \<exists>c. merge_refs a b = a @ c"
  using append_unseen_prefix by (simp add: merge_refs_def distinct_append_unseen_id)

section \<open>Properties\<close>



text \<open>
  C24: merging without a conflict is an overlay. Where the contribution of the higher layer
  sets a value, the merged tree has a value that reads the same; where it says nothing, the
  merged tree is what it was.
\<close>

theorem merge_overlay:
  assumes "snd (merge prec field old new src []) = []" "wf_val new"
    and "open_along old path" "open_along new path"
  shows "(\<forall>x. leaf_at new path x \<longrightarrow>
      (\<exists>w. lookup_parts (fst (merge prec field old new src [])) path = Some w \<and> render w = render x))
    \<and> (lookup_parts new path = None \<longrightarrow>
      lookup_parts (fst (merge prec field old new src [])) path = lookup_parts old path)"
  using merge_leaf [OF assms(1,2) _ assms(3)] merge_silent [OF assms(2) _ assms(4,3)] by blast

theorem merge_overlay_witness:
  "\<exists>w. lookup_parts (fst (merge [(''base'', 10)] []
      (map_val [(''mode'', Value KindScalar ''0644'' True [] [] ''base'' []), (''owner'', scalar_val ''root'')])
      (map_val [(''mode'', scalar_val ''0600'')]) \<lparr>c_layer = ''web'', c_precedence = 20\<rparr> [])) [''mode''] = Some w
    \<and> render w = ''0600''"
proof -
  let ?old = "map_val [(''mode'', Value KindScalar ''0644'' True [] [] ''base'' []), (''owner'', scalar_val ''root'')]"
  let ?new = "map_val [(''mode'', scalar_val ''0600'')]"
  let ?src = "\<lparr>c_layer = ''web'', c_precedence = 20\<rparr>"
  have "snd (merge [(''base'', 10)] [] ?old ?new ?src []) = []"
    by (simp add: merge.simps merger_of_def same_value_def render_def)
  from merge_overlay [OF this, of "[''mode'']"] show ?thesis
    by (simp add: leaf_at_def render_def)
qed

text \<open>
  References are merged as a set that keeps the order in which they were first seen. No
  reference of a lower layer is lost or moved, none is listed twice, and nothing else appears.
\<close>

theorem merge_refs_set:
  "set (merge_refs a b) = set a \<union> set b \<and> distinct (merge_refs a b)
    \<and> (distinct a \<longrightarrow> (\<exists>c. merge_refs a b = a @ c))"
  using merge_refs_prefix by simp

theorem merge_refs_set_witness:
  "\<exists>c. merge_refs [Reference ''Group'' ''a''] [Reference ''Group'' ''b'', Reference ''Group'' ''a'']
     = Reference ''Group'' ''a'' # c"
  using merge_refs_set [of "[Reference ''Group'' ''a'']"] by simp

end
