(* ===== verification/Substitute.thy ===== *)
theory Substitute
  imports Canonical
begin

text \<open>
  The substitution of placeholders, \<open>internal/resolve/substitute.go\<close>. A substituter is the host
  name, the declared labels and the state it accumulates: the placeholders used, with their
  values, and the problems met. Every operation takes the state and returns it with its result.
\<close>

section \<open>Definitions\<close>

record used =
  used_placeholder :: string
  used_value :: string

record sub_state =
  sub_used :: "(string \<times> string) list"
  sub_errs :: "subst_msg list"

definition new_sub :: sub_state where
  "new_sub = \<lparr>sub_used = [], sub_errs = []\<rparr>"

definition sub_fail :: "subst_msg \<Rightarrow> sub_state \<Rightarrow> sub_state" where
  "sub_fail m st = st\<lparr>sub_errs := sub_errs st @ [m]\<rparr>"

definition sub_use :: "string \<Rightarrow> string \<Rightarrow> sub_state \<Rightarrow> sub_state" where
  "sub_use placeholder value st = st\<lparr>sub_used := AList.update placeholder value (sub_used st)\<rparr>"

definition used_list :: "sub_state \<Rightarrow> used list" where
  "used_list st =
     map (\<lambda>k. \<lparr>used_placeholder = k, used_value = the (map_of (sub_used st) k)\<rparr>)
       (sorted_keys (sub_used st))"

definition expand ::
    "string \<Rightarrow> (string \<times> string) list \<Rightarrow> string \<Rightarrow> string \<Rightarrow> sub_state \<Rightarrow> string \<times> sub_state" where
  "expand host labels placeholder literal st =
     (if placeholder = ''host'' then (host, sub_use placeholder host st)
      else if has_prefix placeholder ''labels.'' then
        (let key = trim_prefix placeholder ''labels.''
         in case map_of labels key of
              None \<Rightarrow> ([], sub_fail (UndeclaredLabel key host) st)
            | Some value \<Rightarrow> (value, sub_use placeholder value st))
      else if has_prefix placeholder ''secrets.'' then (literal, st)
      else ([], sub_fail (UnknownPlaceholder placeholder) st))"

text \<open>
  The loop of \<open>text\<close>: \<open>out\<close> is what was written so far, \<open>rest\<close> what is left of the input \<open>whole\<close>.
  Each turn removes at least the four braces of a placeholder from the rest, so it ends.
\<close>

function text_loop ::
    "string \<Rightarrow> (string \<times> string) list \<Rightarrow> string \<Rightarrow> string \<Rightarrow> string \<Rightarrow> sub_state \<Rightarrow> string \<times> sub_state" where
  "text_loop host labels whole out rest st =
     (case index_of ''{{'' rest of
        None \<Rightarrow> (out @ rest, st)
      | Some open \<Rightarrow>
          (case index_of ''}}'' (drop open rest) of
             None \<Rightarrow> (out @ rest, sub_fail (UnclosedPlaceholder whole) st)
           | Some n \<Rightarrow>
               (let close = n + open;
                    placeholder = trim_space (take (close - (open + 2)) (drop (open + 2) rest));
                    literal = take (close + 2 - open) (drop open rest);
                    (replacement, st') = expand host labels placeholder literal st
                in text_loop host labels whole (out @ take open rest @ replacement)
                     (drop (close + 2) rest) st')))"
  by pat_completeness auto

termination
proof (relation "measure (\<lambda>(_, _, _, _, rest, _). length rest)", goal_cases)
  case (2 host labels whole out rest st x2 x2a x xa xb xc xd y)
  then show ?case by (auto dest!: index_of_Some_le)
qed simp

definition subst_text ::
    "string \<Rightarrow> (string \<times> string) list \<Rightarrow> string \<Rightarrow> sub_state \<Rightarrow> string \<times> sub_state" where
  "subst_text host labels s st =
     (if \<not> str_contains s ''{{'' then (s, st) else text_loop host labels s [] s st)"

fun subst_val :: "string \<Rightarrow> (string \<times> string) list \<Rightarrow> val \<Rightarrow> sub_state \<Rightarrow> val \<times> sub_state"
  and subst_vals :: "string \<Rightarrow> (string \<times> string) list \<Rightarrow> val list \<Rightarrow> sub_state \<Rightarrow> val list \<times> sub_state"
  and subst_fields :: "string \<Rightarrow> (string \<times> string) list \<Rightarrow> (string \<times> val) list \<Rightarrow> sub_state
         \<Rightarrow> (string \<times> val) list \<times> sub_state" where
  "subst_val host labels (Value k s q l m fr d) st =
     (case k of
        KindScalar \<Rightarrow>
          (let (t, st') = subst_text host labels s st in (Value k t q l m fr d, st'))
      | KindList \<Rightarrow>
          (let (l', st') = subst_vals host labels l st in (Value k s q l' m fr d, st'))
      | KindMap \<Rightarrow>
          (let (m', st') = subst_fields host labels m st in (Value k s q l m' fr d, st')))"
| "subst_vals host labels [] st = ([], st)"
| "subst_vals host labels (v # vs) st =
     (let (v', st1) = subst_val host labels v st;
          (vs', st2) = subst_vals host labels vs st1
      in (v' # vs', st2))"
| "subst_fields host labels [] st = ([], st)"
| "subst_fields host labels ((key, v) # fs) st =
     (let (v', st1) = subst_val host labels v st;
          (fs', st2) = subst_fields host labels fs st1
      in ((key, v') # fs', st2))"

declare text_loop.simps [simp del]

section \<open>Specification\<close>

text \<open>
  The grammar of a text with placeholders, with what the text becomes for a host, the placeholders
  that were used with their values, and the problems. A placeholder starts at the first two opening
  braces, after \<open>a\<close>, and ends at the first two closing ones, after \<open>p\<close>.
\<close>

definition before_open :: "string \<Rightarrow> bool" where
  "before_open a \<longleftrightarrow> (\<nexists>b c. a @ ''{'' = b @ ''{{'' @ c)"

definition inside :: "string \<Rightarrow> bool" where
  "inside p \<longleftrightarrow> (\<nexists>b c. p @ ''}'' = b @ ''}}'' @ c)"

inductive substitutes ::
    "string \<Rightarrow> (string \<times> string) list \<Rightarrow> string \<Rightarrow> string \<Rightarrow> string \<Rightarrow> (string \<times> string) list \<Rightarrow> subst_msg list \<Rightarrow> bool"
  for host labels whole where
  literal: "(\<nexists>b c. s = b @ ''{{'' @ c) \<Longrightarrow> substitutes host labels whole s s [] []"
| unclosed: "before_open a \<Longrightarrow> (\<nexists>b c. t = b @ ''}}'' @ c) \<Longrightarrow>
    substitutes host labels whole (a @ ''{{'' @ t) (a @ ''{{'' @ t) [] [UnclosedPlaceholder whole]"
| host: "before_open a \<Longrightarrow> inside p \<Longrightarrow> trim_space p = ''host'' \<Longrightarrow> substitutes host labels whole s t us ms \<Longrightarrow>
    substitutes host labels whole (a @ ''{{'' @ p @ ''}}'' @ s) (a @ host @ t) ((''host'', host) # us) ms"
| label: "before_open a \<Longrightarrow> inside p \<Longrightarrow> trim_space p = ''labels.'' @ key \<Longrightarrow> map_of labels key = Some v \<Longrightarrow>
    substitutes host labels whole s t us ms \<Longrightarrow>
    substitutes host labels whole (a @ ''{{'' @ p @ ''}}'' @ s) (a @ v @ t) ((''labels.'' @ key, v) # us) ms"
| undeclared: "before_open a \<Longrightarrow> inside p \<Longrightarrow> trim_space p = ''labels.'' @ key \<Longrightarrow> map_of labels key = None \<Longrightarrow>
    substitutes host labels whole s t us ms \<Longrightarrow>
    substitutes host labels whole (a @ ''{{'' @ p @ ''}}'' @ s) (a @ t) us (UndeclaredLabel key host # ms)"
| secret: "before_open a \<Longrightarrow> inside p \<Longrightarrow> trim_space p = ''secrets.'' @ key \<Longrightarrow> substitutes host labels whole s t us ms \<Longrightarrow>
    substitutes host labels whole (a @ ''{{'' @ p @ ''}}'' @ s) (a @ ''{{'' @ p @ ''}}'' @ t) us ms"
| unknown: "before_open a \<Longrightarrow> inside p \<Longrightarrow> trim_space p \<noteq> ''host'' \<Longrightarrow> (\<nexists>key. trim_space p = ''labels.'' @ key) \<Longrightarrow>
    (\<nexists>key. trim_space p = ''secrets.'' @ key) \<Longrightarrow> substitutes host labels whole s t us ms \<Longrightarrow>
    substitutes host labels whole (a @ ''{{'' @ p @ ''}}'' @ s) (a @ t) us (UnknownPlaceholder (trim_space p) # ms)"

text \<open>Two hosts that agree on the values of the placeholders a substitution used.\<close>

definition agree_on ::
    "string set \<Rightarrow> string \<Rightarrow> (string \<times> string) list \<Rightarrow> string \<Rightarrow> (string \<times> string) list \<Rightarrow> bool" where
  "agree_on placeholders host labels host' labels' \<longleftrightarrow>
     (''host'' \<in> placeholders \<longrightarrow> host' = host)
     \<and> (\<forall>k. ''labels.'' @ k \<in> placeholders \<longrightarrow> map_of labels' k = map_of labels k)"

definition used_names :: "sub_state \<Rightarrow> string set" where
  "used_names st = fst ` set (sub_used st)"

section \<open>Lemmas\<close>

text \<open>\<open>index_of\<close> finds the first occurrence, and cuts the text there.\<close>

lemma index_of_at:
  assumes "\<nexists>b c. a @ butlast pat = b @ pat @ c" "pat \<noteq> []"
  shows "index_of pat (a @ pat @ s) = Some (length a)"
  using assms
proof (induction a)
  case Nil
  then show ?case by (cases pat) (simp_all add: has_prefix_def)
next
  case (Cons x a)
  have "\<not> has_prefix (x # a @ pat @ s) pat"
  proof
    assume "has_prefix (x # a @ pat @ s) pat"
    then obtain c where c: "x # a @ pat @ s = pat @ c" by (auto simp: has_prefix_iff)
    have "take (length pat) (x # a @ butlast pat) = take (length pat) (x # a @ pat @ s)"
      using Cons.prems(2) by (cases pat rule: rev_cases) (simp_all add: take_Cons')
    then have "x # a @ butlast pat = pat @ drop (length pat) (x # a @ butlast pat)"
      by (metis append_take_drop_id append_eq_conv_conj c)
    then show False using Cons.prems(1) by (metis append_Cons append_Nil)
  qed
  moreover have "\<nexists>b c. a @ butlast pat = b @ pat @ c"
    using Cons.prems(1) by (metis append_Cons)
  ultimately show ?case using Cons.IH Cons.prems(2) by simp
qed

lemma index_of_None_iff: "pat \<noteq> [] \<Longrightarrow> index_of pat s = None \<longleftrightarrow> (\<nexists>b c. s = b @ pat @ c)"
proof (induction s)
  case (Cons x s)
  have "(\<exists>b c. x # s = b @ pat @ c) \<longleftrightarrow> has_prefix (x # s) pat \<or> (\<exists>b c. s = b @ pat @ c)"
    by (auto simp: has_prefix_iff Cons_eq_append_conv)
  with Cons show ?case by auto
qed (simp add: has_prefix_def)

lemma index_of_cut:
  assumes "index_of pat s = Some n" "pat \<noteq> []"
  obtains a c where "s = a @ pat @ c" "length a = n" "\<nexists>b d. a @ butlast pat = b @ pat @ d"
proof -
  have "\<exists>a c. s = a @ pat @ c \<and> length a = n \<and> (\<nexists>b d. a @ butlast pat = b @ pat @ d)"
    using assms
  proof (induction s arbitrary: n)
    case (Cons x s)
    show ?case
    proof (cases "has_prefix (x # s) pat")
      case True
      then obtain c where "x # s = pat @ c" by (auto simp: has_prefix_iff)
      moreover have "\<nexists>b d. butlast pat = b @ pat @ d"
      proof clarify
        fix b d assume "butlast pat = b @ pat @ d"
        then have "length (butlast pat) = length b + (length pat + length d)" by (metis length_append)
        moreover have "length pat > 0" using Cons.prems(2) by simp
        ultimately show False by (simp only: length_butlast)
      qed
      moreover have "n = 0" using True Cons.prems(1) by simp
      ultimately show ?thesis by (metis append_Nil list.size(3))
    next
      case False
      then obtain k where k: "index_of pat s = Some k" "n = Suc k" using Cons.prems(1) by (auto split: option.splits)
      from Cons.IH [OF k(1) Cons.prems(2)] obtain a c where a: "s = a @ pat @ c" "length a = k"
        "\<nexists>b d. a @ butlast pat = b @ pat @ d" by blast
      have "(x # a) @ butlast pat \<noteq> b @ pat @ d" for b d
      proof (cases b)
        case Nil
        show ?thesis
        proof
          assume e: "(x # a) @ butlast pat = b @ pat @ d"
          have "x # s = (x # a) @ butlast pat @ [last pat] @ c" using a(1) Cons.prems(2) by simp
          also have "\<dots> = pat @ d @ [last pat] @ c" using e Nil by (metis append.assoc append_Nil)
          finally have "has_prefix (x # s) pat" by (auto simp: has_prefix_iff)
          with False show False by blast
        qed
      next
        case (Cons y b')
        then show ?thesis using a(3) by auto
      qed
      then show ?thesis using a k(2) by (intro exI [of _ "x # a"] exI [of _ c]) simp
    qed
  qed (auto simp: has_prefix_def split: if_splits)
  then show thesis using that by blast
qed


lemma index_of_hole: "index_of ''}}'' (''{{'' @ t) = map_option (\<lambda>n. n + 2) (index_of ''}}'' t)"
  by (cases "index_of ''}}'' t") (simp_all add: has_prefix_def)

lemma index_of_open: "before_open a \<Longrightarrow> index_of ''{{'' (a @ ''{{'' @ s) = Some (length a)"
  by (rule index_of_at) (simp_all add: before_open_def)

lemma index_of_close: "inside p \<Longrightarrow> index_of ''}}'' (p @ ''}}'' @ s) = Some (length p)"
  by (rule index_of_at) (simp_all add: inside_def)

lemma text_loop_literal: "(\<nexists>b c. s = b @ ''{{'' @ c) \<Longrightarrow> text_loop host labels whole out s st = (out @ s, st)"
  using index_of_None_iff [of "''{{''" s] by (simp add: text_loop.simps)

lemma text_loop_unclosed:
  assumes "before_open a" "\<nexists>b c. t = b @ ''}}'' @ c"
  shows "text_loop host labels whole out (a @ ''{{'' @ t) st
    = (out @ a @ ''{{'' @ t, sub_fail (UnclosedPlaceholder whole) st)"
proof -
  have "index_of ''}}'' (''{{'' @ t) = None"
    unfolding index_of_hole using assms(2) index_of_None_iff [of "''}}''" t] by simp
  then show ?thesis
    using index_of_open [OF assms(1), of t] by (subst text_loop.simps) simp
qed

lemma text_loop_hole:
  assumes "before_open a" "inside p"
  shows "text_loop host labels whole out (a @ ''{{'' @ p @ ''}}'' @ s) st
    = (let e = expand host labels (trim_space p) (''{{'' @ p @ ''}}'') st
       in text_loop host labels whole (out @ a @ fst e) s (snd e))"
proof -
  have "index_of ''}}'' (''{{'' @ p @ ''}}'' @ s) = Some (length p + 2)"
    unfolding index_of_hole index_of_close [OF assms(2)] by simp
  then show ?thesis
    using index_of_open [OF assms(1), of "p @ ''}}'' @ s"]
    by (subst text_loop.simps) (simp add: Let_def case_prod_beta eval_nat_numeral del: index_of.simps)
qed

lemma substitutes_text_loop:
  "substitutes host labels whole s t us ms \<Longrightarrow> text_loop host labels whole out s st
    = (out @ t, \<lparr>sub_used = fold (\<lambda>(k, v). AList.update k v) us (sub_used st), sub_errs = sub_errs st @ ms\<rparr>)"
proof (induction arbitrary: out st rule: substitutes.induct)
  case (label a p key v s t us ms)
  then show ?case
    unfolding text_loop_hole [OF label(1,2)]
    by (simp add: expand_def has_prefix_iff trim_prefix_def sub_use_def)
next
  case (undeclared a p key s t us ms)
  then show ?case
    unfolding text_loop_hole [OF undeclared(1,2)]
    by (simp add: expand_def has_prefix_iff trim_prefix_def sub_fail_def)
next
  case (secret a p key s t us ms)
  then show ?case
    unfolding text_loop_hole [OF secret(1,2)] by (simp add: expand_def has_prefix_iff)
next
  case (unknown a p s t us ms)
  then show ?case
    unfolding text_loop_hole [OF unknown(1,2)] by (simp add: expand_def has_prefix_iff sub_fail_def)
next
  case (host a p s t us ms)
  then show ?case unfolding text_loop_hole [OF host(1,2)] by (simp add: expand_def sub_use_def)
next
  case (literal s)
  show ?case unfolding text_loop_literal [OF literal] by simp
next
  case (unclosed a t)
  show ?case unfolding text_loop_unclosed [OF unclosed] by (simp add: sub_fail_def)
qed

lemma substitutes_hole:
  assumes "before_open a" "inside p" "substitutes host labels whole s t us ms"
  shows "\<exists>t us ms. substitutes host labels whole (a @ ''{{'' @ p @ ''}}'' @ s) t us ms"
proof -
  consider "trim_space p = ''host''" | key where "trim_space p = ''labels.'' @ key"
    | key where "trim_space p = ''secrets.'' @ key"
    | "trim_space p \<noteq> ''host''" "\<nexists>key. trim_space p = ''labels.'' @ key" "\<nexists>key. trim_space p = ''secrets.'' @ key"
    by blast
  then show ?thesis
  proof cases
    case 1
    then show ?thesis using substitutes.host [OF assms(1,2) _ assms(3)] by blast
  next
    case 2
    then show ?thesis
      using substitutes.label [OF assms(1,2) 2 _ assms(3)] substitutes.undeclared [OF assms(1,2) 2 _ assms(3)]
      by (cases "map_of labels key") blast+
  next
    case 3
    then show ?thesis using substitutes.secret [OF assms(1,2) 3 assms(3)] by blast
  next
    case 4
    then show ?thesis using substitutes.unknown [OF assms(1,2) 4 assms(3)] by blast
  qed
qed

lemma substitutes_total: "\<exists>t us ms. substitutes host labels whole s t us ms"
proof (induction s rule: length_induct)
  case (1 s)
  show ?case
  proof (cases "index_of ''{{'' s")
    case None
    then show ?thesis
      using substitutes.literal [of s host labels whole] index_of_None_iff [of "''{{''" s] by blast
  next
    case (Some n)
    then obtain a c where s: "s = a @ ''{{'' @ c" and a: "before_open a"
      by (rule index_of_cut) (simp_all add: before_open_def)
    show ?thesis
    proof (cases "index_of ''}}'' c")
      case None
      then show ?thesis
        unfolding s using substitutes.unclosed [OF a, of c host labels whole] index_of_None_iff [of "''}}''" c]
        by blast
    next
      case (Some k)
      then obtain p d where c: "c = p @ ''}}'' @ d" and p: "inside p"
        by (rule index_of_cut) (simp_all add: inside_def)
      have "length d < length s" by (simp add: s c)
      with 1 obtain t us ms where "substitutes host labels whole d t us ms" by blast
      then show ?thesis unfolding s c by (rule substitutes_hole [OF a p])
    qed
  qed
qed

text \<open>The state only grows, so what is not used at the end was not used on the way.\<close>

definition grows :: "sub_state \<Rightarrow> sub_state \<Rightarrow> bool" where
  "grows st st' \<longleftrightarrow>
     used_names st \<subseteq> used_names st' \<and> (\<exists>es. sub_errs st' = sub_errs st @ es)"

lemma grows_refl [simp, intro]: "grows st st"
  by (simp add: grows_def)

lemma grows_trans [trans]: "grows a b \<Longrightarrow> grows b c \<Longrightarrow> grows a c"
  by (auto simp: grows_def)

lemma expand_grows: "grows st (snd (expand host labels p l st))"
  by (auto simp: expand_def Let_def grows_def sub_fail_def sub_use_def used_names_def dom_update
      update_conv' dom_map_of_conv_image_fst [symmetric] split: option.splits)

lemma text_loop_grows: "grows st (snd (text_loop host labels whole out rest st))"
proof (induction host labels whole out rest st rule: text_loop.induct)
  case (1 host labels whole out rest st)
  show ?case
  proof (cases "index_of ''{{'' rest")
    case None
    then show ?thesis by (simp add: text_loop.simps)
  next
    case (Some i)
    show ?thesis
    proof (cases "index_of ''}}'' (drop i rest)")
      case None
      with Some show ?thesis
        by (simp add: text_loop.simps sub_fail_def grows_def used_names_def)
    next
      case n: (Some n)
      let ?e = "expand host labels (trim_space (take (n + i - (i + 2)) (drop (i + 2) rest)))
        (take (n + i + 2 - i) (drop i rest)) st"
      have "grows (snd ?e) (snd (text_loop host labels whole (out @ take i rest @ fst ?e)
          (drop (n + i + 2) rest) (snd ?e)))"
        using 1 [OF Some n refl refl refl refl prod.collapse] .
      from grows_trans [OF expand_grows this] show ?thesis
        using Some n by (subst text_loop.simps) (simp add: case_prod_beta Let_def)
    qed
  qed
qed

lemma subst_text_grows: "grows st (snd (subst_text host labels s st))"
  by (simp add: subst_text_def text_loop_grows)

lemma subst_val_grows:
  "grows st (snd (subst_val host labels v st))"
  "grows st (snd (subst_vals host labels vs st))"
  "grows st (snd (subst_fields host labels fs st))"
proof (induction host labels v st and host labels vs st and host labels fs st
    rule: subst_val_subst_vals_subst_fields.induct)
  case (1 host labels k s q l m fr d st)
  then show ?case
    using subst_text_grows [of st host labels s]
    by (cases k) (auto simp: case_prod_beta Let_def)
next
  case (3 host labels v vs st)
  from grows_trans [OF 3(1) 3(2) [OF refl prod.collapse]] show ?case
    by (simp add: case_prod_beta Let_def)
next
  case (5 host labels key v fs st)
  from grows_trans [OF 5(1) 5(2) [OF refl prod.collapse]] show ?case
    by (simp add: case_prod_beta Let_def)
qed simp_all

lemma grows_no_errs:
  assumes "grows a b" "grows b c" "sub_errs c = sub_errs a"
  shows "sub_errs b = sub_errs a" "sub_errs c = sub_errs b"
proof -
  obtain e f where "sub_errs b = sub_errs a @ e" "sub_errs c = sub_errs b @ f"
    using assms(1,2) by (auto simp: grows_def)
  with assms(3) show "sub_errs b = sub_errs a" "sub_errs c = sub_errs b" by simp_all
qed

lemma agree_on_mono: "agree_on B h l h' l' \<Longrightarrow> A \<subseteq> B \<Longrightarrow> agree_on A h l h' l'"
  by (auto simp: agree_on_def)

lemma agree_grows: "agree_on (used_names b) h l h' l' \<Longrightarrow> grows a b \<Longrightarrow> agree_on (used_names a) h l h' l'"
  by (auto simp: grows_def intro: agree_on_mono)

text \<open>A step that reports nothing is the same for every host that agrees on what it used.\<close>

lemma expand_agree:
  assumes "sub_errs (snd (expand h l p t st)) = sub_errs st"
    and "agree_on (used_names (snd (expand h l p t st))) h l h' l'"
  shows "expand h' l' p t st = expand h l p t st"
proof -
  have used: "k \<in> used_names (sub_use k v st)" for k v
    by (simp add: used_names_def sub_use_def update_conv' dom_map_of_conv_image_fst [symmetric])
  show ?thesis
    using assms used [of p]
    by (auto simp: expand_def Let_def sub_fail_def agree_on_def has_prefix_iff trim_prefix_def
        split: option.split_asm if_split_asm)
qed

lemma text_loop_agree:
  assumes "sub_errs (snd (text_loop h l w out rest st)) = sub_errs st"
    and "agree_on (used_names (snd (text_loop h l w out rest st))) h l h' l'"
  shows "text_loop h' l' w out rest st = text_loop h l w out rest st"
  using assms
proof (induction h l w out rest st rule: text_loop.induct)
  case (1 h l w out rest st)
  show ?case
  proof (cases "index_of ''{{'' rest")
    case None
    then show ?thesis by (simp add: text_loop.simps)
  next
    case (Some i)
    show ?thesis
    proof (cases "index_of ''}}'' (drop i rest)")
      case None
      with Some 1(2) show ?thesis by (simp add: text_loop.simps sub_fail_def)
    next
      case n: (Some n)
      let ?p = "trim_space (take (n + i - (i + 2)) (drop (i + 2) rest))"
      let ?t = "take (n + i + 2 - i) (drop i rest)"
      let ?e = "expand h l ?p ?t st"
      let ?next = "\<lambda>h l e. text_loop h l w (out @ take i rest @ fst e) (drop (n + i + 2) rest) (snd e)"
      have unfold: "text_loop h l w out rest st = ?next h l (expand h l ?p ?t st)" for h l
        using Some n by (subst text_loop.simps) (simp add: case_prod_beta Let_def)
      have g: "grows st (snd ?e)" "grows (snd ?e) (snd (?next h l ?e))"
        by (rule expand_grows, rule text_loop_grows)
      note errs = grows_no_errs [OF g 1(2) [unfolded unfold]]
      note agree = 1(3) [unfolded unfold]
      have "expand h' l' ?p ?t st = ?e"
        by (rule expand_agree [OF errs(1) agree_grows [OF agree g(2)]])
      moreover have "?next h' l' ?e = ?next h l ?e"
        using 1(1) [OF Some n refl refl refl refl prod.collapse errs(2) agree] .
      ultimately show ?thesis by (simp only: unfold)
    qed
  qed
qed

lemma subst_text_agree:
  assumes "sub_errs (snd (subst_text h l s st)) = sub_errs st"
    and "agree_on (used_names (snd (subst_text h l s st))) h l h' l'"
  shows "subst_text h' l' s st = subst_text h l s st"
  using assms text_loop_agree [of h l s "[]" s st h' l']
  by (cases "str_contains s ''{{''") (simp_all add: subst_text_def)

lemma subst_val_agree:
  "sub_errs (snd (subst_val h l v st)) = sub_errs st
    \<Longrightarrow> agree_on (used_names (snd (subst_val h l v st))) h l h' l'
    \<Longrightarrow> subst_val h' l' v st = subst_val h l v st"
  "sub_errs (snd (subst_vals h l vs st)) = sub_errs st
    \<Longrightarrow> agree_on (used_names (snd (subst_vals h l vs st))) h l h' l'
    \<Longrightarrow> subst_vals h' l' vs st = subst_vals h l vs st"
  "sub_errs (snd (subst_fields h l fs st)) = sub_errs st
    \<Longrightarrow> agree_on (used_names (snd (subst_fields h l fs st))) h l h' l'
    \<Longrightarrow> subst_fields h' l' fs st = subst_fields h l fs st"
proof (induction h l v st and h l vs st and h l fs st rule: subst_val_subst_vals_subst_fields.induct)
  case (1 h l k s q vs m fr d st)
  then show ?case
    using subst_text_agree [of h l s st h' l'] by (cases k) (simp_all add: case_prod_beta Let_def)
next
  case (3 h l v vs st)
  let ?a = "subst_val h l v st"
  have g: "grows st (snd ?a)" "grows (snd ?a) (snd (subst_vals h l vs (snd ?a)))"
    by (rule subst_val_grows)+
  from 3(3,4) have errs: "sub_errs (snd (subst_vals h l vs (snd ?a))) = sub_errs st"
    and agree: "agree_on (used_names (snd (subst_vals h l vs (snd ?a)))) h l h' l'"
    by (simp_all add: case_prod_beta Let_def)
  have "subst_val h' l' v st = ?a"
    by (rule 3(1) [OF grows_no_errs(1) [OF g errs] agree_grows [OF agree g(2)]])
  moreover have "subst_vals h' l' vs (snd ?a) = subst_vals h l vs (snd ?a)"
    by (rule 3(2) [OF refl prod.collapse grows_no_errs(2) [OF g errs] agree])
  ultimately show ?case by (simp add: case_prod_beta Let_def)
next
  case (5 h l key v fs st)
  let ?a = "subst_val h l v st"
  have g: "grows st (snd ?a)" "grows (snd ?a) (snd (subst_fields h l fs (snd ?a)))"
    by (rule subst_val_grows)+
  from 5(3,4) have errs: "sub_errs (snd (subst_fields h l fs (snd ?a))) = sub_errs st"
    and agree: "agree_on (used_names (snd (subst_fields h l fs (snd ?a)))) h l h' l'"
    by (simp_all add: case_prod_beta Let_def)
  have "subst_val h' l' v st = ?a"
    by (rule 5(1) [OF grows_no_errs(1) [OF g errs] agree_grows [OF agree g(2)]])
  moreover have "subst_fields h' l' fs (snd ?a) = subst_fields h l fs (snd ?a)"
    by (rule 5(2) [OF refl prod.collapse grows_no_errs(2) [OF g errs] agree])
  ultimately show ?case by (simp add: case_prod_beta Let_def)
qed simp_all

section \<open>Properties\<close>

text \<open>
  C39: substitution is one pass, and what each placeholder becomes is what the grammar says. A
  text has one reading as literal pieces and placeholders, which looks at no label. The host
  placeholder becomes the host name and a declared label its value, both recorded as used and
  both literal: braces in a value are never read again. A secret placeholder stays as it is
  written. An undeclared label and any other placeholder become nothing, and each is a problem;
  after braces that do not close the text stays as it is, which is a problem as well. The
  result, the values recorded and the problems reported, in order, are exactly these.
\<close>

theorem subst_single_pass:
  "subst_text host labels s st = (t, st') \<longleftrightarrow>
    (\<exists>us ms. substitutes host labels s s t us ms
      \<and> st' = \<lparr>sub_used = fold (\<lambda>(k, v). AList.update k v) us (sub_used st), sub_errs = sub_errs st @ ms\<rparr>)"
proof -
  have loop: "subst_text host labels s st = text_loop host labels s [] s st"
    using text_loop_literal [of s host labels s "[]" st] by (auto simp: subst_text_def str_contains_def index_of_None_iff)
  show ?thesis
    unfolding loop using substitutes_text_loop [of host labels s s _ _ _ "[]" st] substitutes_total [of host labels s s]
    by (metis Pair_inject append_Nil)
qed

text \<open>
  What a resource is said to have used explains its desired state. When a substitution
  reports no problem, every host with the same values for the placeholders it used gets the
  same tree, the same record of use and no problem either: no other label of the host matters.
\<close>

theorem subst_explained:
  assumes "sub_errs (snd (subst_val host labels v new_sub)) = []"
    and "agree_on (used_names (snd (subst_val host labels v new_sub))) host labels host' labels'"
  shows "subst_val host' labels' v new_sub = subst_val host labels v new_sub"
  using subst_val_agree(1) [of host labels v new_sub host' labels'] assms
  by (simp add: new_sub_def)

theorem subst_explained_witness:
  "subst_val ''b'' [(''site'', ''lon''), (''rack'', ''9'')] (scalar_val ''/srv/{{ labels.site }}'') new_sub
   = (scalar_val ''/srv/lon'', \<lparr>sub_used = [(''labels.site'', ''lon'')], sub_errs = []\<rparr>)"
proof -
  have a: "subst_val ''a'' [(''site'', ''lon'')] (scalar_val ''/srv/{{ labels.site }}'') new_sub
      = (scalar_val ''/srv/lon'', \<lparr>sub_used = [(''labels.site'', ''lon'')], sub_errs = []\<rparr>)"
    by code_simp
  show ?thesis
    using subst_explained [of "''a''" "[(''site'', ''lon'')]" "scalar_val ''/srv/{{ labels.site }}''"
        "''b''" "[(''site'', ''lon''), (''rack'', ''9'')]"]
    unfolding a by (auto simp: agree_on_def used_names_def)
qed

end
