(* ===== verification/Paths.thy ===== *)
theory Paths
  imports Datum_Prelude
begin

text \<open>
  The functions of packages \<open>path\<close> and \<open>path/filepath\<close> the program calls, on slash separated
  paths (\<open>Clean\<close>, \<open>IsAbs\<close>, \<open>Dir\<close>, \<open>Join\<close>), the number parsers of \<open>strconv\<close>, and the lemmas on cleaned
  paths that validation and the protected set share.
\<close>

section \<open>Definitions\<close>

definition is_abs :: "string \<Rightarrow> bool" where
  "is_abs p \<longleftrightarrow> has_prefix p ''/''"

text \<open>
  One component of a path against the components kept so far, last first: an empty component
  and a dot are dropped, two dots take the previous component away where there is one and are
  dropped at the root.
\<close>

fun clean_step :: "bool \<Rightarrow> string list \<Rightarrow> string \<Rightarrow> string list" where
  "clean_step rooted out c =
     (if c = [] \<or> c = ''.'' then out
      else if c = ''..'' then
        (case out of
           [] \<Rightarrow> if rooted then [] else [''..'']
         | d # ds \<Rightarrow> if d = ''..'' then ''..'' # out else ds)
      else c # out)"

definition clean_parts :: "bool \<Rightarrow> string list \<Rightarrow> string list" where
  "clean_parts rooted cs = rev (foldl (clean_step rooted) [] cs)"

definition clean :: "string \<Rightarrow> string" where
  "clean p =
     (let rooted = is_abs p;
          parts = clean_parts rooted (split_on CHR ''/'' p);
          text = (if rooted then ''/'' else []) @ join_with ''/'' parts
      in if text = [] then ''.'' else text)"

definition join_path :: "string list \<Rightarrow> string" where
  "join_path elems =
     (let es = filter (\<lambda>e. e \<noteq> []) elems
      in if es = [] then [] else clean (join_with ''/'' es))"

text \<open>Everything before the last slash, cleaned.\<close>

definition path_dir :: "string \<Rightarrow> string" where
  "path_dir p =
     clean (rev (dropWhile (\<lambda>c. c \<noteq> CHR ''/'') (rev p)))"

text \<open>\<open>strconv.ParseUint\<close> and \<open>strconv.ParseInt\<close> with an explicit base of at most ten.\<close>

fun parse_digits :: "nat \<Rightarrow> string \<Rightarrow> nat \<Rightarrow> nat option" where
  "parse_digits base [] acc = Some acc"
| "parse_digits base (c # s) acc =
     (let n = (of_char c :: nat)
      in if 48 \<le> n \<and> n < 48 + base then parse_digits base s (acc * base + (n - 48)) else None)"

definition parse_uint :: "nat \<Rightarrow> nat \<Rightarrow> string \<Rightarrow> nat option" where
  "parse_uint base bits s =
     (if s = [] then None
      else case parse_digits base s 0 of
        None \<Rightarrow> None
      | Some n \<Rightarrow> if n < 2 ^ bits then Some n else None)"

definition parse_int :: "nat \<Rightarrow> nat \<Rightarrow> string \<Rightarrow> int option" where
  "parse_int base bits s =
     (let neg = has_prefix s ''-'';
          body = (if neg \<or> has_prefix s ''+'' then tl s else s)
      in if body = [] then None
         else case parse_digits base body 0 of
           None \<Rightarrow> None
         | Some n \<Rightarrow>
             if neg then if n \<le> 2 ^ (bits - 1) then Some (- int n) else None
             else if n < 2 ^ (bits - 1) then Some (int n) else None)"

definition atoi :: "string \<Rightarrow> int option" where
  "atoi s = parse_int 10 64 s"

section \<open>Normal form of paths\<close>

text \<open>Components that cleaning keeps: not empty, not a dot, not two dots.\<close>

definition normal_component :: "string \<Rightarrow> bool" where
  "normal_component c \<longleftrightarrow> c \<noteq> [] \<and> c \<noteq> ''.'' \<and> c \<noteq> ''..'' \<and> CHR ''/'' \<notin> set c"

definition abs_path :: "string list \<Rightarrow> string" where
  "abs_path cs = ''/'' @ join_with ''/'' cs"

section \<open>Lemmas\<close>

lemma join_with_eq_Nil: "list_all (\<lambda>w. w \<noteq> []) ws \<Longrightarrow> join_with sep ws = [] \<longleftrightarrow> ws = []"
  by (cases "(sep, ws)" rule: join_with.cases) auto

lemma clean_step_normal:
  "list_all normal_component cs \<Longrightarrow> foldl (clean_step r) out cs = rev cs @ out"
  by (induction cs arbitrary: out) (auto simp: normal_component_def)

lemma clean_parts_normal: "list_all normal_component cs \<Longrightarrow> clean_parts r cs = cs"
  by (simp add: clean_parts_def clean_step_normal)

lemma is_abs_abs_path [simp]: "is_abs (abs_path cs)"
  by (simp add: is_abs_def abs_path_def has_prefix_def)

lemma split_abs_path:
  "list_all normal_component cs \<Longrightarrow> cs \<noteq> [] \<Longrightarrow> split_on CHR ''/'' (abs_path cs) = [] # cs"
  by (simp add: abs_path_def split_on_join_with list_all_iff normal_component_def)

lemma clean_abs_path:
  assumes "list_all normal_component cs" shows "clean (abs_path cs) = abs_path cs"
proof (cases "cs = []")
  case True
  then show ?thesis by (simp add: clean_def abs_path_def is_abs_def has_prefix_def clean_parts_def Let_def)
next
  case False
  have "clean_parts True ([] # cs) = cs"
    using assms by (simp add: clean_parts_def clean_step_normal)
  then show ?thesis
    using assms False by (simp add: clean_def split_abs_path Let_def abs_path_def [symmetric])
      (simp add: abs_path_def)
qed

lemma clean_step_rooted_invar:
  assumes "list_all normal_component out" "CHR ''/'' \<notin> set c"
  shows "list_all normal_component (clean_step True out c)"
  using assms by (auto simp: normal_component_def split: list.splits)

lemma clean_parts_rooted:
  assumes "\<forall>c \<in> set cs. CHR ''/'' \<notin> set c"
  shows "list_all normal_component (clean_parts True cs)"
proof -
  have "list_all normal_component (foldl (clean_step True) out cs)" if "list_all normal_component out" for out
    using assms that
  proof (induction cs arbitrary: out)
    case (Cons c cs)
    then show ?case using clean_step_rooted_invar [of out c] by simp
  qed simp
  from this [of "[]"] show ?thesis by (simp add: clean_parts_def list_all_iff)
qed

text \<open>An absolute path cleans to a path of normal components, and cleaning is idempotent.\<close>

lemma clean_abs:
  assumes "is_abs p"
  shows "clean p = abs_path (clean_parts True (split_on CHR ''/'' p))"
    and "list_all normal_component (clean_parts True (split_on CHR ''/'' p))"
proof -
  show "clean p = abs_path (clean_parts True (split_on CHR ''/'' p))"
    using assms by (simp add: clean_def Let_def abs_path_def)
  show "list_all normal_component (clean_parts True (split_on CHR ''/'' p))"
    by (rule clean_parts_rooted) (use split_on_parts in blast)
qed

lemma clean_idem_abs: "is_abs p \<Longrightarrow> clean (clean p) = clean p"
  using clean_abs [of p] by (simp add: clean_abs_path)

lemma clean_is_abs: "is_abs p \<Longrightarrow> is_abs (clean p)"
  using clean_abs(1) [of p] by simp

lemma abs_path_inj:
  assumes "list_all normal_component cs" "list_all normal_component ds" "abs_path cs = abs_path ds"
  shows "cs = ds"
proof -
  have ne: "join_with ''/'' es = [] \<longleftrightarrow> es = []" if "list_all normal_component es" for es
    using that by (intro join_with_eq_Nil) (auto simp: normal_component_def list_all_iff)
  show ?thesis
  proof (cases "cs = [] \<or> ds = []")
    case True
    have "join_with ''/'' cs = join_with ''/'' ds" using assms(3) by (simp add: abs_path_def)
    with True ne [OF assms(1)] ne [OF assms(2)] show ?thesis by force
  next
    case False
    with assms split_abs_path show ?thesis by (metis list.inject)
  qed
qed

lemma join_with_prefix:
  assumes "cs \<noteq> []" "ds \<noteq> []"
  shows "join_with sep (cs @ ds) = join_with sep cs @ sep @ join_with sep ds"
  using assms
proof (induction cs)
  case (Cons c cs)
  then show ?case
    by (cases cs; cases ds) auto
qed simp

end
