(* ===== verification/Schema.thy ===== *)
theory Schema
  imports Document Paths
begin

text \<open>
  Package \<open>internal/schema\<close>: the field table of each resource type, the checks of single
  values and the rules across fields. A check returns the list of problems it reports, in the
  order of the calls of \<open>errs.Add\<close>, and \<open>validate\<close> adds them to the error list at the position
  of the resource. The properties say what a resource that passed without a problem can be
  relied on to have.
\<close>

unbundle bit_operations_syntax

section \<open>Definitions\<close>

subsection \<open>The tables\<close>

datatype field_kind =
    TextField | NameField | EnumField | BooleanField | IntegerField | AbsPathField
  | RepoPathField | ModeField | NameListField | TextListField

record field_spec =
  f_name :: string
  f_kind :: field_kind
  f_required :: bool
  f_values :: "string list"

record resource_type =
  type_fields :: "field_spec list"
  at_most_one :: "string list list"
  required_when_present :: "string list"

abbreviation optional_field :: "string \<Rightarrow> field_kind \<Rightarrow> field_spec" where
  "optional_field n k \<equiv> \<lparr>f_name = n, f_kind = k, f_required = False, f_values = []\<rparr>"

abbreviation required_field :: "string \<Rightarrow> field_kind \<Rightarrow> field_spec" where
  "required_field n k \<equiv> \<lparr>f_name = n, f_kind = k, f_required = True, f_values = []\<rparr>"

abbreviation required_enum :: "string \<Rightarrow> string list \<Rightarrow> field_spec" where
  "required_enum n vs \<equiv> \<lparr>f_name = n, f_kind = EnumField, f_required = True, f_values = vs\<rparr>"

definition find_field :: "resource_type \<Rightarrow> string \<Rightarrow> field_spec option" where
  "find_field t field_name = find (\<lambda>f. f_name f = field_name) (type_fields t)"

definition presence :: field_spec where
  "presence = \<lparr>f_name = ''state'', f_kind = EnumField, f_required = False,
               f_values = [''present'', ''absent'']\<rparr>"

definition package_type :: resource_type where
  "package_type = \<lparr>type_fields =
     [required_enum ''state'' [''present'', ''absent''],
      optional_field ''version'' TextField],
     at_most_one = [], required_when_present = []\<rparr>"

definition file_type :: resource_type where
  "file_type = \<lparr>type_fields =
     [required_field ''path'' AbsPathField,
      presence,
      optional_field ''content'' TextField,
      optional_field ''source'' RepoPathField,
      optional_field ''template'' RepoPathField,
      optional_field ''secretRef'' NameField,
      optional_field ''owner'' NameField,
      optional_field ''group'' NameField,
      optional_field ''mode'' ModeField,
      optional_field ''sensitive'' BooleanField,
      optional_field ''validate'' NameField,
      optional_field ''allowPrivileged'' BooleanField],
     at_most_one = [[''content'', ''source'', ''template'', ''secretRef'']],
     required_when_present = []\<rparr>"

definition directory_type :: resource_type where
  "directory_type = \<lparr>type_fields =
     [required_field ''path'' AbsPathField,
      presence,
      optional_field ''owner'' NameField,
      optional_field ''group'' NameField,
      optional_field ''mode'' ModeField,
      optional_field ''allowPrivileged'' BooleanField],
     at_most_one = [], required_when_present = []\<rparr>"

definition symlink_type :: resource_type where
  "symlink_type = \<lparr>type_fields =
     [required_field ''path'' AbsPathField,
      presence,
      optional_field ''target'' TextField,
      optional_field ''owner'' NameField,
      optional_field ''group'' NameField],
     at_most_one = [], required_when_present = [''target'']\<rparr>"

definition service_type :: resource_type where
  "service_type = \<lparr>type_fields =
     [required_enum ''state'' [''running'', ''stopped''],
      required_field ''enabled'' BooleanField],
     at_most_one = [], required_when_present = []\<rparr>"

definition user_type :: resource_type where
  "user_type = \<lparr>type_fields =
     [required_enum ''state'' [''present'', ''absent''],
      optional_field ''uid'' IntegerField,
      optional_field ''primaryGroup'' NameField,
      optional_field ''groups'' NameListField,
      optional_field ''home'' AbsPathField,
      optional_field ''shell'' AbsPathField,
      optional_field ''comment'' TextField,
      optional_field ''system'' BooleanField,
      optional_field ''passwordRef'' NameField],
     at_most_one = [], required_when_present = []\<rparr>"

definition group_type :: resource_type where
  "group_type = \<lparr>type_fields =
     [required_enum ''state'' [''present'', ''absent''],
      optional_field ''gid'' IntegerField,
      optional_field ''system'' BooleanField],
     at_most_one = [], required_when_present = []\<rparr>"

definition sysctl_type :: resource_type where
  "sysctl_type = \<lparr>type_fields =
     [required_field ''value'' TextField,
      presence],
     at_most_one = [], required_when_present = []\<rparr>"

definition repository_type :: resource_type where
  "repository_type = \<lparr>type_fields =
     [required_field ''id'' NameField,
      presence,
      optional_field ''url'' TextField,
      optional_field ''signingKey'' TextField,
      optional_field ''unsigned'' BooleanField,
      optional_field ''enabled'' BooleanField,
      optional_field ''priority'' IntegerField,
      optional_field ''suite'' NameField,
      optional_field ''components'' NameListField],
     at_most_one = [], required_when_present = [''url'']\<rparr>"

definition types :: "(string \<times> resource_type) list" where
  "types =
     [(''Package'', package_type), (''File'', file_type), (''Directory'', directory_type),
      (''Symlink'', symlink_type), (''Service'', service_type), (''User'', user_type),
      (''Group'', group_type), (''Sysctl'', sysctl_type), (''Repository'', repository_type)]"

definition known :: "string \<Rightarrow> bool" where
  "known type_name \<longleftrightarrow> map_of types type_name \<noteq> None"

subsection \<open>Reading the desired state\<close>

record schema_resource =
  sr_ref :: reference
  sr_desired :: val
  sr_position :: position

definition present :: "val \<Rightarrow> bool" where
  "present desired =
     (case lookup_val desired ''state'' of
        None \<Rightarrow> True
      | Some value \<Rightarrow> v_scalar value \<noteq> ''absent'')"

definition is_set :: "val \<Rightarrow> string \<Rightarrow> bool" where
  "is_set desired field_name =
     (case lookup_val desired field_name of
        None \<Rightarrow> False
      | Some value \<Rightarrow> \<not> (v_kind value = KindScalar \<and> v_scalar value = []))"

definition allowed :: "val \<Rightarrow> bool" where
  "allowed desired =
     (case lookup_val desired ''allowPrivileged'' of
        None \<Rightarrow> False
      | Some value \<Rightarrow> v_scalar value = ''true'')"

definition system_prefixes :: "string list" where
  "system_prefixes = [''/etc/'', ''/usr/'', ''/bin/'', ''/sbin/'', ''/lib/'', ''/boot/'']"

definition system_path :: "val \<Rightarrow> bool" where
  "system_path desired =
     (case lookup_val desired ''path'' of
        None \<Rightarrow> False
      | Some value \<Rightarrow> list_ex (has_prefix (v_scalar value)) system_prefixes)"

definition one_of :: "string list \<Rightarrow> string \<Rightarrow> bool" where
  "one_of values want \<longleftrightarrow> want \<in> set values"

subsection \<open>Single values\<close>

text \<open>The loop over the components of a path, for the path \<open>value\<close> they were split from.\<close>

fun check_components :: "string \<Rightarrow> string list \<Rightarrow> path_msg list" where
  "check_components value [] = []"
| "check_components value (c # cs) =
     (if c = [] then if value \<noteq> ''/'' then [EmptyComponent] else check_components value cs
      else if c = ''..'' \<or> c = ''.'' then [DotComponent c]
      else check_components value cs)"

definition check_path_components :: "string \<Rightarrow> path_msg list" where
  "check_path_components value =
     (case safe_text value of
        Some err \<Rightarrow> [PathUnsafe err]
      | None \<Rightarrow> check_components value (split_on CHR ''/'' (trim_prefix value ''/'')))"

definition check_abs_path :: "string \<Rightarrow> path_msg list" where
  "check_abs_path value =
     (if value = [] then [PathEmpty]
      else if \<not> has_prefix value ''/'' then [PathNotAbsolute]
      else if length value > max_path_length then [PathTooLong]
      else check_path_components value)"

definition check_repo_path :: "string \<Rightarrow> path_msg list" where
  "check_repo_path value =
     (if value = [] then [PathEmpty]
      else if has_prefix value ''/'' then [PathNotRelative]
      else check_path_components value
        @ (let cleaned = clean value
           in if cleaned = ''..'' \<or> has_prefix cleaned ''../'' then [PathOutside] else []))"

text \<open>The bits are a signed integer of 64 bits; \<open>AND\<close> on \<^typ>\<open>int\<close> is the two's complement one.\<close>

definition setuid_bit :: int where "setuid_bit = 2048"

definition setgid_bit :: int where "setgid_bit = 1024"

definition others_bit :: int where "others_bit = 2"

definition check_mode :: "val \<Rightarrow> val \<Rightarrow> mode_msg list" where
  "check_mode desired v =
     (let digits = v_scalar v
      in if \<not> v_quoted v then [ModeNotQuoted digits]
         else if length digits \<noteq> 3 \<and> length digits \<noteq> 4 then [ModeDigits digits]
         else case parse_int 8 32 digits of
           None \<Rightarrow> [ModeNotOctal digits]
         | Some bits \<Rightarrow>
             (let privileged = bits AND (setuid_bit OR setgid_bit) \<noteq> 0;
                  world_writable = bits AND others_bit \<noteq> 0
              in if \<not> privileged \<and> \<not> world_writable then []
                 else if allowed desired then []
                 else if privileged then [ModePrivileged digits]
                 else if world_writable \<and> system_path desired then [ModeWorldWritable digits]
                 else []))"

definition check_list_item :: "field_kind \<Rightarrow> val \<Rightarrow> value_msg list" where
  "check_list_item k item =
     (if v_kind item \<noteq> KindScalar then [EntriesStrings]
      else if k = NameListField \<and> \<not> valid_name (v_scalar item) then [EntryNotName (v_scalar item)]
      else [])"

definition check_value :: "val \<Rightarrow> field_spec \<Rightarrow> val \<Rightarrow> value_msg list" where
  "check_value desired f v =
     (if f_kind f = NameListField \<or> f_kind f = TextListField then
        (if v_kind v \<noteq> KindList then [HasToBeList]
         else concat (map (check_list_item (f_kind f)) (v_list v)))
      else if v_kind v \<noteq> KindScalar then [SingleValue]
      else case f_kind f of
        TextField \<Rightarrow>
          (case safe_text (v_scalar v) of None \<Rightarrow> [] | Some err \<Rightarrow> [UnsafeText err])
      | NameField \<Rightarrow> if valid_name (v_scalar v) then [] else [NameNotAllowed (v_scalar v)]
      | EnumField \<Rightarrow>
          if one_of (f_values f) (v_scalar v) then [] else [NotOneOf (v_scalar v) (f_values f)]
      | BooleanField \<Rightarrow>
          if v_scalar v \<noteq> ''true'' \<and> v_scalar v \<noteq> ''false'' then [NotBoolean] else []
      | IntegerField \<Rightarrow> if atoi (v_scalar v) = None then [NotInteger] else []
      | AbsPathField \<Rightarrow> map BadPath (check_abs_path (v_scalar v))
      | RepoPathField \<Rightarrow> map BadPath (check_repo_path (v_scalar v))
      | ModeField \<Rightarrow> map BadMode (check_mode desired v)
      | _ \<Rightarrow> [])"

subsection \<open>Rules across fields\<close>

definition check_repository :: "val \<Rightarrow> schema_msg list" where
  "check_repository desired =
     (if \<not> present desired then []
      else
        let has_key = is_set desired ''signingKey'';
            unsigned =
              (case lookup_val desired ''unsigned'' of
                 None \<Rightarrow> False
               | Some value \<Rightarrow> v_scalar value = ''true'')
        in if \<not> has_key \<and> \<not> unsigned then [NeedsUnsigned]
           else if has_key \<and> unsigned then [KeyAndUnsigned]
           else [])"

definition absent_file_fields :: "string list" where
  "absent_file_fields =
     [''content'', ''source'', ''template'', ''secretRef'', ''owner'', ''group'', ''mode'',
      ''validate'']"

definition check_file :: "val \<Rightarrow> schema_msg list" where
  "check_file desired =
     (if present desired then []
      else map AbsentButSets (filter (is_set desired) absent_file_fields))"

definition check_type_rules :: "string \<Rightarrow> val \<Rightarrow> schema_msg list" where
  "check_type_rules type_name desired =
     (if type_name = ''Repository'' then check_repository desired
      else if type_name = ''File'' then check_file desired
      else [])"

definition check_fields :: "resource_type \<Rightarrow> val \<Rightarrow> schema_msg list" where
  "check_fields spec desired =
     concat (map (\<lambda>key.
       case find_field spec key of
         None \<Rightarrow> [NoField key]
       | Some f \<Rightarrow>
           map (FieldValue (f_name f))
             (check_value desired f (case map_of (v_map desired) key of None \<Rightarrow> zero_val | Some v \<Rightarrow> v)))
       (val_keys desired))"

definition check_required :: "resource_type \<Rightarrow> val \<Rightarrow> schema_msg list" where
  "check_required spec desired =
     map (\<lambda>f. MissingField (f_name f))
       (filter (\<lambda>f. f_required f \<and> \<not> is_set desired (f_name f)) (type_fields spec))"

definition check_exclusive :: "resource_type \<Rightarrow> val \<Rightarrow> schema_msg list" where
  "check_exclusive spec desired =
     concat (map (\<lambda>group.
       let declared = map (\<lambda>n. ''desired.'' @ n) (filter (is_set desired) group)
       in if length declared > 1 then [MutuallyExclusive declared] else [])
       (at_most_one spec))"

definition check_when_present :: "resource_type \<Rightarrow> val \<Rightarrow> schema_msg list" where
  "check_when_present spec desired =
     (if present desired
      then map MissingUnlessAbsent
             (filter (\<lambda>n. \<not> is_set desired n) (required_when_present spec))
      else [])"

definition problems :: "reference \<Rightarrow> val \<Rightarrow> schema_msg list" where
  "problems ref desired =
     (case map_of types (ref_type ref) of
        None \<Rightarrow> [NoFieldTable]
      | Some spec \<Rightarrow>
          if v_kind desired \<noteq> KindMap then [DesiredNotMapping]
          else check_fields spec desired @ check_required spec desired
            @ check_exclusive spec desired @ check_when_present spec desired
            @ check_type_rules (ref_type ref) desired)"

definition validate :: "schema_resource \<Rightarrow> errors \<Rightarrow> errors" where
  "validate r errs =
     foldl (\<lambda>es m. add_error es (sr_position r) (SchemaMsg (sr_ref r) m)) errs
       (problems (sr_ref r) (sr_desired r))"

section \<open>Lemmas\<close>

lemma lookup_field:
  "CHR ''.'' \<notin> set f \<Longrightarrow> lookup_val d f = (if v_kind d \<noteq> KindMap then None else map_of (v_map d) f)"
  by (auto simp: lookup_val_def split_on_no_sep split: option.splits)

lemma check_components_Nil:
  "check_components value cs = []
     \<longleftrightarrow> (\<forall>c \<in> set cs. c \<noteq> ''.'' \<and> c \<noteq> ''..'' \<and> (c = [] \<longrightarrow> value = ''/''))"
  by (induction cs) auto

lemma check_path_components_Nil:
  "check_path_components value = []
     \<longleftrightarrow> safe_text value = None
       \<and> (\<forall>c \<in> set (split_on CHR ''/'' (trim_prefix value ''/'')).
            c \<noteq> ''.'' \<and> c \<noteq> ''..'' \<and> (c = [] \<longrightarrow> value = ''/''))"
  by (simp add: check_path_components_def check_components_Nil split: option.splits)

text \<open>A text whose components all pass is the join of normal components.\<close>

lemma passing_components:
  "(\<forall>c \<in> set (split_on CHR ''/'' w). c \<noteq> ''.'' \<and> c \<noteq> ''..'' \<and> c \<noteq> [])
     \<longleftrightarrow> (\<exists>cs. cs \<noteq> [] \<and> list_all normal_component cs \<and> w = join_with ''/'' cs)"
  (is "?ok \<longleftrightarrow> ?normal")
proof
  assume ?ok
  then have "list_all normal_component (split_on CHR ''/'' w)"
    by (auto simp: list_all_iff normal_component_def dest: split_on_parts)
  then show ?normal
    by (metis join_with_split_on split_on_not_Nil)
next
  assume ?normal
  then obtain cs where cs: "cs \<noteq> []" "list_all normal_component cs" "w = join_with ''/'' cs"
    by blast
  then have "split_on CHR ''/'' w = cs"
    by (simp add: split_on_join_with list_all_iff normal_component_def)
  with cs show ?ok
    by (auto simp: list_all_iff normal_component_def)
qed

lemma check_abs_path_Nil:
  "check_abs_path value = []
     \<longleftrightarrow> length value \<le> max_path_length \<and> safe_text value = None
       \<and> (\<exists>cs. list_all normal_component cs \<and> value = abs_path cs)"
proof (cases "has_prefix value ''/''")
  case False
  then show ?thesis
    by (auto simp: check_abs_path_def abs_path_def has_prefix_def)
next
  case True
  then obtain w where v: "value = CHR ''/'' # w" by (auto simp: has_prefix_iff)
  show ?thesis
  proof (cases "w = []")
    case True
    then have "value = abs_path []" using v by (simp add: abs_path_def)
    then show ?thesis
      using True v
      by (auto simp: check_abs_path_def check_path_components_Nil trim_prefix_def max_path_length_def
          has_prefix_def intro: exI [of _ "[]"])
  next
    case False
    then have "check_path_components value = [] \<longleftrightarrow> safe_text value = None
        \<and> (\<exists>cs. cs \<noteq> [] \<and> list_all normal_component cs \<and> w = join_with ''/'' cs)"
      using passing_components [of w]
      by (auto simp: check_path_components_Nil v trim_prefix_def has_prefix_def)
    then show ?thesis
      using False v by (auto simp: check_abs_path_def has_prefix_def abs_path_def) force
  qed
qed

lemma normal_head:
  assumes "cs \<noteq> []" "list_all normal_component cs"
  shows "join_with ''/'' cs \<noteq> []" "\<not> has_prefix (join_with ''/'' cs) ''/''"
proof -
  obtain c ds where c: "cs = c # ds" "normal_component c" using assms by (cases cs) auto
  then obtain x y where x: "c = x # y" "x \<noteq> CHR ''/''"
    by (cases c) (auto simp: normal_component_def)
  show "join_with ''/'' cs \<noteq> []" "\<not> has_prefix (join_with ''/'' cs) ''/''"
    using c x by (cases ds; simp add: has_prefix_def)+
qed

lemma clean_relative:
  assumes "cs \<noteq> []" "list_all normal_component cs"
  shows "clean (join_with ''/'' cs) = join_with ''/'' cs"
  using normal_head [OF assms] assms
  by (simp add: clean_def is_abs_def Let_def clean_parts_normal split_on_join_with
      list_all_iff normal_component_def)

lemma check_repo_path_Nil:
  "check_repo_path value = []
     \<longleftrightarrow> safe_text value = None
       \<and> (\<exists>cs. cs \<noteq> [] \<and> list_all normal_component cs \<and> value = join_with ''/'' cs)"
  (is "?lhs \<longleftrightarrow> ?rhs")
proof
  assume l: ?lhs
  then have v: "value \<noteq> []" "\<not> has_prefix value ''/''" and c: "check_path_components value = []"
    by (auto simp: check_repo_path_def Let_def split: if_splits)
  have "value \<noteq> ''/''" using v by (auto simp: has_prefix_def)
  with c v passing_components [of "value"] show ?rhs
    by (auto simp: check_path_components_Nil trim_prefix_def)
next
  assume r: ?rhs
  then obtain cs where cs: "cs \<noteq> []" "list_all normal_component cs" "value = join_with ''/'' cs"
    and safe: "safe_text value = None" by blast
  note head = normal_head [OF cs(1,2), folded cs(3)]
  have parts: "split_on CHR ''/'' value = cs"
    using cs by (simp add: split_on_join_with list_all_iff normal_component_def)
  have "\<not> has_prefix value ''../'' \<and> value \<noteq> ''..''"
    using parts cs by (auto simp: has_prefix_iff normal_component_def)
  moreover have "check_path_components value = []"
    using safe head parts cs(2)
    by (auto simp: check_path_components_Nil trim_prefix_def list_all_iff normal_component_def)
  ultimately show ?lhs
    using head clean_relative [OF cs(1,2), folded cs(3)] by (simp add: check_repo_path_def Let_def)
qed

text \<open>A relative path of normal components joined to a directory stays below it.\<close>

lemma join_path_below:
  assumes "list_all normal_component ds" "cs \<noteq> []" "list_all normal_component cs"
  shows "join_path [abs_path ds, join_with ''/'' cs] = abs_path (ds @ cs)"
proof -
  have slash: "CHR ''/'' \<notin> set c" if "c \<in> set cs \<union> set ds" for c
    using that assms by (auto simp: list_all_iff normal_component_def)
  let ?p = "abs_path ds @ ''/'' @ join_with ''/'' cs"
  have "split_on CHR ''/'' ?p = split_on CHR ''/'' (abs_path ds) @ cs"
    using assms(2) slash by (simp add: split_on_append_sep split_on_join_with)
  moreover have "split_on CHR ''/'' (abs_path ds) = (if ds = [] then [[], []] else [] # ds)"
    using split_abs_path [OF assms(1)] by (simp add: abs_path_def)
  ultimately have parts: "clean_parts True (split_on CHR ''/'' ?p) = ds @ cs"
    using assms by (simp add: clean_parts_def clean_step_normal)
  have "is_abs ?p" by (simp add: is_abs_def abs_path_def has_prefix_def)
  from clean_abs(1) [OF this] parts have "clean ?p = abs_path (ds @ cs)" by simp
  then show ?thesis
    using normal_head [OF assms(2,3)] by (simp add: join_path_def abs_path_def)
qed

lemma and_mask_zero:
  assumes "\<And>n. bit (k :: int) n \<longleftrightarrow> n \<in> ns"
  shows "bits AND k = 0 \<longleftrightarrow> (\<forall>n \<in> ns. \<not> bit bits n)"
  by (auto simp: bit_eq_iff [of _ 0] bit_and_iff assms)

lemma bit_power: "bit ((2 :: int) ^ m) n \<longleftrightarrow> n = m"
  by (auto simp: bit_exp_iff possible_bit_def)

lemma mask_zero: "bits AND (setuid_bit OR setgid_bit) = 0 \<longleftrightarrow> \<not> bit bits 11 \<and> \<not> bit bits 10"
proof -
  have eq: "setuid_bit = 2 ^ 11" "setgid_bit = 2 ^ 10" by (simp_all add: setuid_bit_def setgid_bit_def)
  have "bit (setuid_bit OR setgid_bit) n \<longleftrightarrow> n \<in> {11, 10}" for n
    unfolding eq bit_or_iff bit_power by simp
  from and_mask_zero [OF this] show ?thesis by simp
qed

lemma others_zero: "bits AND others_bit = 0 \<longleftrightarrow> \<not> bit bits 1"
proof -
  have eq: "others_bit = 2 ^ 1" by (simp add: others_bit_def)
  have "bit others_bit n \<longleftrightarrow> n \<in> {1}" for n
    unfolding eq bit_power by simp
  from and_mask_zero [OF this] show ?thesis by simp
qed

lemma validate_eq:
  "validate r errs =
     errs @ map (\<lambda>m. \<lparr>err_pos = sr_position r, err_msg = SchemaMsg (sr_ref r) m\<rparr>)
       (problems (sr_ref r) (sr_desired r))"
proof -
  have "foldl (\<lambda>es m. add_error es p (f m)) errs ms = errs @ map (\<lambda>m. \<lparr>err_pos = p, err_msg = f m\<rparr>) ms"
    for p f ms by (induction ms arbitrary: errs) (simp_all add: add_error_def)
  then show ?thesis by (simp add: validate_def)
qed

lemma validate_Nil: "validate r [] = [] \<longleftrightarrow> problems (sr_ref r) (sr_desired r) = []"
  by (simp add: validate_eq)

text \<open>What passing means, field by field.\<close>

lemma passed:
  assumes "validate r [] = []" and "map_of types (ref_type (sr_ref r)) = Some spec"
  shows "v_kind (sr_desired r) = KindMap"
    and "check_required spec (sr_desired r) = []" "check_exclusive spec (sr_desired r) = []"
    and "check_when_present spec (sr_desired r) = []"
    and "check_type_rules (ref_type (sr_ref r)) (sr_desired r) = []"
    and "\<And>key v. map_of (v_map (sr_desired r)) key = Some v
       \<Longrightarrow> \<exists>f. find_field spec key = Some f \<and> check_value (sr_desired r) f v = []"
proof -
  let ?d = "sr_desired r"
  have all: "v_kind ?d = KindMap \<and> check_fields spec ?d = [] \<and> check_required spec ?d = []
    \<and> check_exclusive spec ?d = [] \<and> check_when_present spec ?d = []
    \<and> check_type_rules (ref_type (sr_ref r)) ?d = []"
    using assms by (auto simp: validate_Nil problems_def split: if_splits)
  then show "v_kind ?d = KindMap" "check_required spec ?d = []" "check_exclusive spec ?d = []"
    "check_when_present spec ?d = []" "check_type_rules (ref_type (sr_ref r)) ?d = []" by auto
  fix key v assume m: "map_of (v_map ?d) key = Some v"
  then have "key \<in> set (val_keys ?d)" by (force simp: val_keys_def dest: map_of_SomeD)
  with all have "(case find_field spec key of None \<Rightarrow> [NoField key]
      | Some f \<Rightarrow> map (FieldValue (f_name f))
          (check_value ?d f (case map_of (v_map ?d) key of None \<Rightarrow> zero_val | Some v \<Rightarrow> v))) = []"
    unfolding check_fields_def by simp
  then show "\<exists>f. find_field spec key = Some f \<and> check_value ?d f v = []"
    using m by (simp split: option.splits)
qed

lemma passed_required:
  assumes "check_required spec d = []" "f \<in> set (type_fields spec)" "f_required f"
  shows "is_set d (f_name f)"
  using assms by (auto simp: check_required_def filter_empty_conv)


section \<open>Properties\<close>

lemmas type_defs = package_type_def file_type_def directory_type_def symlink_type_def
  service_type_def user_type_def group_type_def sysctl_type_def repository_type_def presence_def
  find_field_def

lemma types_lookup:
  "map_of types ''File'' = Some file_type" "map_of types ''Directory'' = Some directory_type"
  "map_of types ''Symlink'' = Some symlink_type"
  "map_of types ''Repository'' = Some repository_type"
  by (simp_all add: types_def)

lemma passed_set_path:
  assumes "validate r [] = []" "map_of types (ref_type (sr_ref r)) = Some spec"
    and "required_field ''path'' AbsPathField \<in> set (type_fields spec)"
    and "find_field spec ''path'' = Some (required_field ''path'' AbsPathField)"
  shows "\<exists>v cs. lookup_val (sr_desired r) ''path'' = Some v \<and> v_kind v = KindScalar
    \<and> list_all normal_component cs \<and> v_scalar v = abs_path cs
    \<and> length (v_scalar v) \<le> max_path_length \<and> safe_text (v_scalar v) = None"
proof -
  note p = passed [OF assms(1,2)]
  from passed_required [OF p(2) assms(3)] obtain v where v: "lookup_val (sr_desired r) ''path'' = Some v"
    by (auto simp: is_set_def split: option.splits)
  then have "map_of (v_map (sr_desired r)) ''path'' = Some v"
    using p(1) by (simp add: lookup_field)
  from p(6) [OF this] assms(4) have "v_kind v = KindScalar" "check_abs_path (v_scalar v) = []"
    by (auto simp: check_value_def split: if_splits)
  with v show ?thesis by (auto simp: check_abs_path_Nil)
qed

lemma passed_target:
  assumes "validate r [] = []"
    and "ref_type (sr_ref r) \<in> {''File'', ''Directory'', ''Symlink''}"
  shows "\<exists>cs. target_identity (ref_type (sr_ref r)) (ref_name (sr_ref r)) (sr_desired r)
        = Inr (abs_path cs)
    \<and> list_all normal_component cs \<and> clean (abs_path cs) = abs_path cs
    \<and> length (abs_path cs) \<le> 4096 \<and> safe_text (abs_path cs) = None"
proof -
  obtain spec where spec: "map_of types (ref_type (sr_ref r)) = Some spec"
    "required_field ''path'' AbsPathField \<in> set (type_fields spec)"
    "find_field spec ''path'' = Some (required_field ''path'' AbsPathField)"
    using assms(2) types_lookup by (auto simp: type_defs)
  from passed_set_path [OF assms(1) this] obtain v cs where
    v: "lookup_val (sr_desired r) ''path'' = Some v" "v_kind v = KindScalar"
      "list_all normal_component cs" "v_scalar v = abs_path cs"
      "length (v_scalar v) \<le> max_path_length" "safe_text (v_scalar v) = None" by blast
  moreover have "abs_path cs \<noteq> []" by (simp add: abs_path_def)
  moreover have "target_identity_field (ref_type (sr_ref r)) = Some ''path''"
    using assms(2) by (auto simp: target_identity_field_def)
  ultimately show ?thesis
    by (intro exI [of _ cs]) (simp add: target_identity_def clean_abs_path max_path_length_def)
qed

text \<open>
  C37: a resource that validation accepts has a target, and the target of a file, a directory or
  a symbolic link is an absolute path in normal form: it is its own cleaned form, no component
  of it is empty, a dot or two dots, and it is at most 4096 bytes of safe text. So a path
  accepted here names the same target whether or not a later step cleans it.
\<close>

theorem accepted_target:
  assumes "validate r [] = []"
    and "ref_type (sr_ref r) \<in> {''File'', ''Directory'', ''Symlink''}"
  shows "\<exists>cs. target_identity (ref_type (sr_ref r)) (ref_name (sr_ref r)) (sr_desired r)
        = Inr (abs_path cs)
    \<and> list_all normal_component cs \<and> clean (abs_path cs) = abs_path cs
    \<and> length (abs_path cs) \<le> 4096 \<and> safe_text (abs_path cs) = None"
  by (rule passed_target [OF assms])

abbreviation "example_file \<equiv>
  \<lparr>sr_ref = Reference ''File'' ''motd'', sr_desired = map_val
      [(''path'', scalar_val ''/a/b''), (''mode'', Value KindScalar ''644'' True [] [] [] [])],
   sr_position = no_position\<rparr>"

lemma example_file_passes: "validate example_file [] = []"
  by (simp add: validate_Nil problems_def types_lookup check_fields_def check_required_def
      check_exclusive_def check_when_present_def check_type_rules_def check_file_def present_def
      val_keys_def sorted_keys_def type_defs check_value_def check_abs_path_def has_prefix_def
      max_path_length_def check_path_components_def safe_text_def valid_utf8_def runes_def
      rune_value_def is_control_def is_bidi_control_def trim_prefix_def check_mode_def
      parse_int_def Let_def setuid_bit_def setgid_bit_def others_bit_def is_set_def lookup_val_def)

theorem accepted_target_witness:
  "\<exists>cs. target_identity ''File'' ''motd'' (sr_desired example_file) = Inr (abs_path cs)"
  using accepted_target [OF example_file_passes] by auto

text \<open>
  C36: the mode of an accepted file or directory is quoted, three or four characters long and
  parses as octal. Unless the resource says \<open>allowPrivileged: true\<close>, the setuid and setgid bits
  are clear, and under a system directory the bit that lets others write is clear.
\<close>

theorem accepted_mode:
  assumes "validate r [] = []" and "ref_type (sr_ref r) \<in> {''File'', ''Directory''}"
    and "lookup_val (sr_desired r) ''mode'' = Some m"
  shows "v_quoted m \<and> length (v_scalar m) \<in> {3, 4}
    \<and> (\<exists>bits. parse_int 8 32 (v_scalar m) = Some bits
        \<and> (allowed (sr_desired r)
           \<or> \<not> bit bits 11 \<and> \<not> bit bits 10 \<and> (system_path (sr_desired r) \<longrightarrow> \<not> bit bits 1)))"
proof -
  obtain spec where spec: "map_of types (ref_type (sr_ref r)) = Some spec"
    "find_field spec ''mode'' = Some (optional_field ''mode'' ModeField)"
    using assms(2) types_lookup by (auto simp: type_defs)
  note p = passed [OF assms(1) spec(1)]
  have "map_of (v_map (sr_desired r)) ''mode'' = Some m"
    using assms(3) p(1) by (simp add: lookup_field)
  from p(6) [OF this] spec(2) have "check_mode (sr_desired r) m = []"
    by (auto simp: check_value_def split: if_splits)
  then show ?thesis
    by (auto simp: check_mode_def Let_def mask_zero others_zero split: if_splits option.splits)
qed

theorem accepted_mode_witness:
  "\<exists>bits. parse_int 8 32 ''644'' = Some bits \<and> \<not> bit bits 11 \<and> \<not> bit bits 10"
  using accepted_mode [OF example_file_passes, of "Value KindScalar ''644'' True [] [] [] []"]
  by (auto simp: lookup_val_def allowed_def)

text \<open>
  C35: the source and the template of an accepted file stay inside the directory of the layer
  they are resolved against: joined to it, they name a path strictly below it.
\<close>

theorem accepted_source_contained:
  assumes "validate r [] = []" and "ref_type (sr_ref r) = ''File''"
    and "field \<in> {''source'', ''template''}" and "lookup_val (sr_desired r) field = Some v"
    and "list_all normal_component dir"
  shows "\<exists>cs. cs \<noteq> [] \<and> list_all normal_component cs
    \<and> join_path [abs_path dir, v_scalar v] = abs_path (dir @ cs)"
proof -
  have spec: "map_of types (ref_type (sr_ref r)) = Some file_type"
    "find_field file_type field = Some (optional_field field RepoPathField)"
    using assms(2,3) types_lookup by (auto simp: type_defs)
  note p = passed [OF assms(1) spec(1)]
  have "map_of (v_map (sr_desired r)) field = Some v"
    using assms(3,4) p(1) by (auto simp: lookup_field)
  from p(6) [OF this] spec(2) have "check_repo_path (v_scalar v) = []"
    by (auto simp: check_value_def split: if_splits)
  then show ?thesis
    using join_path_below [OF assms(5)] by (auto simp: check_repo_path_Nil)
qed

abbreviation "example_source \<equiv>
  \<lparr>sr_ref = Reference ''File'' ''motd'', sr_desired = map_val
      [(''path'', scalar_val ''/a''), (''source'', scalar_val ''f/m'')],
   sr_position = no_position\<rparr>"

lemma example_source_passes: "validate example_source [] = []"
  by (simp add: validate_Nil problems_def types_lookup check_fields_def check_required_def
      check_exclusive_def check_when_present_def check_type_rules_def check_file_def present_def
      val_keys_def sorted_keys_def type_defs check_value_def check_abs_path_def has_prefix_def
      max_path_length_def check_path_components_def safe_text_def valid_utf8_def runes_def
      rune_value_def is_control_def is_bidi_control_def trim_prefix_def check_repo_path_def
      clean_def is_abs_def clean_parts_def Let_def is_set_def lookup_val_def)

theorem accepted_source_contained_witness:
  "\<exists>cs. cs \<noteq> [] \<and> join_path [abs_path [''srv''], ''f/m''] = abs_path (''srv'' # cs)"
  using accepted_source_contained [OF example_source_passes, of "''source''" "scalar_val ''f/m''" "[''srv'']"]
  by (auto simp: lookup_val_def normal_component_def)

text \<open>
  An accepted package source that is present names a key or says it is unsigned, never
  both and never neither, and it has a url.
\<close>

theorem accepted_repository:
  assumes "validate r [] = []" and "ref_type (sr_ref r) = ''Repository''"
    and "present (sr_desired r)"
  shows "is_set (sr_desired r) ''signingKey''
      = (\<not> (\<exists>v. lookup_val (sr_desired r) ''unsigned'' = Some v \<and> v_scalar v = ''true''))
    \<and> is_set (sr_desired r) ''url''"
proof

  have spec: "map_of types (ref_type (sr_ref r)) = Some repository_type"
    using assms(2) types_lookup by simp
  note p = passed [OF assms(1) spec]
  from p(5) show "is_set (sr_desired r) ''signingKey''
      = (\<not> (\<exists>v. lookup_val (sr_desired r) ''unsigned'' = Some v \<and> v_scalar v = ''true''))"
    using assms(2,3)
    by (auto simp: check_type_rules_def check_repository_def Let_def split: if_splits option.splits)
  from p(4) show "is_set (sr_desired r) ''url''"
    using assms(3) by (simp add: check_when_present_def repository_type_def split: if_splits)
qed

abbreviation "example_repository \<equiv>
  \<lparr>sr_ref = Reference ''Repository'' ''x'', sr_desired = map_val
      [(''id'', scalar_val ''x''), (''url'', scalar_val ''h''), (''unsigned'', scalar_val ''true'')],
   sr_position = no_position\<rparr>"

lemma example_repository_passes: "validate example_repository [] = []"
  by (simp add: validate_Nil problems_def types_lookup check_fields_def check_required_def
      check_exclusive_def check_when_present_def check_type_rules_def check_repository_def present_def
      val_keys_def sorted_keys_def type_defs check_value_def valid_name_def name_rune_def max_name_length_def
      safe_text_def valid_utf8_def runes_def rune_value_def is_control_def is_bidi_control_def
      Let_def is_set_def lookup_val_def)

theorem accepted_repository_witness:
  "\<not> is_set (sr_desired example_repository) ''signingKey''"
  using accepted_repository [OF example_repository_passes]
  by (simp add: present_def lookup_val_def)


end
