(* ===== verification/Resolve.thy ===== *)
theory Resolve
  imports Match Merge Substitute Schema
begin

text \<open>
  The resolver, \<open>internal/resolve/resolve.go\<close>: from the documents of a repository and a host
  name to the effective manifest. The loop over layers and resources is a fold whose state holds
  the map of merged resources, the order in which they were first seen, the conflicts and the
  problems. The hash of the manifest digest is a parameter.
\<close>

section \<open>Definitions\<close>

record matched_layer =
  ml_name :: string
  ml_dir :: string
  ml_precedence :: int
  ml_reasons :: "reason list"

record resolved =
  rv_ref :: reference
  rv_desired :: val
  rv_requires :: "reference list"
  rv_restartOn :: "reference list"
  rv_reloadOn :: "reference list"
  rv_layers :: "string list"
  rv_layerDir :: string
  rv_used :: "used list"
  rv_position :: position

record manifest =
  mf_host :: string
  mf_revision :: string
  mf_layers :: "matched_layer list"
  mf_resources :: "resolved list"

record resolve_state =
  rs_merged :: "(reference \<times> resolved) list"
  rs_order :: "reference list"
  rs_conflicts :: "conflict list"
  rs_errs :: errors

subsection \<open>The digest\<close>

definition write_refs :: "string \<Rightarrow> reference list \<Rightarrow> string" where
  "write_refs name refs =
     (if refs = [] then []
      else '' '' @ name @ ''['' @ join_with '','' (map ref_string (sort_key ref_string refs)) @ '']'')"

definition digest_line :: "resolved \<Rightarrow> string" where
  "digest_line r =
     ref_string (rv_ref r) @ '' '' @ canonical (rv_desired r)
       @ write_refs ''requires'' (rv_requires r) @ write_refs ''restartOn'' (rv_restartOn r)
       @ write_refs ''reloadOn'' (rv_reloadOn r) @ [CHR 0x0A]"

definition digest_text :: "manifest \<Rightarrow> string" where
  "digest_text m = concat (map digest_line (mf_resources m))"

definition digest :: "(string \<Rightarrow> string) \<Rightarrow> manifest \<Rightarrow> string" where
  "digest sha256_hex m = ''sha256:'' @ sha256_hex (digest_text m)"

definition short_digest :: "(string \<Rightarrow> string) \<Rightarrow> manifest \<Rightarrow> string" where
  "short_digest sha256_hex m =
     ''sha256:'' @ take 8 (trim_prefix (digest sha256_hex m) ''sha256:'')"

subsection \<open>Hosts and layers\<close>

definition host_labels_of :: "host \<Rightarrow> (string \<times> string) list" where
  "host_labels_of h = AList.update host_label (host_name h) (host_labels h)"

definition find_host :: "doc_set \<Rightarrow> string \<Rightarrow> host option" where
  "find_host docs name = find (\<lambda>h. host_name h = name) (set_hosts docs)"

definition resources_in :: "doc_set \<Rightarrow> string \<Rightarrow> resource list" where
  "resources_in docs layer = filter (\<lambda>r. res_layer r = layer) (set_resources docs)"

definition matched_layers :: "layer list \<Rightarrow> (string \<times> string) list \<Rightarrow> matched_layer list" where
  "matched_layers ls labels =
     concat (map (\<lambda>l.
       let (ok, reasons) = evaluate (layer_match l) labels
       in if \<not> ok then []
          else [\<lparr>ml_name = layer_name l, ml_dir = layer_dir l, ml_precedence = layer_precedence l,
                 ml_reasons = reasons\<rparr>]) ls)"

definition layer_precedences :: "matched_layer list \<Rightarrow> (string \<times> int) list" where
  "layer_precedences ms = foldl (\<lambda>m l. AList.update (ml_name l) (ml_precedence l) m) [] ms"

definition layer_dirs :: "matched_layer list \<Rightarrow> (string \<times> string) list" where
  "layer_dirs ms = foldl (\<lambda>m l. AList.update (ml_name l) (ml_dir l) m) [] ms"

subsection \<open>The fold\<close>

definition merge_used :: "used list \<Rightarrow> used list \<Rightarrow> used list" where
  "merge_used existing incoming =
     sort_key used_placeholder
       (foldl (\<lambda>es u. if used_placeholder u \<in> used_placeholder ` set es then es else es @ [u])
         existing incoming)"

definition merge_resource ::
    "(string \<times> int) list \<Rightarrow> string \<Rightarrow> (string \<times> string) list \<Rightarrow> matched_layer \<Rightarrow> resolve_state \<Rightarrow> resource
      \<Rightarrow> resolve_state" where
  "merge_resource prec name labels layer st r =
     (let src = \<lparr>c_layer = ml_name layer, c_precedence = ml_precedence layer\<rparr>;
          (desired, sub) = subst_val name labels (res_desired r) new_sub;
          errs = foldl (\<lambda>es m. add_error es (res_position r) (SubstMsg (res_ref r) m))
                   (rs_errs st) (sub_errs sub)
      in case map_of (rs_merged st) (res_ref r) of
           None \<Rightarrow>
             st\<lparr>rs_errs := errs,
                rs_merged := AList.update (res_ref r)
                  \<lparr>rv_ref = res_ref r, rv_desired = stamp desired src, rv_requires = res_requires r,
                   rv_restartOn = res_restartOn r, rv_reloadOn = res_reloadOn r,
                   rv_layers = [ml_name layer], rv_layerDir = res_layerDir r,
                   rv_used = used_list sub, rv_position = res_position r\<rparr> (rs_merged st),
                rs_order := rs_order st @ [res_ref r]\<rparr>
         | Some existing \<Rightarrow>
             (let (v, cs) = merge prec (ref_string (res_ref r)) (rv_desired existing) desired src
                              (rs_conflicts st)
              in st\<lparr>rs_errs := errs,
                    rs_conflicts := cs,
                    rs_merged := AList.update (res_ref r)
                      (existing\<lparr>rv_desired := v,
                         rv_requires := merge_refs (rv_requires existing) (res_requires r),
                         rv_restartOn := merge_refs (rv_restartOn existing) (res_restartOn r),
                         rv_reloadOn := merge_refs (rv_reloadOn existing) (res_reloadOn r),
                         rv_layers := rv_layers existing @ [ml_name layer],
                         rv_used := merge_used (rv_used existing) (used_list sub)\<rparr>)
                      (rs_merged st)\<rparr>))"

definition merge_layer ::
    "doc_set \<Rightarrow> (string \<times> int) list \<Rightarrow> string \<Rightarrow> (string \<times> string) list \<Rightarrow> resolve_state \<Rightarrow> matched_layer
      \<Rightarrow> resolve_state" where
  "merge_layer docs prec name labels st layer =
     foldl (merge_resource prec name labels layer) st (resources_in docs (ml_name layer))"

definition path_fields :: "string list" where
  "path_fields = [''source'', ''template'']"

fun source_layer_dir :: "string list \<Rightarrow> val \<Rightarrow> (string \<times> string) list \<Rightarrow> string \<Rightarrow> string" where
  "source_layer_dir [] desired dirs fallback = fallback"
| "source_layer_dir (field # fs) desired dirs fallback =
     (case lookup_val desired field of
        None \<Rightarrow> source_layer_dir fs desired dirs fallback
      | Some value \<Rightarrow>
          if v_from value = [] then source_layer_dir fs desired dirs fallback
          else case map_of dirs (v_from value) of
            Some dir \<Rightarrow> dir
          | None \<Rightarrow> source_layer_dir fs desired dirs fallback)"

definition conflict_msg :: "conflict \<Rightarrow> msg" where
  "conflict_msg c =
     ConflictingValues (cf_field c) (cf_a_text c) (c_layer (cf_a c)) (c_precedence (cf_a c))
       (cf_b_text c) (c_layer (cf_b c)) (c_precedence (cf_b c))"

text \<open>The last loop: the layer directory, the two late checks and validation of one resource.\<close>

definition finish_resource ::
    "(string \<times> string) list \<Rightarrow> resolved \<Rightarrow> errors \<Rightarrow> resolved \<times> errors" where
  "finish_resource dirs r errs =
     (let r' = r\<lparr>rv_layerDir := source_layer_dir path_fields (rv_desired r) dirs (rv_layerDir r)\<rparr>;
          errs1 = (if rv_restartOn r' \<noteq> [] \<and> rv_reloadOn r' \<noteq> []
                   then add_error errs (rv_position r') (RestartAndReload (rv_ref r') (rv_layers r'))
                   else errs)
      in (r', validate \<lparr>sr_ref = rv_ref r', sr_desired = rv_desired r', sr_position = rv_position r'\<rparr> errs1))"

fun finish_all ::
    "(string \<times> string) list \<Rightarrow> resolved list \<Rightarrow> errors \<Rightarrow> resolved list \<times> errors" where
  "finish_all dirs [] errs = ([], errs)"
| "finish_all dirs (r # rs) errs =
     (let (r', errs1) = finish_resource dirs r errs;
          (rs', errs2) = finish_all dirs rs errs1
      in (r' # rs', errs2))"

text \<open>
  \<open>Host\<close>: an unknown host is an error with no manifest; otherwise the manifest comes with the
  sorted list of problems, if there are any.
\<close>

definition resolve_host ::
    "doc_set \<Rightarrow> string \<Rightarrow> string \<Rightarrow> msg + manifest \<times> errors option" where
  "resolve_host docs name revision =
     (case find_host docs name of
        None \<Rightarrow> Inl (NoHostDocument name)
      | Some h \<Rightarrow>
          (let labels = host_labels_of h;
               layers = matched_layers (set_layers docs) labels;
               st = foldl (merge_layer docs (layer_precedences layers) name labels)
                      \<lparr>rs_merged = [], rs_order = [], rs_conflicts = [], rs_errs = []\<rparr> layers;
               errs1 = foldl (\<lambda>es c. add_error es no_position (conflict_msg c))
                         (rs_errs st) (rs_conflicts st);
               (rs, errs2) = finish_all (layer_dirs layers)
                  (map (\<lambda>ref. the (map_of (rs_merged st) ref)) (rs_order st)) errs1
           in Inr (\<lparr>mf_host = name, mf_revision = revision, mf_layers = layers,
                    mf_resources = sort_key (\<lambda>r. ref_string (rv_ref r)) rs\<rparr>,
                   errors_err errs2)))"

section \<open>Specification\<close>

text \<open>
  The contributions to a host in fold order: the resources of each matched layer, layer by
  layer. \<open>tree_of\<close> is the desired state of a resource after substitution, and
  \<open>combine\<close> what one contribution makes of the resource merged so far.
\<close>

definition all_contributions :: "doc_set \<Rightarrow> host \<Rightarrow> (matched_layer \<times> resource) list" where
  "all_contributions docs h =
     concat (map (\<lambda>l. map (Pair l) (resources_in docs (ml_name l)))
       (matched_layers (set_layers docs) (host_labels_of h)))"

definition contributions :: "doc_set \<Rightarrow> host \<Rightarrow> reference \<Rightarrow> (matched_layer \<times> resource) list" where
  "contributions docs h ref = filter (\<lambda>(l, r). res_ref r = ref) (all_contributions docs h)"

definition tree_of :: "host \<Rightarrow> resource \<Rightarrow> val" where
  "tree_of h r = fst (subst_val (host_name h) (host_labels_of h) (res_desired r) new_sub)"

definition source_of :: "matched_layer \<Rightarrow> contribution" where
  "source_of l = \<lparr>c_layer = ml_name l, c_precedence = ml_precedence l\<rparr>"

fun combine ::
    "(string \<times> int) list \<Rightarrow> string \<Rightarrow> (string \<times> string) list \<Rightarrow> resolved option \<Rightarrow> matched_layer \<times> resource
      \<Rightarrow> resolved option" where
  "combine prec name labels None (l, r) =
     (let (desired, sub) = subst_val name labels (res_desired r) new_sub
      in Some \<lparr>rv_ref = res_ref r, rv_desired = stamp desired (source_of l), rv_requires = res_requires r,
           rv_restartOn = res_restartOn r, rv_reloadOn = res_reloadOn r,
           rv_layers = [ml_name l], rv_layerDir = res_layerDir r,
           rv_used = used_list sub, rv_position = res_position r\<rparr>)"
| "combine prec name labels (Some e) (l, r) =
     (let (desired, sub) = subst_val name labels (res_desired r) new_sub
      in Some (e\<lparr>rv_desired := fst (merge prec (ref_string (res_ref r)) (rv_desired e) desired (source_of l) []),
           rv_requires := merge_refs (rv_requires e) (res_requires r),
           rv_restartOn := merge_refs (rv_restartOn e) (res_restartOn r),
           rv_reloadOn := merge_refs (rv_reloadOn e) (res_reloadOn r),
           rv_layers := rv_layers e @ [ml_name l],
           rv_used := merge_used (rv_used e) (used_list sub)\<rparr>))"

text \<open>The conflicts that one contribution adds to those of the fold.\<close>

definition new_conflicts ::
    "(string \<times> int) list \<Rightarrow> string \<Rightarrow> (string \<times> string) list \<Rightarrow> resolved option \<Rightarrow> matched_layer \<times> resource
      \<Rightarrow> conflict list" where
  "new_conflicts prec name labels e c =
     (case e of None \<Rightarrow> []
      | Some e \<Rightarrow> snd (merge prec (ref_string (res_ref (snd c))) (rv_desired e)
          (fst (subst_val name labels (res_desired (snd c)) new_sub)) (source_of (fst c)) []))"

section \<open>Lemmas\<close>

abbreviation (input) "step prec name labels st c \<equiv> merge_resource prec name labels (fst c) st (snd c)"

lemma foldl_nested:
  "foldl (\<lambda>st l. foldl (f l) st (g l)) st ls
     = foldl (\<lambda>st c. f (fst c) st (snd c)) st (concat (map (\<lambda>l. map (Pair l) (g l)) ls))"
proof -
  have "foldl (\<lambda>st c. f (fst c) st (snd c)) st (map (Pair l) xs) = foldl (f l) st xs" for st l xs
    by (induction xs arbitrary: st) simp_all
  then show ?thesis by (induction ls arbitrary: st) simp_all
qed

lemma merge_layers_flat:
  "foldl (merge_layer docs prec name labels) st ls
     = foldl (step prec name labels) st (concat (map (\<lambda>l. map (Pair l) (resources_in docs (ml_name l))) ls))"
  using foldl_nested [of "merge_resource prec name labels" "\<lambda>l. resources_in docs (ml_name l)" st ls]
  by (simp add: merge_layer_def [abs_def])

lemma step_merged:
  "map_of (rs_merged (step prec name labels st c)) ref =
     (if res_ref (snd c) = ref then combine prec name labels (map_of (rs_merged st) ref) c
      else map_of (rs_merged st) ref)"
  by (cases c)
    (auto simp: merge_resource_def Let_def case_prod_beta update_conv' source_of_def
      merge_acc [of _ _ _ _ _ "rs_conflicts st"] split: option.splits)

lemma step_order:
  "rs_order (step prec name labels st c) =
     (if map_of (rs_merged st) (res_ref (snd c)) = None then rs_order st @ [res_ref (snd c)] else rs_order st)"
  by (simp add: merge_resource_def Let_def case_prod_beta split: option.splits)

lemma step_conflicts:
  "rs_conflicts (step prec name labels st c) =
     rs_conflicts st @ new_conflicts prec name labels (map_of (rs_merged st) (res_ref (snd c))) c"
  by (simp add: merge_resource_def Let_def case_prod_beta new_conflicts_def source_of_def
      merge_acc [of _ _ _ _ _ "rs_conflicts st"] split: option.splits)

lemma fold_merged:
  "map_of (rs_merged (foldl (step prec name labels) st cs)) ref =
     foldl (combine prec name labels) (map_of (rs_merged st) ref) (filter (\<lambda>(l, r). res_ref r = ref) cs)"
  by (induction cs arbitrary: st) (auto simp: step_merged)

lemma combine_not_None: "combine prec name labels e c \<noteq> None"
  by (cases e; cases c) (simp_all add: case_prod_beta Let_def)

lemma fold_order:
  assumes "set (rs_order st) = dom (map_of (rs_merged st))" "distinct (rs_order st)"
  shows "set (rs_order (foldl (step prec name labels) st cs)) = set (rs_order st) \<union> (res_ref \<circ> snd) ` set cs"
    and "distinct (rs_order (foldl (step prec name labels) st cs))"
    and "set (rs_order (foldl (step prec name labels) st cs))
           = dom (map_of (rs_merged (foldl (step prec name labels) st cs)))"
proof -
  have "set (rs_order (foldl (step prec name labels) st cs)) = set (rs_order st) \<union> (res_ref \<circ> snd) ` set cs
    \<and> distinct (rs_order (foldl (step prec name labels) st cs))
    \<and> set (rs_order (foldl (step prec name labels) st cs))
           = dom (map_of (rs_merged (foldl (step prec name labels) st cs)))"
    using assms
  proof (induction cs arbitrary: st)
    case (Cons c cs)
    let ?st = "step prec name labels st c"
    have "dom (map_of (rs_merged ?st)) = insert (res_ref (snd c)) (dom (map_of (rs_merged st)))"
      using combine_not_None by (fastforce simp: step_merged)
    moreover have o: "set (rs_order ?st) = insert (res_ref (snd c)) (set (rs_order st))"
      using Cons.prems by (auto simp: step_order)
    ultimately have "set (rs_order ?st) = dom (map_of (rs_merged ?st))" using Cons.prems by simp
    moreover have "distinct (rs_order ?st)" using Cons.prems by (auto simp: step_order)
    ultimately have ih: "set (rs_order (foldl (step prec name labels) ?st cs))
          = set (rs_order ?st) \<union> (res_ref \<circ> snd) ` set cs
        \<and> distinct (rs_order (foldl (step prec name labels) ?st cs))
        \<and> set (rs_order (foldl (step prec name labels) ?st cs))
           = dom (map_of (rs_merged (foldl (step prec name labels) ?st cs)))"
      by (rule Cons.IH)
    have "set (rs_order (foldl (step prec name labels) ?st cs))
        = set (rs_order st) \<union> (res_ref \<circ> snd) ` set (c # cs)"
      using conjunct1 [OF ih, unfolded o] by (rule trans) simp
    with conjunct2 [OF ih] show ?case unfolding foldl.simps by (rule conjI [rotated])
  qed simp
  then show "set (rs_order (foldl (step prec name labels) st cs)) = set (rs_order st) \<union> (res_ref \<circ> snd) ` set cs"
    and "distinct (rs_order (foldl (step prec name labels) st cs))"
    and "set (rs_order (foldl (step prec name labels) st cs))
           = dom (map_of (rs_merged (foldl (step prec name labels) st cs)))" by blast+
qed

lemma fold_conflicts_Nil:
  assumes "rs_conflicts (foldl (step prec name labels) st (xs @ c # ys)) = []"
  shows "new_conflicts prec name labels
    (map_of (rs_merged (foldl (step prec name labels) st xs)) (res_ref (snd c))) c = []"
proof -
  have "\<exists>ds. rs_conflicts (foldl (step prec name labels) st cs) = rs_conflicts st @ ds" for st cs
  proof (induction cs arbitrary: st)
    case (Cons c cs)
    from Cons [of "step prec name labels st c"] show ?case by (auto simp: step_conflicts)
  qed simp
  from this [of "step prec name labels (foldl (step prec name labels) st xs) c" ys] assms
  show ?thesis by (auto simp: step_conflicts)
qed

definition finished :: "(string \<times> string) list \<Rightarrow> resolved \<Rightarrow> resolved" where
  "finished dirs r = r\<lparr>rv_layerDir := source_layer_dir path_fields (rv_desired r) dirs (rv_layerDir r)\<rparr>"

definition schema_view :: "resolved \<Rightarrow> schema_resource" where
  "schema_view r = \<lparr>sr_ref = rv_ref r, sr_desired = rv_desired r, sr_position = rv_position r\<rparr>"

lemma finished_simps [simp]:
  "rv_ref (finished dirs r) = rv_ref r" "rv_desired (finished dirs r) = rv_desired r"
  "rv_requires (finished dirs r) = rv_requires r" "rv_restartOn (finished dirs r) = rv_restartOn r"
  "rv_reloadOn (finished dirs r) = rv_reloadOn r" "schema_view (finished dirs r) = schema_view r"
  by (simp_all add: finished_def schema_view_def)

lemma finish_resource_Nil:
  "fst (finish_resource dirs r errs) = finished dirs r"
  "snd (finish_resource dirs r errs) = [] \<longleftrightarrow>
     errs = [] \<and> validate (schema_view r) [] = [] \<and> (rv_restartOn r = [] \<or> rv_reloadOn r = [])"
  by (auto simp: finish_resource_def finished_def schema_view_def Let_def validate_eq add_error_def)

lemma finish_all_Nil:
  "fst (finish_all dirs rs errs) = map (finished dirs) rs"
  "snd (finish_all dirs rs errs) = [] \<longleftrightarrow> errs = [] \<and>
     (\<forall>r \<in> set rs. validate (schema_view r) [] = [] \<and> (rv_restartOn r = [] \<or> rv_reloadOn r = []))"
  by (induction rs arbitrary: errs) (auto simp: case_prod_beta Let_def finish_resource_Nil)

lemma fold_conflict_errors:
  "foldl (\<lambda>es c. add_error es p (f c)) errs cs = [] \<longleftrightarrow> errs = [] \<and> cs = []"
proof -
  have "foldl (\<lambda>es c. add_error es p (f c)) errs cs = errs @ map (\<lambda>c. \<lparr>err_pos = p, err_msg = f c\<rparr>) cs"
    by (induction cs arbitrary: errs) (simp_all add: add_error_def)
  then show ?thesis by simp
qed

lemma combine_ref:
  "foldl (combine prec name labels) e cs = Some r
    \<Longrightarrow> (\<forall>c \<in> set cs. res_ref (snd c) = ref) \<Longrightarrow> (\<forall>r0. e = Some r0 \<longrightarrow> rv_ref r0 = ref) \<Longrightarrow> rv_ref r = ref"
proof (induction cs arbitrary: e)
  case (Cons c cs)
  have "\<forall>r0. combine prec name labels e c = Some r0 \<longrightarrow> rv_ref r0 = ref"
    using Cons.prems(2,3) by (cases e; cases c) (auto simp: case_prod_beta Let_def)
  then show ?case using Cons.IH [of "combine prec name labels e c"] Cons.prems by auto
qed simp

text \<open>What a resolution that reports no problem produced.\<close>

abbreviation "init_state \<equiv> \<lparr>rs_merged = [], rs_order = [], rs_conflicts = [], rs_errs = []\<rparr>"

definition final_state :: "doc_set \<Rightarrow> host \<Rightarrow> resolve_state" where
  "final_state docs h =
     foldl (step (layer_precedences (matched_layers (set_layers docs) (host_labels_of h)))
       (host_name h) (host_labels_of h)) init_state (all_contributions docs h)"

definition merged_of :: "doc_set \<Rightarrow> host \<Rightarrow> reference \<Rightarrow> resolved option" where
  "merged_of docs h ref =
     foldl (combine (layer_precedences (matched_layers (set_layers docs) (host_labels_of h)))
       (host_name h) (host_labels_of h)) None (contributions docs h ref)"

lemma resolve_host_result:
  assumes "resolve_host docs name revision = Inr (m, e)"
  shows "\<exists>h dirs. find_host docs name = Some h \<and> host_name h = name
    \<and> mf_layers m = matched_layers (set_layers docs) (host_labels_of h)
    \<and> mf_resources m = sort_key (\<lambda>r. ref_string (rv_ref r))
        (map (\<lambda>ref. finished dirs (the (merged_of docs h ref))) (rs_order (final_state docs h)))
    \<and> (e = None \<longrightarrow> rs_conflicts (final_state docs h) = []
        \<and> (\<forall>r \<in> set (mf_resources m). validate (schema_view r) [] = []
             \<and> (rv_restartOn r = [] \<or> rv_reloadOn r = [])))"
proof -
  from assms obtain h where h: "find_host docs name = Some h" and n: "host_name h = name"
    by (auto simp: resolve_host_def find_host_def find_Some_iff split: option.splits)
  let ?layers = "matched_layers (set_layers docs) (host_labels_of h)"
  have st: "foldl (merge_layer docs (layer_precedences ?layers) name (host_labels_of h)) init_state ?layers
      = final_state docs h"
    by (simp add: merge_layers_flat final_state_def all_contributions_def n)
  have mo: "map_of (rs_merged (final_state docs h)) ref = merged_of docs h ref" for ref
    by (simp add: final_state_def fold_merged merged_of_def contributions_def)
  show ?thesis
    using assms n
    by (intro exI [of _ h] exI [of _ "layer_dirs ?layers"])
      (auto simp: resolve_host_def h st Let_def case_prod_beta finish_all_Nil fold_conflict_errors
        errors_err_def mo comp_def split: if_splits, blast?)
qed

lemma final_order:
  "set (rs_order (final_state docs h)) = (res_ref \<circ> snd) ` set (all_contributions docs h)"
  "distinct (rs_order (final_state docs h))"
  "merged_of docs h ref = Some r \<Longrightarrow> rv_ref r = ref"
  "ref \<in> set (rs_order (final_state docs h)) \<Longrightarrow> \<exists>r. merged_of docs h ref = Some r"
proof -
  note o = fold_order [of init_state]
  show "set (rs_order (final_state docs h)) = (res_ref \<circ> snd) ` set (all_contributions docs h)"
    unfolding final_state_def by (subst o) simp_all
  show "distinct (rs_order (final_state docs h))"
    unfolding final_state_def by (rule o) simp_all
  show "rv_ref r = ref" if "merged_of docs h ref = Some r"
    using that unfolding merged_of_def by (rule combine_ref) (auto simp: contributions_def)
  show "\<exists>r. merged_of docs h ref = Some r" if "ref \<in> set (rs_order (final_state docs h))"
  proof -
    from that have "ref \<in> dom (map_of (rs_merged (final_state docs h)))"
      unfolding final_state_def by (subst (asm) o(3)) simp_all
    then show ?thesis
      by (auto simp: final_state_def fold_merged merged_of_def contributions_def)
  qed
qed

lemma manifest_resources:
  assumes "resolve_host docs name revision = Inr (m, e)"
  shows "\<exists>h dirs. find_host docs name = Some h \<and> host_name h = name
    \<and> mf_layers m = matched_layers (set_layers docs) (host_labels_of h)
    \<and> sorted (map (\<lambda>r. ref_string (rv_ref r)) (mf_resources m))
    \<and> distinct (map rv_ref (mf_resources m))
    \<and> rv_ref ` set (mf_resources m) = (res_ref \<circ> snd) ` set (all_contributions docs h)
    \<and> (\<forall>r \<in> set (mf_resources m). \<exists>r0. merged_of docs h (rv_ref r) = Some r0 \<and> r = finished dirs r0)
    \<and> (e = None \<longrightarrow> rs_conflicts (final_state docs h) = []
        \<and> (\<forall>r \<in> set (mf_resources m). validate (schema_view r) [] = []
             \<and> (rv_restartOn r = [] \<or> rv_reloadOn r = [])))"
proof -
  obtain h dirs where h: "find_host docs name = Some h" "host_name h = name"
      "mf_layers m = matched_layers (set_layers docs) (host_labels_of h)"
    and r: "mf_resources m = sort_key (\<lambda>r. ref_string (rv_ref r))
        (map (\<lambda>ref. finished dirs (the (merged_of docs h ref))) (rs_order (final_state docs h)))"
    and e: "e = None \<longrightarrow> rs_conflicts (final_state docs h) = []
        \<and> (\<forall>r \<in> set (mf_resources m). validate (schema_view r) [] = []
             \<and> (rv_restartOn r = [] \<or> rv_reloadOn r = []))"
    using resolve_host_result [OF assms] by blast
  let ?order = "rs_order (final_state docs h)"
  have refs: "map (rv_ref \<circ> (\<lambda>ref. finished dirs (the (merged_of docs h ref)))) ?order = ?order"
    by (rule map_idI) (use final_order(3,4) in fastforce)
  have ms: "mset (map rv_ref (mf_resources m)) = mset ?order"
    using refs by (simp add: r) (metis image_mset.compositionality mset_map)
  then have "distinct (map rv_ref (mf_resources m))"
    using final_order(2) [of docs h] by (metis mset_eq_imp_distinct_iff)
  moreover have "rv_ref ` set (mf_resources m) = set ?order"
    using ms by (metis list.set_map mset_eq_setD)
  moreover have "\<exists>r0. merged_of docs h (rv_ref x) = Some r0 \<and> x = finished dirs r0"
    if x: "x \<in> set (mf_resources m)" for x
  proof -
    from x obtain ref where "ref \<in> set ?order" "x = finished dirs (the (merged_of docs h ref))"
      by (auto simp: r)
    then show ?thesis using final_order(3,4) by fastforce
  qed
  ultimately show ?thesis
    using h e final_order(1) [of docs h] by (intro exI [of _ h] exI [of _ dirs]) (simp add: r)
qed

text \<open>References accumulate over the contributions.\<close>

lemma combine_refs:
  assumes "foldl (combine prec name labels) e cs = Some r"
  shows "set (rv_requires r) =
      (case e of None \<Rightarrow> {} | Some r0 \<Rightarrow> set (rv_requires r0)) \<union> (\<Union>c \<in> set cs. set (res_requires (snd c)))"
    and "rv_layers r = (case e of None \<Rightarrow> [] | Some r0 \<Rightarrow> rv_layers r0) @ map (ml_name \<circ> fst) cs"
  using assms
proof (induction cs arbitrary: e)
  case (Cons c cs)
  { case 1
    then show ?case using Cons(1) [of "combine prec name labels e c"]
      by (cases e; cases c) (auto simp: case_prod_beta Let_def)
  next
    case 2
    then show ?case using Cons(2) [of "combine prec name labels e c"]
      by (cases e; cases c) (auto simp: case_prod_beta Let_def)
  }
qed simp_all

text \<open>Substitution keeps the shape of a tree.\<close>

lemma subst_val_keys: "map fst (fst (subst_fields h l fs st)) = map fst fs"
  by (induction fs arbitrary: st) (auto simp: case_prod_beta Let_def)

lemma subst_val_wf:
  "wf_val (fst (subst_val h l v st)) = wf_val v"
  "list_all wf_val (fst (subst_vals h l vs st)) = list_all wf_val vs"
  "list_all (\<lambda>(k, v). wf_val v) (fst (subst_fields h l fs st)) = list_all (\<lambda>(k, v). wf_val v) fs"
proof (induction h l v st and h l vs st and h l fs st rule: subst_val_subst_vals_subst_fields.induct)
  case (1 h l k s q vs m fr d st)
  then show ?case
    by (cases k) (auto simp: case_prod_beta Let_def list_all_iff wf_map_def subst_val_keys)
next
  case (3 h l v vs st)
  then show ?case using 3(2) [OF refl prod.collapse] by (simp add: case_prod_beta Let_def)
next
  case (5 h l key v fs st)
  then show ?case using 5(2) [OF refl prod.collapse] by (simp add: case_prod_beta Let_def)
qed simp_all

text \<open>The desired state along a path where the later contributions say nothing.\<close>

lemma combine_desired:
  "combine prec (host_name h) (host_labels_of h) (Some e) c = Some e'
    \<Longrightarrow> rv_desired e' = fst (merge prec (ref_string (res_ref (snd c))) (rv_desired e)
          (tree_of h (snd c)) (source_of (fst c)) [])"
  by (cases c) (auto simp: tree_of_def case_prod_beta Let_def)

lemma combine_first:
  "combine prec (host_name h) (host_labels_of h) None c = Some e
    \<Longrightarrow> rv_desired e = stamp (tree_of h (snd c)) (source_of (fst c))"
  by (cases c) (auto simp: tree_of_def case_prod_beta Let_def)

lemma combine_open:
  assumes "foldl (combine prec (host_name h) (host_labels_of h)) e cs = Some r"
    and "\<forall>c \<in> set cs. wf_val (tree_of h (snd c)) \<and> open_along (tree_of h (snd c)) path"
    and "\<forall>r0. e = Some r0 \<longrightarrow> open_along (rv_desired r0) path"
  shows "open_along (rv_desired r) path"
  using assms
proof (induction cs arbitrary: e)
  case (Cons c cs)
  have "\<forall>r0. combine prec (host_name h) (host_labels_of h) e c = Some r0 \<longrightarrow> open_along (rv_desired r0) path"
    using Cons.prems(2,3) merge_open
    by (cases e) (auto dest: combine_desired combine_first)
  then show ?case using Cons by simp
qed simp

lemma combine_silent:
  assumes "foldl (combine prec (host_name h) (host_labels_of h)) (Some e) cs = Some r"
    and "\<forall>c \<in> set cs. wf_val (tree_of h (snd c)) \<and> open_along (tree_of h (snd c)) path
           \<and> lookup_parts (tree_of h (snd c)) path = None"
    and "open_along (rv_desired e) path"
  shows "lookup_parts (rv_desired r) path = lookup_parts (rv_desired e) path"
  using assms
proof (induction cs arbitrary: e)
  case (Cons c cs)
  obtain e' where e': "combine prec (host_name h) (host_labels_of h) (Some e) c = Some e'"
    using combine_not_None by fastforce
  have "lookup_parts (rv_desired e') path = lookup_parts (rv_desired e) path"
    "open_along (rv_desired e') path"
    unfolding combine_desired [OF e'] using Cons.prems merge_silent merge_open by simp_all
  then show ?case using Cons.IH [of e'] Cons.prems e' by simp
qed simp

text \<open>The text that is hashed determines the manifest.\<close>

definition plain_ref :: "reference \<Rightarrow> bool" where
  "plain_ref r \<longleftrightarrow> ref_type r \<noteq> [] \<and> CHR ''['' \<notin> set (ref_type r) \<and> CHR '']'' \<notin> set (ref_name r)
     \<and> hd (ref_type r) \<noteq> CHR '']''"

definition plain_resolved :: "resolved \<Rightarrow> bool" where
  "plain_resolved r \<longleftrightarrow> utf8_val (rv_desired r)
     \<and> list_all plain_ref (rv_ref r # rv_requires r @ rv_restartOn r @ rv_reloadOn r)"

text \<open>What two resources have in common when they give the same instructions.\<close>

definition same_instructions :: "resolved \<Rightarrow> resolved \<Rightarrow> bool" where
  "same_instructions a b \<longleftrightarrow> rv_ref a = rv_ref b \<and> plain (rv_desired a) = plain (rv_desired b)
     \<and> mset (rv_requires a) = mset (rv_requires b) \<and> mset (rv_restartOn a) = mset (rv_restartOn b)
     \<and> mset (rv_reloadOn a) = mset (rv_reloadOn b)"

lemma ref_string_unique:
  assumes "plain_ref a" "plain_ref b" "ref_string a @ s = ref_string b @ t"
  shows "a = b \<and> s = t"
proof -
  have ty: "takeWhile (\<lambda>c. c \<noteq> CHR ''['') (ref_string r @ u) = ref_type r"
    "drop (Suc (length (ref_type r))) (ref_string r @ u) = ref_name r @ CHR '']'' # u"
    if "plain_ref r" for r u
  proof -
    show "takeWhile (\<lambda>c. c \<noteq> CHR ''['') (ref_string r @ u) = ref_type r"
      unfolding ref_string_def append_assoc
      by (subst takeWhile_append2) (use that in \<open>auto simp: plain_ref_def\<close>)
    show "drop (Suc (length (ref_type r))) (ref_string r @ u) = ref_name r @ CHR '']'' # u"
      by (simp add: ref_string_def)
  qed
  have nm: "takeWhile (\<lambda>c. c \<noteq> CHR '']'') (ref_name r @ CHR '']'' # u) = ref_name r"
    if "plain_ref r" for r u
    by (subst takeWhile_append2) (use that in \<open>auto simp: plain_ref_def\<close>)
  have t: "ref_type a = ref_type b"
    using ty(1) [OF assms(1), of s] ty(1) [OF assms(2), of t] assms(3) by metis
  then have n: "ref_name a @ CHR '']'' # s = ref_name b @ CHR '']'' # t"
    using ty(2) [OF assms(1), of s] ty(2) [OF assms(2), of t] assms(3) by metis
  then have "ref_name a = ref_name b"
    using nm [OF assms(1), of s] nm [OF assms(2), of t] by metis
  with t n show ?thesis by (cases a; cases b) simp
qed

lemma write_refs_unique:
  assumes "list_all plain_ref xs" "list_all plain_ref ys"
    and "write_refs name xs @ s = write_refs name ys @ t"
    and "\<not> has_prefix s ('' '' @ name @ ''['')" "\<not> has_prefix t ('' '' @ name @ ''['')"
  shows "mset xs = mset ys \<and> s = t"
proof -
  have head: "has_prefix (write_refs name zs @ u) ('' '' @ name @ ''['')" if "zs \<noteq> []" for zs u
    using that by (simp add: write_refs_def has_prefix_def)
  show ?thesis
  proof (cases "xs = [] \<or> ys = []")
    case True
    then show ?thesis
      using head [of xs s] head [of ys t] assms(3-5) by (cases "xs = []"; cases "ys = []") (auto simp: write_refs_def)
  next
    case False
    let ?xs = "sort_key ref_string xs" and ?ys = "sort_key ref_string ys"
    have plain: "plain_ref x" if "x \<in> set ?xs \<union> set ?ys" for x
      using that assms(1,2) by (auto simp: list_all_iff)
    have "list_all2 (=) ?xs ?ys \<and> s = t"
    proof (rule items_unique [where f = ref_string and c = "CHR '']''"])
      show "join_with '','' (map ref_string ?xs) @ CHR '']'' # s
          = join_with '','' (map ref_string ?ys) @ CHR '']'' # t"
        using assms(3) False by (simp add: write_refs_def)
      show "x = y \<and> u = v" if "x \<in> set ?xs" "y \<in> set ?ys" "ref_string x @ u = ref_string y @ v" for x y u v
        using ref_string_unique [OF _ _ that(3)] plain that by blast
      show "ref_string x \<noteq> [] \<and> hd (ref_string x) \<noteq> CHR '']''" if "x \<in> set ?xs \<union> set ?ys" for x
        using plain [OF that] by (auto simp: ref_string_def plain_ref_def)
    qed simp
    then show ?thesis by (metis list_all2_eq mset_sort)
  qed
qed

lemma has_prefix_other:
  assumes "length p = length q" "p \<noteq> q" "has_prefix s p" shows "\<not> has_prefix s q"
  using assms by (auto simp: has_prefix_def)

lemma digest_line_unique:
  assumes "plain_resolved a" "plain_resolved b" "digest_line a @ s = digest_line b @ t"
  shows "same_instructions a b \<and> s = t"
proof -
  let ?l = "\<lambda>r u. write_refs ''reloadOn'' (rv_reloadOn r) @ CHR 0x0A # u"
  let ?n = "\<lambda>r u. write_refs ''restartOn'' (rv_restartOn r) @ ?l r u"
  let ?q = "\<lambda>r u. write_refs ''requires'' (rv_requires r) @ ?n r u"
  have p: "plain_ref (rv_ref r)" "list_all plain_ref (rv_requires r)"
      "list_all plain_ref (rv_restartOn r)" "list_all plain_ref (rv_reloadOn r)" "utf8_val (rv_desired r)"
    if "r \<in> {a, b}" for r
    using that assms(1,2) by (auto simp: plain_resolved_def)
  have no: "\<not> has_prefix (CHR 0x0A # u) ('' '' @ ''reloadOn'' @ ''['')"
    "\<not> has_prefix (?l r u) ('' '' @ ''restartOn'' @ ''['')"
    "\<not> has_prefix (?n r u) ('' '' @ ''requires'' @ ''['')" for r u
    by (simp_all add: has_prefix_def write_refs_def)
  have "ref_string (rv_ref a) @ CHR '' '' # canonical (rv_desired a) @ ?q a s
      = ref_string (rv_ref b) @ CHR '' '' # canonical (rv_desired b) @ ?q b t"
    using assms(3) by (simp add: digest_line_def)
  with ref_string_unique [OF p(1) p(1)] have ref: "rv_ref a = rv_ref b"
    and "canonical (rv_desired a) @ ?q a s = canonical (rv_desired b) @ ?q b t" by blast+
  with canonical_unique [OF p(5) p(5)] have plain: "plain (rv_desired a) = plain (rv_desired b)"
    and 1: "?q a s = ?q b t" by blast+
  from write_refs_unique [OF p(2) p(2) 1 no(3) no(3)]
  have req: "mset (rv_requires a) = mset (rv_requires b)" and 2: "?n a s = ?n b t" by simp_all
  from write_refs_unique [OF p(3) p(3) 2 no(2) no(2)]
  have res: "mset (rv_restartOn a) = mset (rv_restartOn b)" and 3: "?l a s = ?l b t" by simp_all
  from write_refs_unique [OF p(4) p(4) 3 no(1) no(1)]
  have "mset (rv_reloadOn a) = mset (rv_reloadOn b)" and "s = t" by simp_all
  with ref plain req res show ?thesis by (simp add: same_instructions_def)
qed

lemma digest_line_not_Nil: "digest_line r \<noteq> []"
  by (simp add: digest_line_def)

lemma digest_lines_unique:
  assumes "list_all plain_resolved xs" "list_all plain_resolved ys"
    and "concat (map digest_line xs) = concat (map digest_line ys)"
  shows "list_all2 same_instructions xs ys"
  using assms
proof (induction xs arbitrary: ys)
  case Nil
  then show ?case using digest_line_not_Nil by (cases ys) auto
next
  case (Cons x xs)
  then obtain y ys' where ys: "ys = y # ys'" using digest_line_not_Nil by (cases ys) auto
  with Cons.prems digest_line_unique [of x y "concat (map digest_line xs)" "concat (map digest_line ys')"]
  show ?case using Cons.IH [of ys'] by simp
qed

lemma filter_split:
  "filter P zs = b @ c # a \<Longrightarrow> \<exists>xs ys. zs = xs @ c # ys \<and> filter P xs = b \<and> filter P ys = a \<and> P c"
proof (induction zs arbitrary: b)
  case (Cons z zs)
  show ?case
  proof (cases "P z \<and> b = []")
    case True
    with Cons.prems show ?thesis by (intro exI [of _ "[]"] exI [of _ zs]) auto
  next
    case False
    with Cons.prems obtain b' where "filter P zs = b' @ c # a" "b = (if P z then z # b' else b')"
      by (cases b) (auto split: if_splits)
    with Cons.IH obtain xs ys where "zs = xs @ c # ys" "filter P xs = b'" "filter P ys = a" "P c" by blast
    with \<open>b = _\<close> show ?thesis by (intro exI [of _ "z # xs"] exI [of _ ys]) simp
  qed
qed simp

lemma matched_layer_names:
  assumes "\<forall>l \<in> set ls. wf_matcher (layer_match l)"
  shows "map ml_name (matched_layers ls labels)
    = map layer_name (filter (\<lambda>l. selects (layer_match l) (map_of labels)) ls)"
  using assms by (induction ls) (auto simp: matched_layers_def evaluate_eq)

lemma snd_contributions:
  "snd ` set (all_contributions docs h) = {r \<in> set (set_resources docs).
     res_layer r \<in> ml_name ` set (matched_layers (set_layers docs) (host_labels_of h))}"
  (is "?lhs = ?rhs")
proof (rule set_eqI)
  fix r
  have "r \<in> ?lhs \<longleftrightarrow> (\<exists>l \<in> set (matched_layers (set_layers docs) (host_labels_of h)).
      r \<in> set (resources_in docs (ml_name l)))"
    by (simp add: all_contributions_def image_UN image_image)
  then show "r \<in> ?lhs \<longleftrightarrow> r \<in> ?rhs" by (auto simp: resources_in_def)
qed

text \<open>One contribution of a fold without conflicts leaves its own value at the path it sets.\<close>

lemma combine_sets:
  assumes "combine prec (host_name h) (host_labels_of h) e c = Some e1"
    and "new_conflicts prec (host_name h) (host_labels_of h) e c = []"
    and "wf_val (tree_of h (snd c))" "leaf_at (tree_of h (snd c)) path x"
    and "\<forall>e0. e = Some e0 \<longrightarrow> open_along (rv_desired e0) path"
  shows "\<exists>w. lookup_parts (rv_desired e1) path = Some w \<and> render w = render x"
proof (cases e)
  case None
  then show ?thesis
    using combine_first assms(1,4) by (auto simp: lookup_stamp leaf_at_def)
next
  case (Some e0)
  then have "snd (merge prec (ref_string (res_ref (snd c))) (rv_desired e0) (tree_of h (snd c)) (source_of (fst c)) []) = []"
    using assms(2) by (simp add: new_conflicts_def tree_of_def)
  from merge_leaf [OF this assms(3,4)] show ?thesis
    using combine_desired [OF assms(1) [unfolded Some]] assms(5) Some by simp
qed

lemma tree_wf:
  assumes "\<forall>d \<in> set (set_resources docs). wf_val (res_desired d)" "c \<in> set (contributions docs h ref)"
  shows "wf_val (tree_of h (snd c))"
proof -
  have "snd c \<in> snd ` set (all_contributions docs h)" using assms(2) by (simp add: contributions_def)
  then show ?thesis using assms(1) by (simp add: snd_contributions tree_of_def subst_val_wf)
qed

text \<open>In a fold without conflicts no contribution meets one.\<close>

lemma no_new_conflicts:
  assumes "rs_conflicts (final_state docs h) = []" "contributions docs h ref = before @ c # after"
  defines "prec \<equiv> layer_precedences (matched_layers (set_layers docs) (host_labels_of h))"
  shows "new_conflicts prec (host_name h) (host_labels_of h)
    (foldl (combine prec (host_name h) (host_labels_of h)) None before) c = []"
proof -
  from filter_split [OF assms(2) [unfolded contributions_def]] obtain xs ys where
    all: "all_contributions docs h = xs @ c # ys"
    and xs: "filter (\<lambda>(l, r). res_ref r = ref) xs = before"
    and ref: "res_ref (snd c) = ref"
    by auto
  have "map_of (rs_merged (foldl (step prec (host_name h) (host_labels_of h)) init_state xs)) ref
      = foldl (combine prec (host_name h) (host_labels_of h)) None before"
    by (simp add: fold_merged xs)
  then show ?thesis
    using fold_conflicts_Nil [OF assms(1) [unfolded final_state_def all, folded prec_def]] by (simp add: ref)
qed

section \<open>Properties\<close>

text \<open>
  C34: the digest is faithful. When the text that is hashed is the same for two manifests, they
  hold the same resources in the same order, with the same desired values, provenance aside,
  and the same references: equal digests mean equal instructions, short of a hash collision.
\<close>

theorem digest_faithful:
  assumes "list_all plain_resolved (mf_resources m)" "list_all plain_resolved (mf_resources m')"
    and "digest_text m = digest_text m'"
  shows "list_all2 same_instructions (mf_resources m) (mf_resources m')"
  using digest_lines_unique assms by (simp add: digest_text_def)

text \<open>
  C5: the manifest holds exactly the resources of the layers that select the host. Its
  resources are sorted by reference, each reference occurs once, and a reference occurs if and
  only if some resource of a matching layer has it; the layers recorded are those whose matcher
  selects the host's labels, in the order of the fold.
\<close>

theorem manifest_exact:
  assumes "resolve_host docs name revision = Inr (m, e)" "find_host docs name = Some h"
    and "\<forall>l \<in> set (set_layers docs). wf_matcher (layer_match l)"
  shows "sorted (map (\<lambda>r. ref_string (rv_ref r)) (mf_resources m))
    \<and> distinct (map rv_ref (mf_resources m))
    \<and> rv_ref ` set (mf_resources m) =
        {res_ref r | r l. r \<in> set (set_resources docs) \<and> l \<in> set (set_layers docs)
           \<and> res_layer r = layer_name l \<and> selects (layer_match l) (map_of (host_labels_of h))}
    \<and> map ml_name (mf_layers m) = map layer_name
        (filter (\<lambda>l. selects (layer_match l) (map_of (host_labels_of h))) (set_layers docs))"
proof -
  from manifest_resources [OF assms(1)] assms(2)
  have r: "sorted (map (\<lambda>r. ref_string (rv_ref r)) (mf_resources m))" "distinct (map rv_ref (mf_resources m))"
    "rv_ref ` set (mf_resources m) = (res_ref \<circ> snd) ` set (all_contributions docs h)"
    "mf_layers m = matched_layers (set_layers docs) (host_labels_of h)" by auto
  note n = matched_layer_names [OF assms(3), of "host_labels_of h"]
  have "ml_name ` set (matched_layers (set_layers docs) (host_labels_of h))
      = layer_name ` {l \<in> set (set_layers docs). selects (layer_match l) (map_of (host_labels_of h))}"
    using arg_cong [OF n, of set] by simp
  then have "(res_ref \<circ> snd) ` set (all_contributions docs h) =
      res_ref ` {r \<in> set (set_resources docs).
        res_layer r \<in> layer_name ` {l \<in> set (set_layers docs). selects (layer_match l) (map_of (host_labels_of h))}}"
    unfolding image_comp [symmetric] snd_contributions by (rule arg_cong)
  also have "\<dots> = {res_ref r | r l. r \<in> set (set_resources docs) \<and> l \<in> set (set_layers docs)
      \<and> res_layer r = layer_name l \<and> selects (layer_match l) (map_of (host_labels_of h))}" by blast
  finally have refs: "rv_ref ` set (mf_resources m) = {res_ref r | r l. r \<in> set (set_resources docs)
      \<and> l \<in> set (set_layers docs) \<and> res_layer r = layer_name l
      \<and> selects (layer_match l) (map_of (host_labels_of h))}"
    unfolding r(3) .
  have "map ml_name (mf_layers m) = map layer_name
      (filter (\<lambda>l. selects (layer_match l) (map_of (host_labels_of h))) (set_layers docs))"
    unfolding r(4) by (rule n)
  with r(1,2) refs show ?thesis by (intro conjI)
qed

text \<open>
  C25: a manifest without problems can be used as it is. Every resource in it passes the
  validation of its type, so C5 to C8 hold of it, none has both restartOn and reloadOn, and
  each requires the union of what its contributions require: no layer removes a dependency
  declared in another one.
\<close>

theorem manifest_valid:
  assumes "resolve_host docs name revision = Inr (m, None)" "find_host docs name = Some h"
    and "r \<in> set (mf_resources m)"
  shows "validate \<lparr>sr_ref = rv_ref r, sr_desired = rv_desired r, sr_position = rv_position r\<rparr> [] = []
    \<and> (rv_restartOn r = [] \<or> rv_reloadOn r = [])
    \<and> set (rv_requires r) = (\<Union>c \<in> set (contributions docs h (rv_ref r)). set (res_requires (snd c)))"
proof -
  from manifest_resources [OF assms(1)] assms(2,3) obtain dirs r0 where
    r: "merged_of docs h (rv_ref r) = Some r0" "r = finished dirs r0"
    and v: "validate (schema_view r) [] = []" "rv_restartOn r = [] \<or> rv_reloadOn r = []" by fastforce
  from combine_refs(1) [OF r(1) [unfolded merged_of_def]] have
    "set (rv_requires r) = (\<Union>c \<in> set (contributions docs h (rv_ref r)). set (res_requires (snd c)))"
    by (simp add: r(2))
  with v show ?thesis by (simp add: schema_view_def)
qed

text \<open>
  C6: the last layer that sets a value wins. In a manifest without problems, take the
  contributions to a resource in the order of the fold and the last one that sets a path to
  something other than a map, the later ones saying nothing about it. Then the resource has a
  value at that path, and it reads as that contribution wrote it for this host.
\<close>

theorem last_layer_wins:
  assumes "resolve_host docs name revision = Inr (m, None)" "find_host docs name = Some h"
    and "r \<in> set (mf_resources m)" "\<forall>d \<in> set (set_resources docs). wf_val (res_desired d)"
    and "contributions docs h (rv_ref r) = before @ c # after"
    and "leaf_at (tree_of h (snd c)) path x"
    and "\<forall>c' \<in> set after. lookup_parts (tree_of h (snd c')) path = None"
    and "\<forall>c' \<in> set (contributions docs h (rv_ref r)). open_along (tree_of h (snd c')) path"
  shows "\<exists>w. lookup_parts (rv_desired r) path = Some w \<and> render w = render x"
proof -
  let ?prec = "layer_precedences (matched_layers (set_layers docs) (host_labels_of h))"
  let ?combine = "combine ?prec (host_name h) (host_labels_of h)"
  from manifest_resources [OF assms(1)] assms(2,3) obtain dirs r0 where
    r: "merged_of docs h (rv_ref r) = Some r0" "r = finished dirs r0"
    and none: "rs_conflicts (final_state docs h) = []" by fastforce
  have wf: "wf_val (tree_of h (snd c'))" if "c' \<in> set (before @ c # after)" for c'
    using tree_wf [OF assms(4)] that assms(5) by metis
  define e where "e = foldl ?combine None before"
  define e1 where "e1 = the (?combine e c)"
  have e1: "?combine e c = Some e1" using combine_not_None unfolding e1_def by (metis option.collapse)
  then have e1': "foldl ?combine None (before @ [c]) = Some e1" by (simp add: e_def)
  have last: "foldl ?combine (Some e1) after = Some r0"
    using r(1) e1 unfolding merged_of_def assms(5) by (simp add: e_def)
  have before: "open_along (rv_desired e0) path" if "e = Some e0" for e0
    by (rule combine_open [OF that [unfolded e_def]]) (use assms(5,8) wf in auto)
  have at: "\<exists>w. lookup_parts (rv_desired e1) path = Some w \<and> render w = render x"
    by (rule combine_sets [OF e1 no_new_conflicts [OF none assms(5), folded e_def] _ assms(6)])
      (use wf before in auto)
  have "open_along (rv_desired e1) path"
    by (rule combine_open [OF e1']) (use assms(5,8) wf in auto)
  with combine_silent [OF last] assms(5,7,8) wf have
    "lookup_parts (rv_desired r0) path = lookup_parts (rv_desired e1) path" by simp
  with at show ?thesis by (simp add: r(2))
qed

text \<open>A small repository, for the instances below.\<close>

definition example_docs :: doc_set where
  "example_docs = \<lparr>
     set_fleet = \<lparr>fleet_name = ''f'', fleet_exclude = [], fleet_position = no_position, fleet_schema = ''v1alpha1''\<rparr>,
     set_hosts = [\<lparr>host_name = ''a'', host_labels = [(''role'', ''web'')], host_position = no_position, host_schema = ''v1alpha1''\<rparr>],
     set_layers =
       [\<lparr>layer_name = ''base'', layer_precedence = 10, layer_match =
           \<lparr>m_labels = [], m_oneOf = [], m_noneOf = [], m_has = [], m_missing = []\<rparr>,
          layer_position = no_position, layer_schema = ''v1alpha1'', layer_dir = ''base''\<rparr>,
        \<lparr>layer_name = ''web'', layer_precedence = 20, layer_match =
           \<lparr>m_labels = [(''role'', ''web'')], m_oneOf = [], m_noneOf = [], m_has = [], m_missing = []\<rparr>,
          layer_position = no_position, layer_schema = ''v1alpha1'', layer_dir = ''web''\<rparr>],
     set_resources =
       [\<lparr>res_type = ''Sysctl'', res_name = ''x'', res_requires = [], res_restartOn = [], res_reloadOn = [],
          res_desired = map_val [(''value'', scalar_val ''1'')], res_position = no_position,
          res_schema = ''v1alpha1'', res_layer = ''base'', res_layerDir = ''base''\<rparr>,
        \<lparr>res_type = ''Sysctl'', res_name = ''x'', res_requires = [Reference ''Package'' ''p''], res_restartOn = [],
          res_reloadOn = [], res_desired = map_val [(''value'', scalar_val ''2'')], res_position = no_position,
          res_schema = ''v1alpha1'', res_layer = ''web'', res_layerDir = ''web''\<rparr>]\<rparr>"

definition example_host :: host where
  "example_host = \<lparr>host_name = ''a'', host_labels = [(''role'', ''web'')], host_position = no_position,
     host_schema = ''v1alpha1''\<rparr>"

definition example_resource :: resolved where
  "example_resource = \<lparr>rv_ref = Reference ''Sysctl'' ''x'',
     rv_desired = map_val [(''value'', Value KindScalar ''2'' False [] [] ''web''
       [\<lparr>origin_layer = ''base'', origin_scalar = ''1''\<rparr>])],
     rv_requires = [Reference ''Package'' ''p''], rv_restartOn = [], rv_reloadOn = [],
     rv_layers = [''base'', ''web''], rv_layerDir = ''base'', rv_used = [], rv_position = no_position\<rparr>"

definition example_manifest :: manifest where
  "example_manifest = \<lparr>mf_host = ''a'', mf_revision = ''r1'',
     mf_layers = [\<lparr>ml_name = ''base'', ml_dir = ''base'', ml_precedence = 10, ml_reasons = []\<rparr>,
       \<lparr>ml_name = ''web'', ml_dir = ''web'', ml_precedence = 20,
        ml_reasons = [\<lparr>reason_key = ''role'', reason_value = ''web''\<rparr>]\<rparr>],
     mf_resources = [example_resource]\<rparr>"

lemma example_find: "find_host example_docs ''a'' = Some example_host"
  by code_simp

lemma example_layers:
  "matched_layers (set_layers example_docs) (host_labels_of example_host) = mf_layers example_manifest"
  by code_simp

lemma example_state:
  "foldl (merge_layer example_docs (layer_precedences (mf_layers example_manifest)) ''a'' (host_labels_of example_host))
     init_state (mf_layers example_manifest)
   = \<lparr>rs_merged = [(Reference ''Sysctl'' ''x'', example_resource)], rs_order = [Reference ''Sysctl'' ''x''],
      rs_conflicts = [], rs_errs = []\<rparr>"
  by code_simp

lemma example_valid: "validate (schema_view example_resource) [] = []"
  by (simp add: schema_view_def example_resource_def validate_Nil problems_def types_def
      check_fields_def check_required_def check_exclusive_def check_when_present_def
      check_type_rules_def val_keys_def sorted_keys_def type_defs check_value_def safe_text_def
      valid_utf8_def runes_def rune_value_def is_control_def is_bidi_control_def is_set_def lookup_val_def)

lemma example_resolves: "resolve_host example_docs ''a'' ''r1'' = Inr (example_manifest, None)"
proof -
  have f: "finished dirs example_resource = example_resource" for dirs
    by (simp add: finished_def source_layer_dir.simps path_fields_def example_resource_def lookup_val_def)
  have "finish_all dirs [example_resource] [] = ([example_resource], [])" for dirs
    using finish_all_Nil [of dirs "[example_resource]" "[]"] example_valid
    by (cases "finish_all dirs [example_resource] []") (simp add: f example_resource_def [THEN arg_cong [of _ _ rv_reloadOn]])
  then show ?thesis
    by (simp add: resolve_host_def example_find example_layers example_state errors_err_def)
      (simp add: example_manifest_def)
qed

abbreviation "example_ref \<equiv> Reference ''Sysctl'' ''x''"

lemma example_contributions:
  "contributions example_docs example_host example_ref =
     [(hd (mf_layers example_manifest), hd (set_resources example_docs)),
      (last (mf_layers example_manifest), last (set_resources example_docs))]"
  by code_simp

lemma example_tree: "tree_of example_host (last (set_resources example_docs)) = map_val [(''value'', scalar_val ''2'')]"
  "tree_of example_host (hd (set_resources example_docs)) = map_val [(''value'', scalar_val ''1'')]"
  by code_simp+

lemma example_wf:
  "\<forall>d \<in> set (set_resources example_docs). wf_val (res_desired d)"
  "\<forall>l \<in> set (set_layers example_docs). wf_matcher (layer_match l)"
  by (simp_all add: example_docs_def wf_matcher_def)

lemma example_mem: "example_resource \<in> set (mf_resources example_manifest)"
    "rv_ref example_resource = example_ref"
  by (simp_all add: example_manifest_def example_resource_def)

theorem digest_faithful_witness:
  "list_all2 same_instructions (mf_resources example_manifest) (mf_resources (example_manifest\<lparr>mf_revision := ''r2''\<rparr>))"
  by (rule digest_faithful)
    (simp_all add: example_manifest_def example_resource_def plain_resolved_def plain_ref_def
      digest_text_def valid_utf8_def runes_def)

theorem manifest_exact_witness:
  "rv_ref ` set (mf_resources example_manifest) =
     {res_ref r | r l. r \<in> set (set_resources example_docs) \<and> l \<in> set (set_layers example_docs)
        \<and> res_layer r = layer_name l \<and> selects (layer_match l) (map_of (host_labels_of example_host))}"
  using manifest_exact [OF example_resolves example_find example_wf(2)] by blast

theorem manifest_valid_witness: "rv_requires example_resource = [Reference ''Package'' ''p'']
    \<and> set (rv_requires example_resource)
        = (\<Union>c \<in> set (contributions example_docs example_host example_ref). set (res_requires (snd c)))"
  using manifest_valid [OF example_resolves example_find example_mem(1)] example_mem(2)
  by (simp add: example_resource_def)

theorem last_layer_wins_witness:
  "\<exists>w. lookup_parts (rv_desired example_resource) [''value''] = Some w \<and> render w = ''2''"
proof -
  have "\<exists>w. lookup_parts (rv_desired example_resource) [''value''] = Some w \<and> render w = render (scalar_val ''2'')"
    by (rule last_layer_wins [OF example_resolves example_find example_mem(1) example_wf(1),
          of "[(hd (mf_layers example_manifest), hd (set_resources example_docs))]"
             "(last (mf_layers example_manifest), last (set_resources example_docs))" "[]"])
      (simp_all add: example_mem(2) example_contributions example_tree leaf_at_def)
  then show ?thesis by (simp add: render_def)
qed


end
