(* ===== verification/Config.thy ===== *)
theory Config
  imports Paths
begin

text \<open>
  Package \<open>internal/config\<close>: the agent's configuration with its defaults, the validation that
  refuses a file no agent could run on, the warnings for unknown keys, and the durations and
  sizes it is written in. A duration is a signed 64-bit count of nanoseconds, modelled as an
  \<^typ>\<open>int\<close>. The YAML decoder, \<open>time.ParseDuration\<close>, \<open>time.Duration.String\<close> and the floating
  point branch of \<open>ParseSize\<close> are parameters.
\<close>

section \<open>Definitions\<close>

subsection \<open>Durations and sizes\<close>

definition max_int64 :: int where "max_int64 = 2 ^ 63 - 1"

definition min_int64 :: int where "min_int64 = - (2 ^ 63)"

definition nano_minute :: int where "nano_minute = 60 * 1000000000"

definition nano_day :: int where "nano_day = 24 * 60 * nano_minute"

definition cut_suffix :: "string \<Rightarrow> string \<Rightarrow> string option" where
  "cut_suffix s suffix = (if has_suffix s suffix then Some (take (length s - length suffix) s) else None)"

datatype scalar_error = EmptyScalar | Overflows string | Malformed string | OutsideRange string

definition parse_duration :: "(string \<Rightarrow> int option) \<Rightarrow> string \<Rightarrow> scalar_error + int" where
  "parse_duration time_parse s =
     (let text = trim_space s;
          general = (case time_parse text of None \<Rightarrow> Inl (Malformed text) | Some d \<Rightarrow> Inr d)
      in if text = [] then Inl EmptyScalar
         else case cut_suffix text ''d'' of
           None \<Rightarrow> general
         | Some days \<Rightarrow>
             (case parse_int 10 64 days of
                None \<Rightarrow> general
              | Some n \<Rightarrow>
                  if n > max_int64 div nano_day \<or> n < - (- min_int64 div nano_day)
                  then Inl (Overflows text)
                  else Inr (n * nano_day)))"

fun trim_suffixes :: "string list \<Rightarrow> string \<Rightarrow> string" where
  "trim_suffixes [] text = text"
| "trim_suffixes (suffix # suffixes) text =
     (case cut_suffix text suffix of
        Some trimmed \<Rightarrow> trimmed @ take 1 suffix
      | None \<Rightarrow> trim_suffixes suffixes text)"

definition duration_string :: "(int \<Rightarrow> string) \<Rightarrow> int \<Rightarrow> string" where
  "duration_string time_string d = trim_suffixes [''h0m0s'', ''m0s''] (time_string d)"

definition units :: "(string \<times> int) list" where
  "units =
     [(''KiB'', 2 ^ 10), (''MiB'', 2 ^ 20), (''GiB'', 2 ^ 30), (''TiB'', 2 ^ 40),
      (''KB'', 2 ^ 10), (''MB'', 2 ^ 20), (''GB'', 2 ^ 30), (''TB'', 2 ^ 40),
      (''K'', 2 ^ 10), (''M'', 2 ^ 20), (''G'', 2 ^ 30), (''T'', 2 ^ 40),
      (''B'', 1)]"

text \<open>\<open>strings.EqualFold\<close> against an ASCII suffix without the letters that have other folds.\<close>

definition fold_char :: "char \<Rightarrow> nat" where
  "fold_char c = (let n = of_char c in if 65 \<le> n \<and> n \<le> 90 then n + 32 else n)"

definition cut_suffix_fold :: "string \<Rightarrow> string \<Rightarrow> string option" where
  "cut_suffix_fold text suffix =
     (if length text < length suffix then None
      else if map fold_char (drop (length text - length suffix) text) \<noteq> map fold_char suffix then None
      else Some (take (length text - length suffix) text))"

text \<open>
  The loop over the units; \<open>float_size\<close> stands for \<open>ParseFloat\<close>, the multiplication and the
  range check that follow when the digits are not an integer.
\<close>

fun parse_units ::
    "(string \<Rightarrow> int \<Rightarrow> int option) \<Rightarrow> string \<Rightarrow> string \<Rightarrow> (string \<times> int) list \<Rightarrow> scalar_error + int" where
  "parse_units float_size text trimmed [] =
     (case parse_int 10 64 trimmed of
        None \<Rightarrow> Inl (Malformed text)
      | Some n \<Rightarrow> if n < 0 then Inl (Malformed text) else Inr n)"
| "parse_units float_size text trimmed ((suffix, scale) # us) =
     (case cut_suffix_fold trimmed suffix of
        None \<Rightarrow> parse_units float_size text trimmed us
      | Some rest \<Rightarrow>
          (let digits = trim_space rest
           in case parse_int 10 64 digits of
                Some n \<Rightarrow>
                  if n < 0 \<or> n > max_int64 div scale then Inl (OutsideRange text) else Inr (n * scale)
              | None \<Rightarrow>
                  (case float_size digits scale of
                     None \<Rightarrow> Inl (Malformed text)
                   | Some n \<Rightarrow> Inr n)))"

definition parse_size :: "(string \<Rightarrow> int \<Rightarrow> int option) \<Rightarrow> string \<Rightarrow> scalar_error + int" where
  "parse_size float_size text =
     (let trimmed = trim_space text
      in if trimmed = [] then Inl EmptyScalar else parse_units float_size text trimmed units)"

text \<open>\<open>strconv.FormatInt\<close> in base ten.\<close>

fun format_nat :: "nat \<Rightarrow> string" where
  "format_nat n =
     (if n < 10 then [char_of (48 + n)] else format_nat (n div 10) @ [char_of (48 + n mod 10)])"

definition format_int :: "int \<Rightarrow> string" where
  "format_int i = (if i < 0 then ''-'' @ format_nat (nat (- i)) else format_nat (nat i))"

text \<open>The loop of \<open>String\<close>, over the units from the last to the first.\<close>

fun size_units :: "int \<Rightarrow> (string \<times> int) list \<Rightarrow> string" where
  "size_units s [] = format_int s @ ''B''"
| "size_units s ((suffix, scale) # us) =
     (if \<not> has_suffix suffix ''iB'' then size_units s us
      else if s \<ge> scale \<and> s mod scale = 0 then format_int (s div scale) @ suffix
      else size_units s us)"

definition size_string :: "int \<Rightarrow> string" where
  "size_string s = size_units s (rev units)"

subsection \<open>The configuration\<close>

definition config_path :: string where "config_path = ''/etc/datum/agent.yaml''"

datatype require_kind = RequireSignedCommit | RequireSignedTag | RequireNone | RequireOther string

record source_config =
  sc_url :: string
  sc_branch :: string
  sc_credential :: string
  sc_fetchTimeout :: int
  sc_maxRepositorySize :: int
  sc_maxSourceSize :: int

record trust_config =
  tc_signers :: string
  tc_require :: require_kind
  tc_tagPattern :: string
  tc_requireDescendant :: "bool option"
  tc_strictPaths :: bool

record reconciliation_config =
  rc_mode :: string
  rc_interval :: int
  rc_splay :: "int option"
  rc_timeout :: int
  rc_actionTimeout :: int

record secrets_config =
  xc_provider :: string
  xc_path :: string

record metrics_config =
  mc_listen :: string
  mc_textfile :: string

record config =
  cfg_host :: string
  cfg_source :: source_config
  cfg_trust :: trust_config
  cfg_reconciliation :: reconciliation_config
  cfg_secrets :: secrets_config
  cfg_metrics :: metrics_config
  cfg_state :: string

definition descendant :: "trust_config \<Rightarrow> bool" where
  "descendant t = (case tc_requireDescendant t of None \<Rightarrow> True | Some b \<Rightarrow> b)"

definition splay_or :: "reconciliation_config \<Rightarrow> int" where
  "splay_or r = (case rc_splay r of None \<Rightarrow> rc_interval r | Some s \<Rightarrow> s)"

definition serving :: "metrics_config \<Rightarrow> bool" where
  "serving m \<longleftrightarrow> mc_listen m \<noteq> [] \<and> mc_listen m \<noteq> ''none''"

definition default_config :: config where
  "default_config = \<lparr>
     cfg_host = [],
     cfg_source = \<lparr>sc_url = [], sc_branch = ''main'', sc_credential = [],
       sc_fetchTimeout = 5 * nano_minute, sc_maxRepositorySize = 2 ^ 30, sc_maxSourceSize = 16 * 2 ^ 20\<rparr>,
     cfg_trust = \<lparr>tc_signers = ''/etc/datum/allowed-signers'', tc_require = RequireSignedCommit,
       tc_tagPattern = [], tc_requireDescendant = Some True, tc_strictPaths = False\<rparr>,
     cfg_reconciliation = \<lparr>rc_mode = ''enforce'', rc_interval = 30 * nano_minute, rc_splay = None,
       rc_timeout = 15 * nano_minute, rc_actionTimeout = 5 * nano_minute\<rparr>,
     cfg_secrets = \<lparr>xc_provider = [], xc_path = []\<rparr>,
     cfg_metrics = \<lparr>mc_listen = ''127.0.0.1:10056'', mc_textfile = []\<rparr>,
     cfg_state = ''/var/lib/datum''\<rparr>"

datatype config_error =
    Undecodable string
  | HostRequired
  | BadRequire string
  | NeedsTagPattern
  | BadMode string
  | IntervalNotPositive
  | TimeoutNotPositive
  | TimeoutExceedsInterval int int
  | NegativeSplay
  | BadSecretsProvider string

definition validate_config :: "config \<Rightarrow> config_error option" where
  "validate_config c =
     (let r = cfg_reconciliation c; t = cfg_trust c
      in if cfg_host c = [] then Some HostRequired
         else case tc_require t of
           RequireOther q \<Rightarrow> Some (BadRequire q)
         | _ \<Rightarrow>
             if tc_require t = RequireSignedTag \<and> tc_tagPattern t = [] then Some NeedsTagPattern
             else if rc_mode r \<noteq> ''enforce'' \<and> rc_mode r \<noteq> ''observe'' then Some (BadMode (rc_mode r))
             else if rc_interval r \<le> 0 then Some IntervalNotPositive
             else if rc_timeout r \<le> 0 then Some TimeoutNotPositive
             else if rc_timeout r > rc_interval r
               then Some (TimeoutExceedsInterval (rc_timeout r) (rc_interval r))
             else if splay_or r < 0 then Some NegativeSplay
             else if xc_provider (cfg_secrets c) \<noteq> [] \<and> xc_provider (cfg_secrets c) \<noteq> ''file''
               then Some (BadSecretsProvider (xc_provider (cfg_secrets c)))
             else None)"

text \<open>The empty strings that stand for an absent key; an empty \<open>require\<close> is \<open>RequireOther []\<close>.\<close>

definition fill_defaults :: "config \<Rightarrow> config" where
  "fill_defaults c =
     (let s = cfg_source c; t = cfg_trust c; r = cfg_reconciliation c
      in c\<lparr>cfg_source := (if sc_branch s = [] then s\<lparr>sc_branch := ''main''\<rparr> else s),
           cfg_trust :=
             (let t1 = (if tc_signers t = [] then t\<lparr>tc_signers := ''/etc/datum/allowed-signers''\<rparr> else t)
              in if tc_require t1 = RequireOther [] then t1\<lparr>tc_require := RequireSignedCommit\<rparr> else t1),
           cfg_reconciliation := (if rc_mode r = [] then r\<lparr>rc_mode := ''enforce''\<rparr> else r),
           cfg_state := (if cfg_state c = [] then ''/var/lib/datum'' else cfg_state c)\<rparr>)"

text \<open>
  The top level of the file as the second decoding sees it: for each key the keys below it,
  when its value is a mapping.
\<close>

type_synonym raw_config = "(string \<times> string list option) list"

definition known_keys :: "(string \<times> string list option) list" where
  "known_keys =
     [(''host'', None),
      (''source'', Some [''url'', ''branch'', ''credential'', ''fetchTimeout'', ''maxRepositorySize'', ''maxSourceSize'']),
      (''trust'', Some [''signers'', ''require'', ''tagPattern'', ''requireDescendant'', ''strictPaths'']),
      (''reconciliation'', Some [''mode'', ''interval'', ''splay'', ''timeout'', ''actionTimeout'']),
      (''secrets'', Some [''provider'', ''path'']),
      (''metrics'', Some [''listen'', ''textfile'']),
      (''state'', None)]"

text \<open>
  The \<open>%q\<close> of a text: ASCII control characters are escaped, by name where they have one, and
  everything else that can be printed stands as it is.
\<close>

definition quote_char :: "char \<Rightarrow> string" where
  "quote_char c =
     (if c = CHR 0x22 \<or> c = CHR 0x5C then [CHR 0x5C, c]
      else case map_of (zip (map char_of [7, 8, 9, 10, 11, 12, 13 :: nat]) ''abtnvfr'') c of
        Some name \<Rightarrow> [CHR 0x5C, name]
      | None \<Rightarrow>
          (let n = of_char c :: nat
           in if n < 32 \<or> n = 127
              then [CHR 0x5C, CHR ''x''] @ map (\<lambda>d. char_of (if d < 10 then 48 + d else 87 + d)) [n div 16, n mod 16]
              else [c]))"

definition quote_key :: "string \<Rightarrow> string" where
  "quote_key s = CHR 0x22 # concat (map quote_char s) @ [CHR 0x22]"

definition unknown_key :: "string \<Rightarrow> string" where
  "unknown_key k = ''unknown key '' @ quote_key k"

definition unknown_keys :: "raw_config option \<Rightarrow> string list" where
  "unknown_keys raw =
     (case raw of
        None \<Rightarrow> []
      | Some entries \<Rightarrow>
          sort (concat (map (\<lambda>(key, value).
            case map_of known_keys key of
              None \<Rightarrow> [unknown_key key]
            | Some children \<Rightarrow>
                (case (value, children) of
                   (Some block, Some names) \<Rightarrow>
                     map (\<lambda>child. unknown_key (key @ ''.'' @ child)) (filter (\<lambda>child. child \<notin> set names) block)
                 | _ \<Rightarrow> [])) entries)))"

text \<open>
  \<open>Parse\<close>: \<open>decode\<close> unmarshals the file over a configuration, \<open>raw\<close> is its plain decoding. The
  warnings come back with a validation error as well.
\<close>

definition parse_config ::
    "(config \<Rightarrow> string + config) \<Rightarrow> raw_config option \<Rightarrow> string list \<times> (config_error + config)" where
  "parse_config decode raw =
     (case decode default_config of
        Inl err \<Rightarrow> ([], Inl (Undecodable err))
      | Inr decoded \<Rightarrow>
          (let warnings = unknown_keys raw;
               cfg = fill_defaults decoded
           in case validate_config cfg of
                Some err \<Rightarrow> (warnings, Inl err)
              | None \<Rightarrow> (warnings, Inr cfg)))"

section \<open>Lemmas\<close>

lemma parse_digits_append:
  "parse_digits b (s @ t) acc = (case parse_digits b s acc of None \<Rightarrow> None | Some n \<Rightarrow> parse_digits b t n)"
  by (induction b s acc rule: parse_digits.induct) (auto simp: Let_def)

lemma parse_digits_format: "parse_digits 10 (format_nat n) 0 = Some n"
proof (induction n rule: format_nat.induct)
  case (1 n)
  have d: "parse_digits 10 [char_of (48 + d)] m = Some (m * 10 + d)" if "d < 10" for d m :: nat
    using that by (simp add: Let_def)
  show ?case
  proof (cases "n < 10")
    case True
    then show ?thesis using d [of n 0] by simp
  next
    case False
    then show ?thesis using 1 d [of "n mod 10" "n div 10"] by (simp add: parse_digits_append)
  qed
qed

declare format_nat.simps [simp del]

definition digit :: "char \<Rightarrow> bool" where
  "digit c \<longleftrightarrow> 48 \<le> (of_char c :: nat) \<and> (of_char c :: nat) \<le> 57"

lemma format_nat_digits: "format_nat n \<noteq> [] \<and> list_all digit (format_nat n)"
proof (induction n rule: format_nat.induct)
  case (1 n)
  have d: "digit (char_of (48 + d))" if "d < 10" for d :: nat
    using that by (simp add: digit_def)
  show ?case
    using 1 d [of n] d [of "n mod 10"] by (subst format_nat.simps) (simp, subst format_nat.simps, simp)
qed

lemma digit_not: "digit c \<Longrightarrow> of_char c \<noteq> (43 :: nat) \<and> of_char c \<noteq> (45 :: nat)"
  by (auto simp: digit_def)

lemma parse_int_format:
  assumes "0 \<le> i" "i < 2 ^ 63" shows "parse_int 10 64 (format_int i) = Some i"
proof -
  obtain c cs where c: "format_nat (nat i) = c # cs" "digit c"
    using format_nat_digits [of "nat i"] by (cases "format_nat (nat i)") auto
  then have "c \<noteq> CHR ''-''" "c \<noteq> CHR ''+''" using digit_not by force+
  moreover have "nat i < 2 ^ 63" using assms by (simp add: nat_less_iff)
  ultimately show ?thesis
    using assms(1) c parse_digits_format [of "nat i"]
    by (simp add: parse_int_def format_int_def has_prefix_def Let_def)
qed

lemma strip_from_id: "find (has_prefix s) es = None \<Longrightarrow> strip_from es n s = s"
  by (cases n) simp_all

text \<open>A text that starts and ends with a visible ASCII character is its own trimmed form.\<close>

definition visible :: "char \<Rightarrow> bool" where
  "visible c \<longleftrightarrow> 32 < (of_char c :: nat) \<and> (of_char c :: nat) < 128"

lemma space_heads:
  "list_all (\<lambda>e. e \<noteq> [] \<and> \<not> visible (hd e) \<and> \<not> visible (last e)) space_encodings"
  by (simp add: space_encodings_def bytes_def visible_def)

lemma trim_space_visible:
  assumes "s \<noteq> []" "visible (hd s)" "visible (last s)" shows "trim_space s = s"
proof -
  have no: "find (has_prefix t) es = None"
    if "t \<noteq> []" "visible (hd t)" "list_all (\<lambda>e. e \<noteq> [] \<and> \<not> visible (hd e)) es" for t es
    using that by (auto simp: find_None_iff list_all_iff has_prefix_iff)
  have "trim_left s = s"
    unfolding trim_left_def using space_heads
    by (intro strip_from_id no assms(1,2)) (auto simp: list_all_iff)
  moreover have "trim_right s = s"
  proof -
    have "list_all (\<lambda>e. e \<noteq> [] \<and> \<not> visible (hd e)) (map rev space_encodings)"
      using space_heads by (auto simp: list_all_iff hd_rev)
    from no [OF _ _ this, of "rev s"] assms show ?thesis
      by (simp add: trim_right_def strip_from_id hd_rev)
  qed
  ultimately show ?thesis by (simp add: trim_space_def)
qed

lemma digits_visible:
  assumes "list_all digit ds" "ds \<noteq> []" shows "visible (hd ds)" "visible (last ds)"
  using assms by (auto simp: visible_def digit_def list_all_iff dest: bspec [OF _ hd_in_set] bspec [OF _ last_in_set])

lemma cut_three:
  "cut_suffix_fold (ds @ [a, b, c]) [x, y, z] =
     (if fold_char a = fold_char x \<and> fold_char b = fold_char y \<and> fold_char c = fold_char z then Some ds else None)"
  by (simp add: cut_suffix_fold_def)

lemma cut_letters:
  assumes "list_all digit ds" "\<not> digit y"
  shows "cut_suffix_fold (ds @ [b]) [x, y, z] = None" and "cut_suffix_fold (ds @ [b]) [y, z] = None"
proof -
  have fold: "fold_char d \<noteq> fold_char y" if "digit d" for d
    using that assms(2) by (auto simp: fold_char_def digit_def Let_def split: if_splits)
  show "cut_suffix_fold (ds @ [b]) [y, z] = None"
    using assms(1) fold by (cases ds rule: rev_cases) (auto simp: cut_suffix_fold_def)
  show "cut_suffix_fold (ds @ [b]) [x, y, z] = None"
  proof (cases ds rule: rev_cases)
    case (snoc ds' d)
    then show ?thesis using assms(1) fold by (cases ds' rule: rev_cases) (auto simp: cut_suffix_fold_def)
  qed (simp add: cut_suffix_fold_def)
qed

lemma cut_one: "cut_suffix_fold (ds @ [b]) [z] = (if fold_char b = fold_char z then Some ds else None)"
  by (simp add: cut_suffix_fold_def)

lemma not_digits: "\<not> digit CHR ''i''" "\<not> digit CHR ''K''" "\<not> digit CHR ''M''" "\<not> digit CHR ''G''"
    "\<not> digit CHR ''T''" "\<not> digit CHR ''B''"
  by (simp_all add: digit_def)

lemma parse_digits_units:
  assumes "list_all digit ds" "ds \<noteq> []" "parse_int 10 64 ds = Some n" "0 \<le> n"
    and "(suf, scale) \<in> {(''KiB'', 2 ^ 10), (''MiB'', 2 ^ 20), (''GiB'', 2 ^ 30), (''TiB'', 2 ^ 40), (''B'', 1)}"
    and "n * scale < 2 ^ 63"
  shows "parse_size f (ds @ suf) = Inr (n * scale)"
proof -
  note v = digits_visible [OF assms(1,2)]
  have suf: "suf \<noteq> []" "visible (last suf)" "0 < scale" using assms(5) by (auto simp: visible_def)
  have trim: "trim_space (ds @ suf) = ds @ suf" "trim_space ds = ds"
    using v suf assms(2) by (auto intro: trim_space_visible simp: hd_append)
  have bound: "\<not> n > max_int64 div scale"
  proof -
    have "n = n * scale div scale" using suf by simp
    also have "\<dots> \<le> max_int64 div scale"
      using assms(6) suf(3) by (intro zdiv_mono1) (simp_all add: max_int64_def)
    finally show ?thesis by simp
  qed
  have "parse_units f (ds @ suf) (ds @ suf) units = Inr (n * scale)"
    using assms(5)
    by (elim insertE emptyE)
      (use assms(1-4) trim bound in \<open>auto simp: units_def cut_three cut_one cut_letters [OF assms(1)]
         not_digits fold_char_def Let_def\<close>)
  then show ?thesis using trim assms(2) by (simp add: parse_size_def)
qed

lemma size_units_form:
  assumes "0 \<le> s"
  shows "\<exists>n suf scale. size_string s = format_int n @ suf \<and> n * scale = s \<and> 0 \<le> n
    \<and> (suf, scale) \<in> {(''KiB'', 2 ^ 10), (''MiB'', 2 ^ 20), (''GiB'', 2 ^ 30), (''TiB'', 2 ^ 40), (''B'', 1 :: int)}"
proof -
  have "\<exists>n suf scale. size_units s us = format_int n @ suf \<and> n * scale = s \<and> 0 \<le> n
      \<and> (suf, scale) \<in> {(''KiB'', 2 ^ 10), (''MiB'', 2 ^ 20), (''GiB'', 2 ^ 30), (''TiB'', 2 ^ 40), (''B'', 1)}"
    if "set us \<subseteq> set units" for us
    using that
  proof (induction us)
    case Nil
    show ?case using assms by (intro exI [of _ s] exI [of _ "''B''"] exI [of _ 1]) simp
  next
    case (Cons u us)
    obtain suf scale where u: "u = (suf, scale)" by fastforce
    show ?case
    proof (cases "has_suffix suf ''iB'' \<and> s \<ge> scale \<and> s mod scale = 0")
      case True
      have "(suf, scale) \<in> {(''KiB'', 2 ^ 10), (''MiB'', 2 ^ 20), (''GiB'', 2 ^ 30), (''TiB'', 2 ^ 40), (''B'', 1)}"
        using True Cons.prems u by (simp add: units_def) (elim disjE conjE; simp add: has_suffix_def)
      moreover have "s div scale * scale = s" using True by (simp add: mod_eq_0_iff_dvd)
      moreover have "0 \<le> s div scale" using calculation(1) assms by (auto simp: pos_imp_zdiv_nonneg_iff)
      ultimately show ?thesis using True u
        by (intro exI [of _ "s div scale"] exI [of _ suf] exI [of _ scale]) simp
    next
      case False
      then show ?thesis using Cons u by auto
    qed
  qed
  then show ?thesis by (simp add: size_string_def)
qed

section \<open>Properties\<close>

text \<open>
  C40: a size printed is read back. Every count of bytes a signed 64-bit integer holds is
  printed with the largest binary unit that divides it, and \<open>ParseSize\<close> gives the same count
  for the text, with no detour through floating point.
\<close>

theorem size_roundtrip:
  assumes "0 \<le> s" "s < 2 ^ 63"
  shows "parse_size float_size (size_string s) = Inr s"
proof -
  obtain n suf scale where f: "size_string s = format_int n @ suf" "n * scale = s" "0 \<le> n"
    and u: "(suf, scale) \<in> {(''KiB'', 2 ^ 10), (''MiB'', 2 ^ 20), (''GiB'', 2 ^ 30), (''TiB'', 2 ^ 40), (''B'', 1 :: int)}"
    using size_units_form [OF assms(1)] by blast
  have "1 \<le> scale" using u by auto
  then have "n * 1 \<le> n * scale" using f(3) by (intro mult_left_mono) auto
  then have "n < 2 ^ 63" using f(2) assms(2) by simp
  then have "parse_size float_size (format_int n @ suf) = Inr (n * scale)"
    using f u assms(2) format_nat_digits [of "nat n"] parse_int_format [OF f(3)]
    by (intro parse_digits_units) (auto simp: format_int_def)
  then show ?thesis using f by simp
qed

theorem size_roundtrip_witness: "parse_size (\<lambda>_ _. None) (size_string 16777216) = Inr 16777216"
  by (rule size_roundtrip) simp_all

text \<open>
  A configuration that loads describes a working agent. The host is named, the pass
  interval is positive, a pass has to end before the next one is due, the splay is not
  negative, the mode and the required proof are known ones, signed tags come with a pattern,
  and the branch, the signer list and the state directory are set.
\<close>

theorem config_accepted:
  assumes "snd (parse_config decode raw) = Inr c"
  shows "cfg_host c \<noteq> [] \<and> 0 < rc_timeout (cfg_reconciliation c)
    \<and> rc_timeout (cfg_reconciliation c) \<le> rc_interval (cfg_reconciliation c)
    \<and> 0 \<le> splay_or (cfg_reconciliation c)
    \<and> rc_mode (cfg_reconciliation c) \<in> {''enforce'', ''observe''}
    \<and> tc_require (cfg_trust c) \<in> {RequireSignedCommit, RequireSignedTag, RequireNone}
    \<and> (tc_require (cfg_trust c) = RequireSignedTag \<longrightarrow> tc_tagPattern (cfg_trust c) \<noteq> [])
    \<and> sc_branch (cfg_source c) \<noteq> [] \<and> tc_signers (cfg_trust c) \<noteq> [] \<and> cfg_state c \<noteq> []"
proof -
  from assms obtain d where c: "c = fill_defaults d" and v: "validate_config c = None"
    by (auto simp: parse_config_def Let_def split: sum.splits option.splits)
  have "sc_branch (cfg_source c) \<noteq> [] \<and> tc_signers (cfg_trust c) \<noteq> [] \<and> cfg_state c \<noteq> []"
    by (simp add: c fill_defaults_def Let_def)
  with v show ?thesis
    by (cases "tc_require (cfg_trust c)") (auto simp: validate_config_def Let_def split: if_splits)
qed

theorem config_accepted_witness:
  "cfg_host (default_config\<lparr>cfg_host := ''web-01''\<rparr>) \<noteq> []
    \<and> 0 < rc_timeout (cfg_reconciliation (default_config\<lparr>cfg_host := ''web-01''\<rparr>))"
proof -
  have "snd (parse_config (\<lambda>c. Inr (c\<lparr>cfg_host := ''web-01''\<rparr>)) None) = Inr (default_config\<lparr>cfg_host := ''web-01''\<rparr>)"
    by (simp add: parse_config_def default_config_def fill_defaults_def validate_config_def splay_or_def
        nano_minute_def Let_def)
  from config_accepted [OF this] show ?thesis by blast
qed

end
