(* ===== verification/Anchor.thy ===== *)
theory Anchor
  imports Config Document "HOL-Library.Sublist"
begin

text \<open>
  Package \<open>internal/anchor\<close>: the set of files, directories, package and unit that desired state
  may not manage, and the checks that refuse a resource aimed at one of them, by its declared
  path and by what the path reaches on a host. The executable of the process and the file
  system (links followed, links not followed, directory listings) are parameters.
\<close>

section \<open>Definitions\<close>

record protected_set =
  ps_files :: "string list"
  ps_dirs :: "string list"
  ps_package :: string
  ps_unit :: string

definition default_name :: string where "default_name = ''datum''"

definition binary_paths :: "string list" where
  "binary_paths = [''/usr/bin/datum'', ''/usr/local/bin/datum'']"

text \<open>\<open>executable\<close> is the path of the running binary with its links resolved, when it is known.\<close>

definition protected_for :: "string option \<Rightarrow> config \<Rightarrow> protected_set" where
  "protected_for executable cfg =
     (let s0 = \<lparr>ps_files = config_path # binary_paths, ps_dirs = [path_dir config_path],
                ps_package = default_name, ps_unit = default_name @ ''.service''\<rparr>;
          s1 = (case executable of None \<Rightarrow> s0 | Some self \<Rightarrow> s0\<lparr>ps_files := ps_files s0 @ [self]\<rparr>);
          signers = tc_signers (cfg_trust cfg);
          s2 = (if signers \<noteq> [] then s1\<lparr>ps_files := ps_files s1 @ [signers]\<rparr> else s1);
          s3 = (if cfg_state cfg \<noteq> [] then s2\<lparr>ps_dirs := ps_dirs s2 @ [cfg_state cfg]\<rparr> else s2);
          credential = sc_credential (cfg_source cfg);
          s4 = (if credential \<noteq> [] then s3\<lparr>ps_files := ps_files s3 @ [credential]\<rparr> else s3);
          secrets = xc_path (cfg_secrets cfg)
      in if secrets \<noteq> [] then s4\<lparr>ps_dirs := ps_dirs s4 @ [secrets]\<rparr> else s4)"

definition protected_default :: "string option \<Rightarrow> protected_set" where
  "protected_default executable = protected_for executable default_config"

definition path_types :: "string list" where
  "path_types = [''File'', ''Directory'', ''Symlink'']"

definition within :: "string \<Rightarrow> string \<Rightarrow> bool" where
  "within parent child =
     (if parent = child then True
      else if parent = ''/'' then has_prefix child parent
      else has_prefix child (parent @ ''/''))"

fun check_files :: "string list \<Rightarrow> string \<Rightarrow> anchor_msg option" where
  "check_files [] target = None"
| "check_files (file # files) target =
     (let protected = clean file
      in if target = protected then Some (ProtectedPath protected)
         else if within target protected then Some (ContainsProtected target protected)
         else check_files files target)"

fun check_dirs :: "string list \<Rightarrow> string \<Rightarrow> anchor_msg option" where
  "check_dirs [] target = None"
| "check_dirs (dir # dirs) target =
     (let protected = clean dir
      in if target = protected \<or> within protected target then Some (InsideProtected target protected)
         else if within target protected then Some (ContainsProtected target protected)
         else check_dirs dirs target)"

definition check_path :: "protected_set \<Rightarrow> string \<Rightarrow> anchor_msg option" where
  "check_path s target =
     (if target = [] \<or> \<not> is_abs target then None
      else case check_files (ps_files s) (clean target) of
        Some err \<Rightarrow> Some err
      | None \<Rightarrow> check_dirs (ps_dirs s) (clean target))"

definition check_protected :: "protected_set \<Rightarrow> reference \<Rightarrow> string \<Rightarrow> val \<Rightarrow> anchor_msg option" where
  "check_protected s ref target desired =
     (if ref_type ref \<in> set path_types then
        (case check_path s target of
           Some err \<Rightarrow> Some err
         | None \<Rightarrow>
             if ref_type ref = ''Symlink'' then
               (case lookup_val desired ''target'' of
                  None \<Rightarrow> None
                | Some dest \<Rightarrow> if v_kind dest = KindScalar then check_path s (v_scalar dest) else None)
             else None)
      else if ref_type ref = ''Package'' then
        (if ps_package s \<noteq> [] \<and> target = ps_package s then Some ProtectedPackage else None)
      else if ref_type ref = ''Service'' then
        (if ps_unit s \<noteq> [] \<and> (target = ps_unit s \<or> target = trim_suffix (ps_unit s) ''.service'')
         then Some ProtectedUnit else None)
      else None)"

text \<open>What a path is defending, for the message.\<close>

definition protects :: "string \<Rightarrow> string" where
  "protects path =
     (if has_suffix path ''agent.yaml'' then
        ''holds this host's identity, its source and the trust settings themselves''
      else if str_contains path ''allowed-signers'' \<or> str_contains path ''signers'' then
        ''holds the keys that authorise desired state, so managing it would let a repository approve its own replacement''
      else if str_contains path ''credential'' then ''holds the credential used to read the repository''
      else if str_contains path ''secret'' then ''holds secret material resolved on this host''
      else if has_suffix path ''datum'' \<and> str_contains path ''bin'' then ''is the agent binary''
      else ''holds the accepted revision, the pass lock and pass reports'')"

text \<open>
  The host's file system as the identity check sees it. A file is identified by its device and
  inode.
\<close>

record file_info =
  fi_is_dir :: bool
  fi_id :: "nat \<times> nat"

record filesystem =
  eval_symlinks :: "string \<Rightarrow> string option"
  lstat :: "string \<Rightarrow> file_info option"
  read_dir :: "string \<Rightarrow> (string \<times> bool) list option"

definition same_file :: "filesystem \<Rightarrow> string \<Rightarrow> string \<Rightarrow> bool option" where
  "same_file fs a b =
     (case lstat fs a of
        None \<Rightarrow> None
      | Some first \<Rightarrow>
          (case lstat fs b of
             None \<Rightarrow> None
           | Some second \<Rightarrow> Some (fi_id first = fi_id second)))"

definition protected_files :: "filesystem \<Rightarrow> protected_set \<Rightarrow> string list" where
  "protected_files fs s =
     ps_files s @ concat (map (\<lambda>dir.
       case read_dir fs dir of
         None \<Rightarrow> []
       | Some entries \<Rightarrow>
           map (\<lambda>(name, is_dir). join_path [dir, name]) (filter (\<lambda>(name, is_dir). \<not> is_dir) entries))
       (ps_dirs s))"

datatype identity_msg = ResolvesToProtected anchor_msg | SameFileAs string string

definition check_identity :: "filesystem \<Rightarrow> protected_set \<Rightarrow> reference \<Rightarrow> string \<Rightarrow> identity_msg option" where
  "check_identity fs s ref target =
     (if ref_type ref \<notin> set path_types \<or> target = [] \<or> \<not> is_abs target then None
      else
        let resolved = (if ref_type ref = ''Symlink'' then None
              else case eval_symlinks fs target of
                None \<Rightarrow> None
              | Some r \<Rightarrow> if r = clean target then None else check_path s r)
        in case resolved of
             Some err \<Rightarrow> Some (ResolvesToProtected err)
           | None \<Rightarrow>
               (case lstat fs target of
                  None \<Rightarrow> None
                | Some info \<Rightarrow>
                    if fi_is_dir info then None
                    else map_option (SameFileAs (clean target))
                      (find (\<lambda>p. same_file fs target p = Some True) (protected_files fs s))))"

section \<open>Specification\<close>

text \<open>
  Paths as lists of components: a target overlaps a protected file when it is the file or one
  of the directories above it, and a protected directory when one of the two is at or below
  the other.
\<close>

definition components :: "string \<Rightarrow> string list" where
  "components p = clean_parts True (split_on CHR ''/'' p)"

definition overlaps :: "protected_set \<Rightarrow> string \<Rightarrow> bool" where
  "overlaps s target \<longleftrightarrow>
     (\<exists>f \<in> set (ps_files s). prefix (components target) (components f))
     \<or> (\<exists>d \<in> set (ps_dirs s). prefix (components target) (components d)
           \<or> prefix (components d) (components target))"

definition abs_set :: "protected_set \<Rightarrow> bool" where
  "abs_set s \<longleftrightarrow> list_all is_abs (ps_files s) \<and> list_all is_abs (ps_dirs s)"

section \<open>Lemmas\<close>

lemma clean_components:
  "is_abs p \<Longrightarrow> clean p = abs_path (components p) \<and> list_all normal_component (components p)"
  using clean_abs [of p] by (simp add: components_def)

lemma within_prefix:
  assumes "list_all normal_component ds" "list_all normal_component cs"
  shows "within (abs_path ds) (abs_path cs) \<longleftrightarrow> prefix ds cs"
proof (cases "ds = []")
  case True
  then show ?thesis by (auto simp: within_def abs_path_def has_prefix_def)
next
  case False
  have root: "abs_path ds \<noteq> ''/''"
    using abs_path_inj [OF assms(1), of "[]"] False by (auto simp: abs_path_def)
  have slash: "CHR ''/'' \<notin> set c" if "c \<in> set cs \<union> set ds" for c
    using that assms by (auto simp: list_all_iff normal_component_def)
  show ?thesis
  proof
    assume "within (abs_path ds) (abs_path cs)"
    then consider "abs_path ds = abs_path cs" | t where "abs_path cs = abs_path ds @ CHR ''/'' # t"
      using root by (auto simp: within_def has_prefix_iff split: if_splits)
    then show "prefix ds cs"
    proof cases
      case 1
      then show ?thesis using abs_path_inj [OF assms] by simp
    next
      case 2
      then have "cs \<noteq> []" using root False by (auto simp: abs_path_def)
      have "split_on CHR ''/'' (abs_path cs) = split_on CHR ''/'' (abs_path ds) @ split_on CHR ''/'' t"
        by (simp add: 2 split_on_append_sep)
      then have "[] # cs = ([] # ds) @ split_on CHR ''/'' t"
        using assms False \<open>cs \<noteq> []\<close> by (simp add: split_abs_path)
      then show ?thesis by simp
    qed
  next
    assume "prefix ds cs"
    then obtain es where es: "cs = ds @ es" by (auto simp: prefix_def)
    show "within (abs_path ds) (abs_path cs)"
    proof (cases "es = []")
      case False
      then have "abs_path cs = (abs_path ds @ ''/'') @ join_with ''/'' es"
        using \<open>ds \<noteq> []\<close> es by (simp add: abs_path_def join_with_prefix)
      then show ?thesis using root by (auto simp: within_def has_prefix_iff)
    qed (simp add: within_def es)
  qed
qed

lemma check_files_None:
  "check_files fs t = None \<longleftrightarrow> (\<forall>f \<in> set fs. \<not> within t (clean f))"
  by (induction fs) (auto simp: Let_def within_def)

lemma check_dirs_None:
  "check_dirs ds t = None \<longleftrightarrow> (\<forall>d \<in> set ds. \<not> within t (clean d) \<and> \<not> within (clean d) t)"
  by (induction ds) (auto simp: Let_def within_def)

lemma within_clean:
  "is_abs a \<Longrightarrow> is_abs b \<Longrightarrow> within (clean a) (clean b) \<longleftrightarrow> prefix (components a) (components b)"
  using clean_components within_prefix by simp

lemma check_path_overlaps:
  assumes "abs_set s" "is_abs target"
  shows "check_path s target = None \<longleftrightarrow> \<not> overlaps s target"
proof -
  have "target \<noteq> []" using assms(2) by (auto simp: is_abs_def has_prefix_def)
  then have "check_path s target = None \<longleftrightarrow>
      check_files (ps_files s) (clean target) = None \<and> check_dirs (ps_dirs s) (clean target) = None"
    using assms(2) by (simp add: check_path_def split: option.splits)
  then show ?thesis
    using assms within_clean by (auto simp: overlaps_def abs_set_def check_files_None check_dirs_None list_all_iff)
qed

text \<open>A target that is not absolute passes, whatever it names from the directory of the link.\<close>

lemma check_path_relative: "\<not> is_abs target \<Longrightarrow> check_path s target = None"
  by (simp add: check_path_def)

text \<open>
  A target that does not exist yet passes the check on the host, also when a directory above it
  is a link into protected state.
\<close>

lemma absent_target_accepted:
  assumes "eval_symlinks fs target = None" "lstat fs target = None"
  shows "check_identity fs s ref target = None"
  using assms by (simp add: check_identity_def Let_def)

section \<open>Properties\<close>

text \<open>
  C15: the name check refuses exactly the paths that overlap protected state. For a file or a
  directory with an absolute target, however it is spelled, the check passes if and only if,
  component by component, the target is neither a protected file nor above one, and neither
  above, equal to nor below a protected directory.
\<close>

theorem protected_paths_refused:
  assumes "abs_set s" "is_abs target" "ref_type ref \<in> {''File'', ''Directory''}"
  shows "check_protected s ref target desired = None \<longleftrightarrow> \<not> overlaps s target"
proof -
  have "check_protected s ref target desired = check_path s target"
    using assms(3) by (cases "check_path s target") (auto simp: check_protected_def path_types_def)
  then show ?thesis using check_path_overlaps [OF assms(1,2)] by simp
qed

theorem protected_paths_refused_witness:
  "check_protected (protected_default None) (Reference ''Directory'' ''d'') ''/var/./lib//'' zero_val \<noteq> None"
proof -
  have "abs_set (protected_default None)"
    by (simp add: abs_set_def protected_default_def protected_for_def default_config_def config_path_def
        binary_paths_def is_abs_def has_prefix_def path_dir_def clean_def clean_parts_def Let_def)
  moreover have "overlaps (protected_default None) ''/var/./lib//''"
    by (simp add: overlaps_def protected_default_def protected_for_def default_config_def
        components_def clean_parts_def Let_def)
  moreover have "is_abs ''/var/./lib//''" by (simp add: is_abs_def has_prefix_def)
  ultimately show ?thesis
    using protected_paths_refused [of "protected_default None" "''/var/./lib//''" "Reference ''Directory'' ''d''" zero_val]
    by simp
qed

text \<open>
  A link that points through a relative path escapes the check. A symbolic link at an
  unprotected absolute path is accepted with any relative target, so a link can be declared
  whose target, read from the directory of the link, is the signer list itself.
\<close>

theorem relative_link_accepted:
  assumes "abs_set s" "is_abs target" "\<not> overlaps s target" "ref_type ref = ''Symlink''"
    and "lookup_val desired ''target'' = Some dest" "\<not> is_abs (v_scalar dest)"
  shows "check_protected s ref target desired = None"
proof -
  have "check_path s target = None" using check_path_overlaps [OF assms(1,2)] assms(3) by blast
  then show ?thesis
    using assms(4,5) check_path_relative [OF assms(6)] by (simp add: check_protected_def path_types_def)
qed

theorem relative_link_accepted_witness:
  "check_protected (protected_default None) (Reference ''Symlink'' ''l'') ''/etc/motd''
       (map_val [(''target'', scalar_val ''datum/allowed-signers'')]) = None
     \<and> join_path [path_dir ''/etc/motd'', ''datum/allowed-signers''] = ''/etc/datum/allowed-signers''"
proof
  show "join_path [path_dir ''/etc/motd'', ''datum/allowed-signers''] = ''/etc/datum/allowed-signers''"
    by (simp add: join_path_def path_dir_def clean_def clean_parts_def is_abs_def has_prefix_def Let_def)
  show "check_protected (protected_default None) (Reference ''Symlink'' ''l'') ''/etc/motd''
       (map_val [(''target'', scalar_val ''datum/allowed-signers'')]) = None"
    by (rule relative_link_accepted [where dest = "scalar_val ''datum/allowed-signers''"])
      (simp_all add: abs_set_def overlaps_def protected_default_def protected_for_def default_config_def
        config_path_def binary_paths_def path_dir_def clean_def components_def clean_parts_def
        is_abs_def has_prefix_def lookup_val_def Let_def)
qed

end
