(* ===== verification/Graph.thy ===== *)
theory Graph
  imports Resolve Anchor
begin

text \<open>
  Package \<open>internal/graph\<close>: the graph of a manifest, its validation (targets, protected state,
  duplicates, dangling references, cycles) and the deterministic topological order. The nodes
  are a map from references to nodes, the counters of the ordering a map from references to
  integers. Its loops take a fuel, and the lemmas show that the fuel given is never used up.
  Edges that differ only in their kind keep the order of the lists they come from.
\<close>

section \<open>Definitions\<close>

datatype edge_kind = Requires | RestartOn | ReloadOn

definition edge_kind_string :: "edge_kind \<Rightarrow> string" where
  "edge_kind_string k =
     (case k of RestartOn \<Rightarrow> ''restartOn'' | ReloadOn \<Rightarrow> ''reloadOn'' | Requires \<Rightarrow> ''requires'')"

definition triggers :: "edge_kind \<Rightarrow> bool" where
  "triggers k \<longleftrightarrow> k = RestartOn \<or> k = ReloadOn"

record edge =
  e_from :: reference
  e_to :: reference
  e_kind :: edge_kind

record node =
  n_resource :: resolved
  n_target :: string

record graph =
  g_nodes :: "(reference \<times> node) list"
  g_edges :: "edge list"
  g_order :: "reference list"

definition sort_refs :: "reference list \<Rightarrow> reference list" where
  "sort_refs refs = sort_key ref_string refs"

definition dependencies :: "edge list \<Rightarrow> reference \<Rightarrow> edge list" where
  "dependencies edges ref = filter (\<lambda>e. e_to e = ref) edges"

definition dependents :: "edge list \<Rightarrow> reference \<Rightarrow> edge list" where
  "dependents edges ref = filter (\<lambda>e. e_from e = ref) edges"

subsection \<open>Ordering\<close>

type_synonym counters = "(reference \<times> int) list"

definition waiting_for :: "counters \<Rightarrow> reference \<Rightarrow> int" where
  "waiting_for w ref = (case map_of w ref of None \<Rightarrow> 0 | Some n \<Rightarrow> n)"

definition init_waiting :: "reference list \<Rightarrow> edge list \<Rightarrow> counters" where
  "init_waiting refs edges =
     foldl (\<lambda>w e. AList.update (e_to e) (waiting_for w (e_to e) + 1) w)
       (map (\<lambda>r. (r, 0)) refs) edges"

fun free_step :: "counters \<times> reference list \<Rightarrow> edge \<Rightarrow> counters \<times> reference list" where
  "free_step (w, freed) e =
     (let w' = AList.update (e_to e) (waiting_for w (e_to e) - 1) w
      in (w', if waiting_for w' (e_to e) = 0 then freed @ [e_to e] else freed))"

fun sort_loop ::
    "nat \<Rightarrow> edge list \<Rightarrow> counters \<Rightarrow> reference list \<Rightarrow> reference list
      \<Rightarrow> counters \<times> reference list \<times> reference list" where
  "sort_loop 0 edges w ready order = (w, ready, order)"
| "sort_loop (Suc fuel) edges w ready order =
     (case ready of
        [] \<Rightarrow> (w, ready, order)
      | next # rest \<Rightarrow>
          (let (w', freed) = foldl free_step (w, []) (dependents edges next);
               ready' = (if freed \<noteq> [] then sort_refs (rest @ freed) else rest)
           in sort_loop fuel edges w' ready' (order @ [next])))"

text \<open>
  The walk of \<open>describeCycle\<close>: from a stuck node to the first of its dependencies that is stuck,
  until one is seen again. \<^const>\<open>None\<close> would be a walk the fuel cut short.
\<close>

fun cycle_walk ::
    "nat \<Rightarrow> edge list \<Rightarrow> reference list \<Rightarrow> reference \<Rightarrow> reference list \<Rightarrow> reference list
      \<Rightarrow> reference list option" where
  "cycle_walk 0 edges stuck current path seen = None"
| "cycle_walk (Suc fuel) edges stuck current path seen =
     (case find (\<lambda>e. e_from e \<in> set stuck) (dependencies edges current) of
        None \<Rightarrow> Some path
      | Some e \<Rightarrow>
          (let next = e_from e
           in if next \<in> set seen then Some (path @ [next])
              else cycle_walk fuel edges stuck next (path @ [next]) (next # seen)))"

definition stuck_refs :: "counters \<Rightarrow> reference list" where
  "stuck_refs w = sort_refs (map fst (filter (\<lambda>(ref, n). n > 0) w))"

definition describe_cycle :: "edge list \<Rightarrow> counters \<Rightarrow> string list option" where
  "describe_cycle edges w =
     (case stuck_refs w of
        [] \<Rightarrow> Some []
      | start # rest \<Rightarrow>
          map_option (map ref_string)
            (cycle_walk (length (start # rest)) edges (start # rest) start [start] [start]))"

text \<open>\<open>sort\<close>: the order, or the cycle to report.\<close>

definition graph_sort :: "reference list \<Rightarrow> edge list \<Rightarrow> string list option + reference list" where
  "graph_sort refs edges =
     (let w0 = init_waiting refs edges;
          ready = sort_refs (map fst (filter (\<lambda>(ref, n). n = 0) w0));
          (w, _, order) = sort_loop (length refs) edges w0 ready []
      in if length order \<noteq> length refs then Inl (describe_cycle edges w) else Inr order)"

subsection \<open>Validation\<close>

definition target_key :: "reference \<times> node \<Rightarrow> string" where
  "target_key rn = ref_type (fst rn) @ '' '' @ n_target (snd rn)"

text \<open>The references of each target in the order of the map; the keys with more than one.\<close>

definition refs_at :: "(reference \<times> node) list \<Rightarrow> string \<Rightarrow> reference list" where
  "refs_at nodes key = map fst (filter (\<lambda>rn. target_key rn = key) nodes)"

definition duplicate_keys :: "(reference \<times> node) list \<Rightarrow> string list" where
  "duplicate_keys nodes =
     sort (filter (\<lambda>key. length (refs_at nodes key) > 1) (remdups (map target_key nodes)))"

definition find_duplicate_targets :: "(reference \<times> node) list \<Rightarrow> errors \<Rightarrow> errors" where
  "find_duplicate_targets nodes errs =
     foldl (\<lambda>es key.
       let refs = sort_refs (refs_at nodes key);
           n = the (map_of nodes (hd refs))
       in add_error es (rv_position (n_resource n)) (GraphMsg (BothManage refs (n_target n))))
       errs (duplicate_keys nodes)"

definition edge_step ::
    "(reference \<times> node) list \<Rightarrow> string \<Rightarrow> resolved \<Rightarrow> edge_kind \<Rightarrow> edge list \<times> errors \<Rightarrow> reference
      \<Rightarrow> edge list \<times> errors" where
  "edge_step nodes host r k st dependency =
     (let (edges, errs) = st
      in if map_of nodes dependency = None then
           (edges, add_error errs (rv_position r)
              (GraphMsg (NotInManifest (rv_ref r) (edge_kind_string k) dependency host)))
         else if dependency = rv_ref r then
           (edges, add_error errs (rv_position r) (GraphMsg (DependsOnItself (rv_ref r))))
         else (edges @ [\<lparr>e_from = dependency, e_to = rv_ref r, e_kind = k\<rparr>], errs))"

definition resource_edges ::
    "(reference \<times> node) list \<Rightarrow> string \<Rightarrow> edge list \<times> errors \<Rightarrow> resolved \<Rightarrow> edge list \<times> errors" where
  "resource_edges nodes host st r =
     (if map_of nodes (rv_ref r) = None then st
      else foldl (edge_step nodes host r ReloadOn)
             (foldl (edge_step nodes host r RestartOn)
               (foldl (edge_step nodes host r Requires) st (rv_requires r))
             (rv_restartOn r))
           (rv_reloadOn r))"

definition edge_less :: "edge \<Rightarrow> edge \<Rightarrow> bool" where
  "edge_less a b =
     (if e_to a \<noteq> e_to b then ref_string (e_to a) < ref_string (e_to b)
      else ref_string (e_from a) < ref_string (e_from b))"

definition build_edges ::
    "(reference \<times> node) list \<Rightarrow> manifest \<Rightarrow> errors \<Rightarrow> edge list \<times> errors" where
  "build_edges nodes m errs =
     (let (edges, errs') = foldl (resource_edges nodes (mf_host m)) ([], errs) (mf_resources m)
      in (go_sort edge_less edges, errs'))"

text \<open>The first loop: one node for each resource with a target that is not protected.\<close>

definition add_node ::
    "protected_set \<Rightarrow> (reference \<times> node) list \<times> errors \<Rightarrow> resolved \<Rightarrow> (reference \<times> node) list \<times> errors" where
  "add_node protected st r =
     (let (nodes, errs) = st
      in case target_identity (ref_type (rv_ref r)) (ref_name (rv_ref r)) (rv_desired r) of
           Inl (_, field) \<Rightarrow>
             (nodes, add_error errs (rv_position r) (GraphMsg (NeedsIdentity (rv_ref r) field)))
         | Inr target \<Rightarrow>
             (case check_protected protected (rv_ref r) target (rv_desired r) of
                Some err \<Rightarrow>
                  (nodes, add_error errs (rv_position r) (GraphMsg (Protected (rv_ref r) err)))
              | None \<Rightarrow>
                  (AList.update (rv_ref r) \<lparr>n_resource = r, n_target = target\<rparr> nodes, errs)))"

definition build_protecting :: "manifest \<Rightarrow> protected_set \<Rightarrow> errors + graph" where
  "build_protecting m protected =
     (let (nodes, errs0) = foldl (add_node protected) ([], []) (mf_resources m);
          errs1 = find_duplicate_targets nodes errs0;
          (edges, errs2) = build_edges nodes m errs1
      in if errs2 \<noteq> [] then Inl (errors_list errs2)
         else case graph_sort (map fst nodes) edges of
           Inl cycle \<Rightarrow>
             Inl (errors_list (add_error errs2 no_position (GraphMsg (DependencyCycle (the cycle)))))
         | Inr order \<Rightarrow> Inr \<lparr>g_nodes = nodes, g_edges = edges, g_order = order\<rparr>)"

definition build :: "string option \<Rightarrow> manifest \<Rightarrow> errors + graph" where
  "build executable m = build_protecting m (protected_default executable)"

section \<open>Specification\<close>

definition edge_rel :: "edge list \<Rightarrow> (reference \<times> reference) set" where
  "edge_rel edges = (\<lambda>e. (e_from e, e_to e)) ` set edges"

text \<open>Every dependency comes before what waits for it.\<close>

definition topological :: "edge list \<Rightarrow> reference list \<Rightarrow> bool" where
  "topological edges order \<longleftrightarrow>
     (\<forall>e \<in> set edges. \<forall>ys zs. order = ys @ e_to e # zs \<longrightarrow> e_from e \<in> set ys)"

text \<open>The edges into a node whose source is not in the set.\<close>

definition waits :: "edge list \<Rightarrow> reference set \<Rightarrow> reference \<Rightarrow> int" where
  "waits edges done v = int (length (filter (\<lambda>e. e_to e = v \<and> e_from e \<notin> done) edges))"

text \<open>What holds each time round the ordering loop.\<close>

definition sort_inv ::
    "reference list \<Rightarrow> edge list \<Rightarrow> counters \<Rightarrow> reference list \<Rightarrow> reference list \<Rightarrow> bool" where
  "sort_inv refs edges w ready order \<longleftrightarrow>
     distinct (order @ ready) \<and> set (order @ ready) \<subseteq> set refs \<and> map fst w = refs
     \<and> (\<forall>v. waiting_for w v = waits edges (set order) v)
     \<and> (\<forall>v \<in> set refs. v \<in> set (order @ ready) \<longleftrightarrow> waiting_for w v = 0)
     \<and> topological edges order"

section \<open>Lemmas on the ordering\<close>

lemma waiting_for_update [simp]:
  "waiting_for (AList.update k n w) v = (if v = k then n else waiting_for w v)"
  by (simp add: waiting_for_def update_conv')

lemma sort_refs_simps [simp]: "set (sort_refs xs) = set xs" "distinct (sort_refs xs) = distinct xs"
    "length (sort_refs xs) = length xs"
  by (simp_all add: sort_refs_def)

lemma waits_Nil [simp]: "waits [] S v = 0" by (simp add: waits_def)

lemma waits_Cons [simp]:
  "waits (e # es) S v = waits es S v + (if e_to e = v \<and> e_from e \<notin> S then 1 else 0)"
  by (simp add: waits_def)

lemma waits_nonneg: "0 \<le> waits es S v" by (simp add: waits_def)

lemma waits_zero: "waits es S v = 0 \<longleftrightarrow> (\<forall>e \<in> set es. e_to e = v \<longrightarrow> e_from e \<in> S)"
  by (auto simp: waits_def filter_empty_conv)

lemma waits_insert:
  "x \<notin> S \<Longrightarrow> waits es S v = waits es (insert x S) v + waits (dependents es x) {} v"
  by (induction es) (auto simp: dependents_def)

lemma init_waiting_for:
  assumes "\<forall>e \<in> set edges. e_to e \<in> set refs"
  shows "waiting_for (init_waiting refs edges) v = waits edges {} v"
    and "map fst (init_waiting refs edges) = refs"
proof -
  have "waiting_for (foldl (\<lambda>w e. AList.update (e_to e) (waiting_for w (e_to e) + 1) w) w es) v
        = waiting_for w v + waits es {} v
      \<and> map fst (foldl (\<lambda>w e. AList.update (e_to e) (waiting_for w (e_to e) + 1) w) w es) = map fst w"
    if "\<forall>e \<in> set es. e_to e \<in> set (map fst w)" for es w
    using that
  proof (induction es arbitrary: w)
    case (Cons e es)
    let ?w = "AList.update (e_to e) (waiting_for w (e_to e) + 1) w"
    have "map fst ?w = map fst w" using Cons.prems by (simp add: update_keys)
    then show ?case using Cons.IH [of ?w] Cons.prems by auto
  qed simp
  from this [of edges "map (\<lambda>r. (r, 0)) refs"] assms
  have "waiting_for (init_waiting refs edges) v = waiting_for (map (\<lambda>r. (r, 0)) refs) v + waits edges {} v"
    and k: "map fst (init_waiting refs edges) = refs"
    by (simp_all add: init_waiting_def comp_def)
  moreover have "waiting_for (map (\<lambda>r. (r, 0)) refs) v = 0"
    by (induction refs) (auto simp: waiting_for_def)
  ultimately show "waiting_for (init_waiting refs edges) v = waits edges {} v"
    "map fst (init_waiting refs edges) = refs" by simp_all
qed

lemma free_fold:
  assumes "\<forall>e \<in> set es. e_to e \<in> set (map fst w)" "\<forall>v. waits es {} v \<le> waiting_for w v"
  shows "\<exists>w' xs. foldl free_step (w, freed) es = (w', freed @ xs) \<and> map fst w' = map fst w
    \<and> (\<forall>v. waiting_for w' v = waiting_for w v - waits es {} v) \<and> distinct xs
    \<and> set xs = {v. waits es {} v > 0 \<and> waiting_for w v = waits es {} v}"
  using assms
proof (induction es arbitrary: w freed)
  case (Cons e es)
  let ?w = "AList.update (e_to e) (waiting_for w (e_to e) - 1) w"
  let ?f = "if waiting_for ?w (e_to e) = 0 then [e_to e] else []"
  have keys: "map fst ?w = map fst w" using Cons.prems(1) by (simp add: update_keys)
  have le: "\<forall>v. waits es {} v \<le> waiting_for ?w v"
  proof
    fix v show "waits es {} v \<le> waiting_for ?w v"
      using spec [OF Cons.prems(2), of v] by (auto split: if_splits)
  qed
  from Cons.IH [OF _ le, of "freed @ ?f"] Cons.prems(1) keys
  obtain w' xs where r: "foldl free_step (?w, freed @ ?f) es = (w', (freed @ ?f) @ xs)"
    "map fst w' = map fst ?w" "\<forall>v. waiting_for w' v = waiting_for ?w v - waits es {} v" "distinct xs"
    "set xs = {v. waits es {} v > 0 \<and> waiting_for ?w v = waits es {} v}" by auto
  have step: "free_step (w, freed) e = (?w, freed @ ?f)" by (simp add: Let_def)
  have zero: "waits es {} (e_to e) = 0" if "waiting_for ?w (e_to e) = 0"
    using spec [OF le, of "e_to e"] that waits_nonneg [of es "{}" "e_to e"] by (intro order_antisym) simp_all
  have "set (?f @ xs) = {v. waits (e # es) {} v > 0 \<and> waiting_for w v = waits (e # es) {} v}"
  proof (rule set_eqI)
    fix v
    show "v \<in> set (?f @ xs) \<longleftrightarrow> v \<in> {v. waits (e # es) {} v > 0 \<and> waiting_for w v = waits (e # es) {} v}"
      using zero waits_nonneg [of es "{}" v] by (cases "v = e_to e") (auto simp: r(5))
  qed
  moreover have "distinct (?f @ xs)" using r(4,5) zero by auto
  ultimately show ?case
    using r keys step by (intro exI [of _ w'] exI [of _ "?f @ xs"]) auto
qed simp

lemma topological_snoc:
  assumes "topological edges order" "\<forall>e \<in> set edges. e_to e = x \<longrightarrow> e_from e \<in> set order"
  shows "topological edges (order @ [x])"
  unfolding topological_def
proof (intro ballI allI impI)
  fix e ys zs assume e: "e \<in> set edges" "order @ [x] = ys @ e_to e # zs"
  show "e_from e \<in> set ys"
  proof (cases zs rule: rev_cases)
    case Nil
    then show ?thesis using e assms(2) by auto
  next
    case (snoc zs' z)
    then have "order = ys @ e_to e # zs'" using e(2) by simp
    then show ?thesis using assms(1) e(1) by (auto simp: topological_def)
  qed
qed

lemma sort_step_inv:
  assumes inv: "sort_inv refs edges w (next # rest) order"
    and E: "\<forall>e \<in> set edges. e_to e \<in> set refs"
    and f: "foldl free_step (w, []) (dependents edges next) = (w', freed)"
  shows "sort_inv refs edges w' (if freed \<noteq> [] then sort_refs (rest @ freed) else rest) (order @ [next])"
proof -
  have i: "distinct (order @ next # rest)" "set (order @ next # rest) \<subseteq> set refs" "map fst w = refs"
    "\<And>v. waiting_for w v = waits edges (set order) v"
    "\<And>v. v \<in> set refs \<Longrightarrow> v \<in> set (order @ next # rest) \<longleftrightarrow> waiting_for w v = 0" "topological edges order"
    using inv by (auto simp: sort_inv_def)
  have split: "waits edges (set order) v = waits edges (set (order @ [next])) v + waits (dependents edges next) {} v" for v
    using waits_insert [of "next" "set order" edges v] i(1) by simp
  have le: "\<forall>v. waits (dependents edges next) {} v \<le> waiting_for w v"
    using i(4) split waits_nonneg by simp
  have "\<forall>e \<in> set (dependents edges next). e_to e \<in> set (map fst w)"
    using E i(3) by (simp add: dependents_def)
  from free_fold [OF this le, of "[]"] f have r: "map fst w' = map fst w"
    "\<And>v. waiting_for w' v = waiting_for w v - waits (dependents edges next) {} v" "distinct freed"
    "set freed = {v. waits (dependents edges next) {} v > 0 \<and> waiting_for w v = waits (dependents edges next) {} v}"
    by auto
  have w': "waiting_for w' v = waits edges (set (order @ [next])) v" for v
    using r(2) i(4) split by simp
  have fresh: "set freed \<inter> set (order @ next # rest) = {}"
  proof (rule equals0I)
    fix v assume "v \<in> set freed \<inter> set (order @ next # rest)"
    then show False using i(5) [of v] i(2) r(4) by force
  qed
  have zero: "v \<in> set (order @ next # rest) \<union> set freed \<longleftrightarrow> waiting_for w' v = 0" if "v \<in> set refs" for v
  proof -
    have mem: "v \<in> set freed \<longleftrightarrow> 0 < waits (dependents edges next) {} v \<and> waiting_for w v = waits (dependents edges next) {} v"
      unfolding r(4) by simp
    have "0 \<le> waits (dependents edges next) {} v" by (rule waits_nonneg)
    then show ?thesis
      unfolding Un_iff i(5) [OF that] mem r(2) using spec [OF le, of v] by linarith
  qed
  have "waits edges (set order) next = 0" using i(2) i(4) [of "next"] i(5) [of "next"] by auto
  then have "topological edges (order @ [next])"
    using topological_snoc [OF i(6)] by (simp add: waits_zero)
  have "set freed \<subseteq> set refs"
  proof
    fix v assume "v \<in> set freed"
    then have "waits (dependents edges next) {} v \<noteq> 0" using r(4) by auto
    then show "v \<in> set refs" using E by (auto simp: waits_zero dependents_def)
  qed
  define R where "R = (if freed \<noteq> [] then sort_refs (rest @ freed) else rest)"
  have R: "set R = set rest \<union> set freed" by (simp add: R_def)
  have dR: "distinct R" using i(1) r(3) fresh by (auto simp: R_def)
  have all: "set ((order @ [next]) @ R) = set (order @ next # rest) \<union> set freed" using R by auto
  have "distinct ((order @ [next]) @ R)" using i(1) dR R fresh by auto
  moreover have "set ((order @ [next]) @ R) \<subseteq> set refs"
    unfolding all using i(2) \<open>set freed \<subseteq> set refs\<close> by blast
  moreover have "map fst w' = refs" using r(1) i(3) by simp
  moreover have "\<forall>v \<in> set refs. v \<in> set ((order @ [next]) @ R) \<longleftrightarrow> waiting_for w' v = 0"
    unfolding all using zero by blast
  ultimately show ?thesis
    unfolding sort_inv_def R_def [symmetric] using w' \<open>topological edges (order @ [next])\<close>
    by (intro conjI allI) (assumption | rule w')+
qed

lemma sort_loop_inv:
  assumes "sort_inv refs edges w ready order" "\<forall>e \<in> set edges. e_to e \<in> set refs"
    and "length refs \<le> length order + fuel"
  shows "\<exists>w' order'. sort_loop fuel edges w ready order = (w', [], order')
    \<and> sort_inv refs edges w' [] order'"
  using assms
proof (induction fuel arbitrary: w ready order)
  case 0
  have "distinct (order @ ready)" "set (order @ ready) \<subseteq> set refs"
    using 0(1) by (auto simp: sort_inv_def)
  then have "length (order @ ready) \<le> length refs"
    by (metis List.finite_set card_length card_mono distinct_card le_trans)
  then have "ready = []" using 0(3) by (cases ready) auto
  then show ?case using 0 by simp
next
  case (Suc fuel)
  show ?case
  proof (cases ready)
    case Nil
    then show ?thesis using Suc.prems by simp
  next
    case (Cons n rest)
    obtain w' freed where f: "foldl free_step (w, []) (dependents edges n) = (w', freed)" by fastforce
    have "sort_inv refs edges w' (if freed \<noteq> [] then sort_refs (rest @ freed) else rest) (order @ [n])"
      by (rule sort_step_inv [OF _ Suc.prems(2) f]) (use Suc.prems(1) Cons in simp)
    from Suc.IH [OF this Suc.prems(2)] Suc.prems(3) show ?thesis
      by (simp add: Cons f)
  qed
qed

lemma keys_where:
  assumes "distinct (map fst w)"
  shows "set (map fst (filter (\<lambda>(ref, n). P n) w)) = {r \<in> set (map fst w). P (waiting_for w r)}"
proof (rule set_eqI)
  fix r
  have get: "waiting_for w r = n" if "(r, n) \<in> set w" for n
    using that assms by (simp add: waiting_for_def)
  have "r \<in> set (map fst (filter (\<lambda>(ref, n). P n) w)) \<longleftrightarrow> (\<exists>n. (r, n) \<in> set w \<and> P n)" by force
  also have "\<dots> \<longleftrightarrow> (\<exists>n. (r, n) \<in> set w) \<and> P (waiting_for w r)" using get by blast
  also have "\<dots> \<longleftrightarrow> r \<in> {r \<in> set (map fst w). P (waiting_for w r)}" by force
  finally show "r \<in> set (map fst (filter (\<lambda>(ref, n). P n) w)) \<longleftrightarrow> r \<in> {r \<in> set (map fst w). P (waiting_for w r)}" .
qed

lemma sort_inv_init:
  assumes "distinct refs" "\<forall>e \<in> set edges. e_to e \<in> set refs"
  shows "sort_inv refs edges (init_waiting refs edges)
    (sort_refs (map fst (filter (\<lambda>(ref, n). n = 0) (init_waiting refs edges)))) []"
proof -
  note w = init_waiting_for [OF assms(2)]
  let ?w = "init_waiting refs edges"
  have d: "distinct (map fst ?w)" using assms(1) w(2) by simp
  then have d': "distinct (map fst (filter P ?w))" for P by (rule distinct_map_filter)
  have mem: "set (sort_refs (map fst (filter (\<lambda>(ref, n). n = 0) ?w))) = {r \<in> set refs. waiting_for ?w r = 0}"
    using keys_where [OF d, of "\<lambda>n. n = 0"] w(2) by simp
  show ?thesis
    unfolding sort_inv_def append_Nil mem
  proof (intro conjI)
    show "distinct (sort_refs (map fst (filter (\<lambda>(ref, n). n = 0) ?w)))"
      unfolding sort_refs_simps by (rule d')
    show "\<forall>v. waiting_for ?w v = waits edges (set []) v" using w(1) by simp
    show "topological edges []" by (simp add: topological_def)
  qed (use w(2) in auto)
qed

lemma find_SomeD: "find P xs = Some x \<Longrightarrow> x \<in> set xs \<and> P x"
  by (induction xs) (auto split: if_splits)

text \<open>The nodes left over each wait for another one left over.\<close>

lemma stuck_set:
  assumes "sort_inv refs edges w [] order"  "distinct refs"
  shows "set (stuck_refs w) = set refs - set order" and "distinct (stuck_refs w)"
proof -
  have i: "map fst w = refs" "\<And>v. v \<in> set refs \<Longrightarrow> v \<in> set order \<longleftrightarrow> waiting_for w v = 0"
    "\<And>v. 0 \<le> waiting_for w v"
    using assms(1) waits_nonneg by (auto simp: sort_inv_def)
  then have d: "distinct (map fst w)" using assms(2) by simp
  then show "distinct (stuck_refs w)"
    unfolding stuck_refs_def sort_refs_simps by (rule distinct_map_filter)
  have "set (stuck_refs w) = {r \<in> set refs. waiting_for w r > 0}"
    using keys_where [OF d, of "\<lambda>n. n > 0"] i(1) by (simp add: stuck_refs_def)
  then show "set (stuck_refs w) = set refs - set order"
    using i(2,3) by (auto simp: order_less_le)
qed

lemma stuck_waits:
  assumes "sort_inv refs edges w [] order" "distinct refs" "\<forall>e \<in> set edges. e_from e \<in> set refs"
    and "v \<in> set (stuck_refs w)"
  shows "\<exists>e. find (\<lambda>e. e_from e \<in> set (stuck_refs w)) (dependencies edges v) = Some e
    \<and> e \<in> set edges \<and> e_to e = v \<and> e_from e \<in> set (stuck_refs w)"
proof -
  note s = stuck_set [OF assms(1,2)]
  have "v \<in> set refs" "v \<notin> set order" using assms(4) s by auto
  then have "waits edges (set order) v \<noteq> 0" using assms(1) by (auto simp: sort_inv_def)
  then obtain e where e: "e \<in> set edges" "e_to e = v" "e_from e \<notin> set order" by (auto simp: waits_zero)
  then have "\<exists>e \<in> set (dependencies edges v). e_from e \<in> set (stuck_refs w)"
    using assms(3) s by (auto simp: dependencies_def)
  then obtain e where "find (\<lambda>e. e_from e \<in> set (stuck_refs w)) (dependencies edges v) = Some e"
    by (metis find_None_iff option.exhaust)
  with find_SomeD [OF this] show ?thesis by (auto simp: dependencies_def)
qed

text \<open>The walk ends within one turn per stuck node and retraces real edges to a repeated node.\<close>

definition waits_on :: "edge list \<Rightarrow> reference \<Rightarrow> reference \<Rightarrow> bool" where
  "waits_on edges a b \<longleftrightarrow> (\<exists>e \<in> set edges. e_to e = a \<and> e_from e = b)"

lemma cycle_walk_result:
  assumes stuck: "\<And>v. v \<in> set stuck \<Longrightarrow> \<exists>e. find (\<lambda>e. e_from e \<in> set stuck) (dependencies edges v) = Some e
      \<and> e \<in> set edges \<and> e_to e = v \<and> e_from e \<in> set stuck"
    and "current \<in> set stuck" "distinct seen" "set seen \<subseteq> set stuck" "set path = set seen"
    and "path = ps @ [current]" "successively (waits_on edges) path"
    and "length stuck < length seen + fuel"
  shows "\<exists>cyc. cycle_walk fuel edges stuck current path seen = Some cyc
    \<and> successively (waits_on edges) cyc \<and> last cyc \<in> set (butlast cyc) \<and> length path < length cyc"
  using assms(2-)
proof (induction fuel arbitrary: current path seen ps)
  case 0
  have "length seen \<le> length stuck"
    using 0(2,3) by (metis List.finite_set card_length card_mono distinct_card le_trans)
  then show ?case using 0 by simp
next
  case (Suc fuel)
  obtain e where e: "find (\<lambda>e. e_from e \<in> set stuck) (dependencies edges current) = Some e"
    "e \<in> set edges" "e_to e = current" "e_from e \<in> set stuck"
    using stuck [OF Suc.prems(1)] by blast
  have succ: "successively (waits_on edges) (path @ [e_from e])"
    using Suc.prems(5,6) e by (auto simp: successively_append_iff waits_on_def)
  show ?case
  proof (cases "e_from e \<in> set seen")
    case True
    then show ?thesis using e succ Suc.prems(4) by simp
  next
    case False
    have "\<exists>cyc. cycle_walk fuel edges stuck (e_from e) (path @ [e_from e]) (e_from e # seen) = Some cyc
        \<and> successively (waits_on edges) cyc \<and> last cyc \<in> set (butlast cyc) \<and> length (path @ [e_from e]) < length cyc"
      by (rule Suc.IH) (use e succ False Suc.prems in auto)
    then show ?thesis using e False by auto
  qed
qed

lemma topological_acyclic:
  assumes "topological edges order" "\<forall>e \<in> set edges. e_to e \<in> set order" "distinct order"
  shows "acyclic (edge_rel edges)"
proof -
  have lt: "\<exists>i < j. order ! i = a" if "(a, b) \<in> edge_rel edges" "j < length order" "order ! j = b" for a b j
  proof -
    from that(1) obtain e where e: "e \<in> set edges" "e_from e = a" "e_to e = b" by (auto simp: edge_rel_def)
    have "order = take j order @ e_to e # drop (Suc j) order"
      using id_take_nth_drop [OF that(2)] that(3) e(3) by simp
    then have "a \<in> set (take j order)" using assms(1) e unfolding topological_def by blast
    then show ?thesis using that(2) by (auto simp: in_set_conv_nth)
  qed
  have "\<exists>i < j. order ! i = a" if "(a, b) \<in> (edge_rel edges)\<^sup>+" "j < length order" "order ! j = b" for a b j
    using that
  proof (induction arbitrary: j rule: trancl_induct)
    case (base b)
    then show ?case using lt by blast
  next
    case (step b c)
    then show ?case using lt by (metis order_less_trans)
  qed
  moreover have "a \<in> set order" if "(a, a) \<in> (edge_rel edges)\<^sup>+" for a
    using that assms(2) by (auto simp: edge_rel_def dest: tranclD2)
  ultimately show ?thesis
    using assms(3) by (auto simp: acyclic_def in_set_conv_nth)
      (metis nth_eq_iff_index_eq order_less_irrefl order_less_trans)
qed

lemma stuck_not_acyclic:
  assumes "S \<noteq> {}" "finite S" "\<And>v. v \<in> S \<Longrightarrow> \<exists>u \<in> S. (u, v) \<in> R" "finite R"
  shows "\<not> acyclic R"
proof
  assume "acyclic R"
  then have "wf R" using assms(4) by (rule finite_acyclic_wf [rotated])
  then obtain v where "v \<in> S" "\<And>u. (u, v) \<in> R \<Longrightarrow> u \<notin> S"
    using assms(1) by (metis wfE_min all_not_in_conv)
  then show False using assms(3) by blast
qed

lemma graph_sort_result:
  assumes "distinct refs" "\<forall>e \<in> set edges. e_to e \<in> set refs \<and> e_from e \<in> set refs"
  shows "case graph_sort refs edges of
      Inr order \<Rightarrow> distinct order \<and> set order = set refs \<and> topological edges order \<and> acyclic (edge_rel edges)
    | Inl c \<Rightarrow> (\<exists>cyc. c = Some (map ref_string cyc) \<and> successively (waits_on edges) cyc
        \<and> last cyc \<in> set (butlast cyc)) \<and> \<not> acyclic (edge_rel edges)"
proof -
  have to: "\<forall>e \<in> set edges. e_to e \<in> set refs" and fr: "\<forall>e \<in> set edges. e_from e \<in> set refs"
    using assms(2) by auto
  obtain w order where loop: "sort_loop (length refs) edges (init_waiting refs edges)
      (sort_refs (map fst (filter (\<lambda>(ref, n). n = 0) (init_waiting refs edges)))) [] = (w, [], order)"
    and inv: "sort_inv refs edges w [] order"
    using sort_loop_inv [OF sort_inv_init [OF assms(1) to] to, of "length refs"] by auto
  have o: "distinct order" "set order \<subseteq> set refs" "topological edges order"
    using inv by (auto simp: sort_inv_def)
  have all: "length order = length refs \<longleftrightarrow> set order = set refs"
    using o(1,2) assms(1) by (metis List.finite_set card_subset_eq distinct_card)
  note s = stuck_set [OF inv assms(1)]
  note waits = stuck_waits [OF inv assms(1) fr]
  show ?thesis
  proof (cases "set order = set refs")
    case True
    then show ?thesis
      using o all topological_acyclic [OF o(3) _ o(1)] to by (simp add: graph_sort_def loop)
  next
    case False
    then obtain start rest where st: "stuck_refs w = start # rest"
      using s(1) o(2) by (cases "stuck_refs w") auto
    have "\<exists>cyc. cycle_walk (length (start # rest)) edges (start # rest) start [start] [start] = Some cyc
        \<and> successively (waits_on edges) cyc \<and> last cyc \<in> set (butlast cyc) \<and> length [start] < length cyc"
      by (rule cycle_walk_result [where ps = "[]"]) (use waits st in auto)
    then obtain cyc where "describe_cycle edges w = Some (map ref_string cyc)"
      "successively (waits_on edges) cyc" "last cyc \<in> set (butlast cyc)"
      by (auto simp: describe_cycle_def st)
    moreover have "\<not> acyclic (edge_rel edges)"
      by (rule stuck_not_acyclic [of "set (stuck_refs w)"])
        (use st waits in \<open>force simp: edge_rel_def\<close>)+
    ultimately show ?thesis using False all by (auto simp: graph_sort_def loop intro!: exI [of _ cyc])
  qed
qed

section \<open>Lemmas on the validation\<close>

definition target_of :: "resolved \<Rightarrow> string option" where
  "target_of r =
     (case target_identity (ref_type (rv_ref r)) (ref_name (rv_ref r)) (rv_desired r) of
        Inl _ \<Rightarrow> None | Inr t \<Rightarrow> Some t)"

definition target_ok :: "protected_set \<Rightarrow> resolved \<Rightarrow> bool" where
  "target_ok protected r \<longleftrightarrow>
     (\<exists>t. target_of r = Some t \<and> check_protected protected (rv_ref r) t (rv_desired r) = None)"

definition all_refs :: "resolved \<Rightarrow> reference list" where
  "all_refs r = rv_requires r @ rv_restartOn r @ rv_reloadOn r"

definition edges_of :: "resolved \<Rightarrow> edge list" where
  "edges_of r =
     map (\<lambda>d. \<lparr>e_from = d, e_to = rv_ref r, e_kind = Requires\<rparr>) (rv_requires r)
     @ map (\<lambda>d. \<lparr>e_from = d, e_to = rv_ref r, e_kind = RestartOn\<rparr>) (rv_restartOn r)
     @ map (\<lambda>d. \<lparr>e_from = d, e_to = rv_ref r, e_kind = ReloadOn\<rparr>) (rv_reloadOn r)"

definition depends :: "manifest \<Rightarrow> (reference \<times> reference) set" where
  "depends m = {(d, rv_ref r) | d r. r \<in> set (mf_resources m) \<and> d \<in> set (all_refs r)}"

definition node_of :: "resolved \<Rightarrow> reference \<times> node" where
  "node_of r = (rv_ref r, \<lparr>n_resource = r, n_target = the (target_of r)\<rparr>)"

lemma add_error_not_Nil [simp]: "add_error es p m \<noteq> []"
  by (simp add: add_error_def)

lemma add_node_step:
  "add_node protected (nodes, errs) r =
     (if target_ok protected r then (AList.update (rv_ref r) (snd (node_of r)) nodes, errs)
      else (nodes, snd (add_node protected (nodes, errs) r)))"
  "snd (add_node protected (nodes, errs) r) = [] \<longleftrightarrow> errs = [] \<and> target_ok protected r"
  by (auto simp: add_node_def target_ok_def target_of_def node_of_def split: sum.splits option.splits)

lemma add_nodes:
  assumes "distinct (map fst nodes @ map rv_ref rs)"
  shows "snd (foldl (add_node protected) (nodes, errs) rs) = [] \<longleftrightarrow> errs = [] \<and> list_all (target_ok protected) rs"
    and "list_all (target_ok protected) rs
      \<Longrightarrow> fst (foldl (add_node protected) (nodes, errs) rs) = nodes @ map node_of rs"
proof -
  have "(snd (foldl (add_node protected) (nodes, errs) rs) = [] \<longleftrightarrow> errs = [] \<and> list_all (target_ok protected) rs)
    \<and> (list_all (target_ok protected) rs
      \<longrightarrow> fst (foldl (add_node protected) (nodes, errs) rs) = nodes @ map node_of rs)"
    using assms
  proof (induction rs arbitrary: nodes errs)
    case (Cons r rs)
    let ?st = "add_node protected (nodes, errs) r"
    show ?case
    proof (cases "target_ok protected r")
      case True
      have "rv_ref r \<notin> fst ` set nodes" using Cons.prems by auto
      then have upd: "AList.update (rv_ref r) (snd (node_of r)) nodes = nodes @ [node_of r]"
        by (induction nodes) (auto simp: node_of_def)
      have st: "?st = (nodes @ [node_of r], errs)" using add_node_step(1) [of protected nodes errs r] True upd by (simp only: if_True)
      have "distinct (map fst (nodes @ [node_of r]) @ map rv_ref rs)"
        using Cons.prems by (auto simp: node_of_def)
      from Cons.IH [OF this] show ?thesis using True st by simp
    next
      case False
      have "snd (foldl (add_node protected) st rs) \<noteq> []" if "snd st \<noteq> []" for st
        using that
      proof (induction rs arbitrary: st)
        case (Cons r rs)
        then show ?case using add_node_step(2) [of protected "fst st" "snd st" r] by simp
      qed simp
      moreover have "snd ?st \<noteq> []" using False add_node_step(2) by blast
      ultimately show ?thesis using False by simp
    qed
  qed simp
  then show "snd (foldl (add_node protected) (nodes, errs) rs) = [] \<longleftrightarrow> errs = [] \<and> list_all (target_ok protected) rs"
    and "list_all (target_ok protected) rs
      \<Longrightarrow> fst (foldl (add_node protected) (nodes, errs) rs) = nodes @ map node_of rs" by blast+
qed

lemma distinct_by_count: "distinct (map f xs) \<longleftrightarrow> (\<forall>k \<in> f ` set xs. length (filter (\<lambda>x. f x = k) xs) \<le> 1)"
proof (induction xs)
  case (Cons x xs)
  show ?case
  proof
    assume "distinct (map f (x # xs))"
    then show "\<forall>k \<in> f ` set (x # xs). length (filter (\<lambda>y. f y = k) (x # xs)) \<le> 1"
      using Cons by (auto simp: filter_empty_conv) (metis image_eqI)
  next
    assume r: "\<forall>k \<in> f ` set (x # xs). length (filter (\<lambda>y. f y = k) (x # xs)) \<le> 1"
    then have "filter (\<lambda>y. f y = f x) xs = []" by auto
    then have "f x \<notin> f ` set xs" by (auto simp: filter_empty_conv)
    moreover have "length (filter (\<lambda>y. f y = k) xs) \<le> 1" if "k \<in> f ` set xs" for k
      using bspec [OF r, of k] that by (cases "f x = k") simp_all
    then have "distinct (map f xs)" unfolding Cons by blast
    ultimately show "distinct (map f (x # xs))" by simp
  qed
qed simp

lemma find_duplicate_targets_Nil:
  "find_duplicate_targets nodes errs = [] \<longleftrightarrow> errs = [] \<and> distinct (map target_key nodes)"
proof -
  have "foldl (\<lambda>es key. add_error es (p key) (g key)) errs keys = [] \<longleftrightarrow> errs = [] \<and> keys = []" for p g keys
    by (induction keys arbitrary: errs) (auto simp: add_error_def)
  then have "find_duplicate_targets nodes errs = [] \<longleftrightarrow> errs = [] \<and> duplicate_keys nodes = []"
    by (simp add: find_duplicate_targets_def Let_def)
  also have "duplicate_keys nodes = [] \<longleftrightarrow> distinct (map target_key nodes)"
  proof -
    have "duplicate_keys nodes = [] \<longleftrightarrow>
        filter (\<lambda>key. length (refs_at nodes key) > 1) (remdups (map target_key nodes)) = []"
      by (simp add: duplicate_keys_def) (metis mset_sort mset_zero_iff)
    then show ?thesis
      by (auto simp: distinct_by_count filter_empty_conv refs_at_def not_less)
  qed
  finally show ?thesis .
qed

lemma edge_steps:
  "snd (foldl (edge_step nodes host r k) st ds) = [] \<longleftrightarrow>
     snd st = [] \<and> (\<forall>d \<in> set ds. map_of nodes d \<noteq> None \<and> d \<noteq> rv_ref r)"
  "(\<forall>d \<in> set ds. map_of nodes d \<noteq> None \<and> d \<noteq> rv_ref r) \<Longrightarrow>
     fst (foldl (edge_step nodes host r k) st ds)
       = fst st @ map (\<lambda>d. \<lparr>e_from = d, e_to = rv_ref r, e_kind = k\<rparr>) ds"
proof (induction ds arbitrary: st)
  case (Cons d ds)
  { case 1
    show ?case using Cons(1) [of "edge_step nodes host r k st d"]
      by (cases st) (auto simp: edge_step_def)
  next
    case 2
    then show ?case using Cons(2) [of "edge_step nodes host r k st d"]
      by (cases st) (auto simp: edge_step_def)
  }
qed simp_all

lemma resource_edges_all:
  assumes "\<forall>r \<in> set rs. map_of nodes (rv_ref r) \<noteq> None"
  shows "snd (foldl (resource_edges nodes host) st rs) = [] \<longleftrightarrow>
      snd st = [] \<and> (\<forall>r \<in> set rs. \<forall>d \<in> set (all_refs r). map_of nodes d \<noteq> None \<and> d \<noteq> rv_ref r)"
    and "(\<forall>r \<in> set rs. \<forall>d \<in> set (all_refs r). map_of nodes d \<noteq> None \<and> d \<noteq> rv_ref r)
      \<Longrightarrow> fst (foldl (resource_edges nodes host) st rs) = fst st @ concat (map edges_of rs)"
  using assms
proof (induction rs arbitrary: st)
  case (Cons r rs)
  { case 1
    then show ?case using Cons(1) [of "resource_edges nodes host st r"]
      by (auto simp: resource_edges_def edge_steps(1) all_refs_def)
  next
    case 2
    then show ?case using Cons(2) [of "resource_edges nodes host st r"]
      by (auto simp: resource_edges_def edge_steps(2) all_refs_def edges_of_def)
  }
qed simp_all

lemma set_edges_of:
  "e \<in> set (edges_of r) \<Longrightarrow> e_to e = rv_ref r \<and> e_from e \<in> set (all_refs r)"
  "d \<in> set (all_refs r) \<Longrightarrow> \<exists>e \<in> set (edges_of r). e_to e = rv_ref r \<and> e_from e = d"
  by (force simp: edges_of_def all_refs_def)+

lemma target_key_node: "target_key (node_of r) = ref_type (rv_ref r) @ '' '' @ the (target_of r)"
  by (simp add: target_key_def node_of_def)

text \<open>The conditions that have to hold before the resources are ordered.\<close>

definition checked :: "manifest \<Rightarrow> protected_set \<Rightarrow> bool" where
  "checked m protected \<longleftrightarrow> list_all (target_ok protected) (mf_resources m)
     \<and> distinct (map (\<lambda>r. ref_type (rv_ref r) @ '' '' @ the (target_of r)) (mf_resources m))
     \<and> (\<forall>r \<in> set (mf_resources m). \<forall>d \<in> set (all_refs r). d \<in> rv_ref ` set (mf_resources m) \<and> d \<noteq> rv_ref r)"

lemma resource_edges_grow:
  "snd (foldl (resource_edges nodes h) st rs) = [] \<Longrightarrow> snd st = []"
proof (induction rs arbitrary: st)
  case (Cons r rs)
  from Cons.prems have "snd (foldl (resource_edges nodes h) (resource_edges nodes h st r) rs) = []"
    unfolding foldl.simps .
  from Cons.IH [OF this] show ?case
    by (cases "map_of nodes (rv_ref r) = None") (simp_all add: resource_edges_def edge_steps(1))
qed (simp only: foldl.simps)

lemma map_of_node_of: "map_of (map node_of rs) x \<noteq> None \<longleftrightarrow> x \<in> rv_ref ` set rs"
  by (induction rs) (auto simp: node_of_def)

lemma build_stages:
  assumes d: "distinct (map rv_ref (mf_resources m))"
    and n: "foldl (add_node protected) ([], []) (mf_resources m) = (nodes, errs0)"
    and e: "foldl (resource_edges nodes (mf_host m)) ([], find_duplicate_targets nodes errs0) (mf_resources m) = (edges, errs)"
  shows "errs = [] \<longleftrightarrow> checked m protected"
    and "checked m protected \<Longrightarrow> nodes = map node_of (mf_resources m) \<and> edges = concat (map edges_of (mf_resources m))"
proof -
  let ?rs = "mf_resources m" and ?errs1 = "find_duplicate_targets nodes errs0"
  note a = add_nodes [of "[]" ?rs protected "[]", simplified, OF d]
  have ok: "errs0 = [] \<longleftrightarrow> list_all (target_ok protected) ?rs" using a(1) n by simp
  have nodes: "nodes = map node_of ?rs" if "errs0 = []" using a(2) n ok that by simp
  have dup: "?errs1 = [] \<longleftrightarrow> errs0 = []
      \<and> distinct (map (\<lambda>r. ref_type (rv_ref r) @ '' '' @ the (target_of r)) ?rs)"
    using nodes by (auto simp: find_duplicate_targets_Nil target_key_node comp_def)
  have all: "\<forall>r \<in> set ?rs. map_of nodes (rv_ref r) \<noteq> None" if "errs0 = []"
    unfolding nodes [OF that] map_of_node_of by blast
  have refs: "errs = [] \<longleftrightarrow> ?errs1 = [] \<and> (\<forall>r \<in> set ?rs. \<forall>d \<in> set (all_refs r). d \<in> rv_ref ` set ?rs \<and> d \<noteq> rv_ref r)"
    if "errs0 = []"
    using resource_edges_all(1) [OF all [OF that], of "mf_host m" "([], ?errs1)"] e
    unfolding nodes [OF that] map_of_node_of by simp
  have "errs = [] \<Longrightarrow> ?errs1 = []"
    using resource_edges_grow [of nodes "mf_host m" "([], ?errs1)" ?rs] e by simp
  then show iff: "errs = [] \<longleftrightarrow> checked m protected"
    using refs dup ok unfolding checked_def by blast
  assume c: "checked m protected"
  then have e0: "errs0 = []" using ok by (simp add: checked_def)
  have "\<forall>r \<in> set ?rs. \<forall>d \<in> set (all_refs r). map_of nodes d \<noteq> None \<and> d \<noteq> rv_ref r"
    using c unfolding nodes [OF e0] map_of_node_of checked_def by blast
  from resource_edges_all(2) [OF all [OF e0] this, of "mf_host m" "([], ?errs1)"] e nodes [OF e0]
  show "nodes = map node_of ?rs \<and> edges = concat (map edges_of ?rs)" by simp
qed

lemma build_protecting_cases:
  assumes d: "distinct (map rv_ref (mf_resources m))"
  defines "edges \<equiv> go_sort edge_less (concat (map edges_of (mf_resources m)))"
  shows "checked m protected \<Longrightarrow> build_protecting m protected =
      (case graph_sort (map rv_ref (mf_resources m)) edges of
         Inl cycle \<Rightarrow> Inl (errors_list (add_error [] no_position (GraphMsg (DependencyCycle (the cycle)))))
       | Inr order \<Rightarrow> Inr \<lparr>g_nodes = map node_of (mf_resources m), g_edges = edges, g_order = order\<rparr>)"
    and "\<not> checked m protected \<Longrightarrow> \<exists>es. build_protecting m protected = Inl es"
proof -
  obtain nodes errs0 where n: "foldl (add_node protected) ([], []) (mf_resources m) = (nodes, errs0)" by fastforce
  obtain es errs where e: "foldl (resource_edges nodes (mf_host m))
      ([], find_duplicate_targets nodes errs0) (mf_resources m) = (es, errs)" by fastforce
  have r: "build_protecting m protected = (if errs \<noteq> [] then Inl (errors_list errs)
      else case graph_sort (map fst nodes) (go_sort edge_less es) of
        Inl cycle \<Rightarrow> Inl (errors_list (add_error errs no_position (GraphMsg (DependencyCycle (the cycle)))))
      | Inr order \<Rightarrow> Inr \<lparr>g_nodes = nodes, g_edges = go_sort edge_less es, g_order = order\<rparr>)"
    by (simp add: build_protecting_def n build_edges_def e)
  note st = build_stages [OF d n e]
  show "\<exists>es. build_protecting m protected = Inl es" if "\<not> checked m protected"
    using r st(1) that by simp
  assume c: "checked m protected"
  have nodes: "nodes = map node_of (mf_resources m)" and es: "es = concat (map edges_of (mf_resources m))"
    and errs: "errs = []" using st(1) st(2) [OF c] c by auto
  have names: "map fst nodes = map rv_ref (mf_resources m)" unfolding nodes by (simp add: node_of_def)
  show "build_protecting m protected =
      (case graph_sort (map rv_ref (mf_resources m)) edges of
         Inl cycle \<Rightarrow> Inl (errors_list (add_error [] no_position (GraphMsg (DependencyCycle (the cycle)))))
       | Inr order \<Rightarrow> Inr \<lparr>g_nodes = map node_of (mf_resources m), g_edges = edges, g_order = order\<rparr>)"
    unfolding r names unfolding nodes es errs edges_def by simp
qed

text \<open>The edges of a checked manifest are its dependencies, and both ends are nodes.\<close>

lemma checked_edges:
  assumes "checked m protected"
  defines "edges \<equiv> go_sort edge_less (concat (map edges_of (mf_resources m)))"
  shows "edge_rel edges = depends m"
    and "\<forall>e \<in> set edges. e_to e \<in> set (map rv_ref (mf_resources m)) \<and> e_from e \<in> set (map rv_ref (mf_resources m))"
proof -
  show "edge_rel edges = depends m"
    unfolding edge_rel_def depends_def edges_def using set_edges_of by fastforce
  show "\<forall>e \<in> set edges. e_to e \<in> set (map rv_ref (mf_resources m)) \<and> e_from e \<in> set (map rv_ref (mf_resources m))"
    using assms(1) set_edges_of(1) unfolding edges_def checked_def by fastforce
qed

section \<open>Interface of the ordered graph\<close>

text \<open>
  What the planner and the reconciler rely on: the order of a good graph has no repetition,
  holds both ends of every edge and puts every dependency before what waits for it.
\<close>

locale ordered_graph =
  fixes good :: "'g \<Rightarrow> bool" and order_of :: "'g \<Rightarrow> reference list" and edges_in :: "'g \<Rightarrow> edge list"
  assumes order_distinct: "good g \<Longrightarrow> distinct (order_of g)"
    and edge_ends: "good g \<Longrightarrow> e \<in> set (edges_in g) \<Longrightarrow> e_from e \<in> set (order_of g) \<and> e_to e \<in> set (order_of g)"
    and order_topological: "good g \<Longrightarrow> topological (edges_in g) (order_of g)"
begin

lemma dependency_earlier:
  assumes "good g" "order_of g = ys @ v # zs" "e \<in> set (edges_in g)" "e_to e = v"
  shows "e_from e \<in> set ys"
  using assms order_topological by (auto simp: topological_def)

lemma ancestor_earlier:
  assumes "good g" "(f, v) \<in> (edge_rel (edges_in g))\<^sup>+" "order_of g = ys @ v # zs"
  shows "f \<in> set ys"
  using assms(2,3)
proof (induction arbitrary: ys zs rule: trancl_induct)
  case (base v)
  then show ?case using dependency_earlier [OF assms(1)] by (auto simp: edge_rel_def)
next
  case (step u v)
  then have "u \<in> set ys" using dependency_earlier [OF assms(1)] by (auto simp: edge_rel_def)
  then obtain ys1 ys2 where "ys = ys1 @ u # ys2" by (meson split_list)
  then show ?case using step.IH [of ys1 "ys2 @ v # zs"] step.prems by auto
qed

lemma dependency_induct:
  assumes "good g" "v \<in> set (order_of g)"
    and step: "\<And>v. v \<in> set (order_of g) \<Longrightarrow> (\<And>e. e \<in> set (edges_in g) \<Longrightarrow> e_to e = v \<Longrightarrow> P (e_from e)) \<Longrightarrow> P v"
  shows "P v"
proof -
  have "\<forall>v \<in> set ys. P v" if "order_of g = ys @ zs" for ys zs
    using that
  proof (induction ys arbitrary: zs rule: rev_induct)
    case (snoc y ys)
    then have "\<forall>v \<in> set ys. P v" and o: "order_of g = ys @ y # zs" by auto
    moreover have "P y"
    proof (rule step)
      show "y \<in> set (order_of g)" by (simp add: o)
      show "P (e_from e)" if "e \<in> set (edges_in g)" "e_to e = y" for e
        using dependency_earlier [OF assms(1) o that] \<open>\<forall>v \<in> set ys. P v\<close> by blast
    qed
    ultimately show ?case by simp
  qed simp
  from this [of "order_of g" "[]"] assms(2) show ?thesis by simp
qed

lemma no_self_dependency: "good g \<Longrightarrow> e \<in> set (edges_in g) \<Longrightarrow> e_from e \<noteq> e_to e"
proof
  assume g: "good g" "e \<in> set (edges_in g)" "e_from e = e_to e"
  then obtain ys zs where o: "order_of g = ys @ e_to e # zs"
    using edge_ends by (metis split_list)
  then have "e_to e \<in> set ys" using dependency_earlier [OF g(1) o g(2) refl] g(3) by simp
  with o order_distinct [OF g(1)] show False by simp
qed

end

text \<open>The graphs the builder returns, for manifests that list each reference once.\<close>

definition built :: "graph \<Rightarrow> bool" where
  "built g \<longleftrightarrow> (\<exists>m protected. distinct (map rv_ref (mf_resources m)) \<and> build_protecting m protected = Inr g)"

lemma build_result:
  assumes "distinct (map rv_ref (mf_resources m))" "build_protecting m protected = Inr g"
  shows "checked m protected \<and> g_nodes g = map node_of (mf_resources m)
    \<and> g_edges g = go_sort edge_less (concat (map edges_of (mf_resources m)))
    \<and> distinct (g_order g) \<and> set (g_order g) = rv_ref ` set (mf_resources m)
    \<and> topological (g_edges g) (g_order g)"
proof -
  have c: "checked m protected" using build_protecting_cases(2) [OF assms(1)] assms(2) by fastforce
  let ?edges = "go_sort edge_less (concat (map edges_of (mf_resources m)))"
  from graph_sort_result [OF assms(1) checked_edges(2) [OF c]] build_protecting_cases(1) [OF assms(1) c] assms(2) c
  show ?thesis by (auto split: sum.splits)
qed

text \<open>A node of a built graph stands for a resource, its target passed the check, and no other of its type has it.\<close>

lemma built_node:
  assumes "distinct (map rv_ref (mf_resources m))" "build_protecting m protected = Inr g" "map_of (g_nodes g) ref = Some n"
  shows "n_resource n \<in> set (mf_resources m) \<and> rv_ref (n_resource n) = ref \<and> target_of (n_resource n) = Some (n_target n)
    \<and> check_protected protected ref (n_target n) (rv_desired (n_resource n)) = None"
proof -
  note b = build_result [OF assms(1,2)]
  from assms(3) have "(ref, n) \<in> set (map node_of (mf_resources m))" using b map_of_SomeD by fastforce
  then obtain r where r: "r \<in> set (mf_resources m)" "rv_ref r = ref" "n = \<lparr>n_resource = r, n_target = the (target_of r)\<rparr>"
    by (auto simp: node_of_def)
  with b obtain t where "target_of r = Some t" "check_protected protected (rv_ref r) t (rv_desired r) = None"
    by (auto simp: checked_def list_all_iff target_ok_def)
  with r show ?thesis by simp
qed

lemma built_targets_differ:
  assumes "distinct (map rv_ref (mf_resources m))" "build_protecting m protected = Inr g"
    and "map_of (g_nodes g) x = Some n" "map_of (g_nodes g) y = Some k" "x \<noteq> y" "ref_type x = ref_type y"
  shows "n_target n \<noteq> n_target k"
proof
  assume t: "n_target n = n_target k"
  note bn = built_node [OF assms(1-3)] and bk = built_node [OF assms(1,2,4)]
  have "inj_on (\<lambda>r. ref_type (rv_ref r) @ '' '' @ the (target_of r)) (set (mf_resources m))"
    using build_result [OF assms(1,2)] by (simp add: checked_def distinct_map)
  then have "n_resource n = n_resource k" by (rule inj_onD) (use bn bk t assms(6) in simp_all)
  then show False using bn bk assms(5) by simp
qed

interpretation built: ordered_graph built g_order g_edges
proof unfold_locales
  fix g e assume "built g"
  then obtain m protected where m: "distinct (map rv_ref (mf_resources m))" "build_protecting m protected = Inr g"
    by (auto simp: built_def)
  note r = build_result [OF m]
  show "distinct (g_order g)" "topological (g_edges g) (g_order g)" using r by blast+
  show "e_from e \<in> set (g_order g) \<and> e_to e \<in> set (g_order g)" if "e \<in> set (g_edges g)"
    using checked_edges(2) [of m protected] r that by simp blast
qed

section \<open>Properties\<close>

text \<open>
  C4: a manifest can be ordered exactly when it makes sense. Building succeeds if and only if
  every resource has a target that is not protected, no two resources of one type share a
  target, every reference is to another resource of the manifest, and the dependencies have no
  cycle.
\<close>

theorem build_succeeds_iff:
  assumes "distinct (map rv_ref (mf_resources m))"
  shows "(\<exists>g. build_protecting m protected = Inr g) \<longleftrightarrow> checked m protected \<and> acyclic (depends m)"
proof (cases "checked m protected")
  case True
  let ?edges = "go_sort edge_less (concat (map edges_of (mf_resources m)))"
  from graph_sort_result [OF assms checked_edges(2) [OF True]] checked_edges(1) [OF True]
    build_protecting_cases(1) [OF assms True, of] True
  show ?thesis by (cases "graph_sort (map rv_ref (mf_resources m)) ?edges") auto
next
  case False
  then show ?thesis using build_protecting_cases(2) [OF assms] by fastforce
qed

text \<open>
  C9: the order applies dependencies first. The order of a graph holds every resource of the
  manifest exactly once, and whatever a resource requires, restarts on or reloads on comes
  before it.
\<close>

theorem build_order_sound:
  assumes "distinct (map rv_ref (mf_resources m))" "build_protecting m protected = Inr g"
  shows "distinct (g_order g) \<and> set (g_order g) = rv_ref ` set (mf_resources m)
    \<and> (\<forall>r \<in> set (mf_resources m). \<forall>d \<in> set (rv_requires r @ rv_restartOn r @ rv_reloadOn r).
         \<forall>ys zs. g_order g = ys @ rv_ref r # zs \<longrightarrow> d \<in> set ys)"
proof -
  note r = build_result [OF assms]
  have g: "built g" using assms by (auto simp: built_def)
  have "d \<in> set ys" if "x \<in> set (mf_resources m)" "d \<in> set (all_refs x)" "g_order g = ys @ rv_ref x # zs" for x d ys zs
  proof -
    from set_edges_of(2) [OF that(2)] obtain e where "e \<in> set (edges_of x)" "e_to e = rv_ref x" "e_from e = d" by blast
    moreover have "e \<in> set (g_edges g)" using r that(1) calculation(1) by auto
    ultimately show ?thesis using built.dependency_earlier [OF g that(3)] by blast
  qed
  then have "\<forall>x \<in> set (mf_resources m). \<forall>d \<in> set (all_refs x). \<forall>ys zs. g_order g = ys @ rv_ref x # zs \<longrightarrow> d \<in> set ys"
    by blast
  with r show ?thesis unfolding all_refs_def by blast
qed

text \<open>
  C30: a reported cycle is a cycle, and finding it ends. When no order exists the walk that
  describes the cycle stops within its fuel, each resource it names waits for the next one, the
  last one is named before, and the dependencies do have a cycle.
\<close>

theorem reported_cycle_real:
  assumes "distinct refs" "\<forall>e \<in> set edges. e_to e \<in> set refs \<and> e_from e \<in> set refs"
    and "graph_sort refs edges = Inl c"
  shows "\<exists>cyc. c = Some (map ref_string cyc) \<and> last cyc \<in> set (butlast cyc)
    \<and> successively (\<lambda>a b. \<exists>e \<in> set edges. e_to e = a \<and> e_from e = b) cyc
    \<and> \<not> acyclic (edge_rel edges)"
  using graph_sort_result [OF assms(1,2)] assms(3) by (auto simp: waits_on_def [abs_def])

text \<open>Two kernel settings, the first of which waits for the second.\<close>

definition example_setting :: "string \<Rightarrow> reference list \<Rightarrow> resolved" where
  "example_setting name reqs = \<lparr>rv_ref = Reference ''Sysctl'' name, rv_desired = map_val [], rv_requires = reqs,
     rv_restartOn = [], rv_reloadOn = [], rv_layers = [], rv_layerDir = [], rv_used = [], rv_position = no_position\<rparr>"

definition example_pair :: manifest where
  "example_pair = \<lparr>mf_host = ''h'', mf_revision = ''r'', mf_layers = [],
     mf_resources = [example_setting ''a'' [Reference ''Sysctl'' ''b''], example_setting ''b'' []]\<rparr>"

definition no_protection :: protected_set where
  "no_protection = \<lparr>ps_files = [], ps_dirs = [], ps_package = [], ps_unit = []\<rparr>"

definition example_graph :: graph where
  "example_graph = (case build_protecting example_pair no_protection of
     Inr g \<Rightarrow> g | Inl _ \<Rightarrow> \<lparr>g_nodes = [], g_edges = [], g_order = []\<rparr>)"

lemma example_builds:
  "build_protecting example_pair no_protection = Inr example_graph"
  "g_order example_graph = [Reference ''Sysctl'' ''b'', Reference ''Sysctl'' ''a'']"
  by code_simp+

lemma example_refs: "distinct (map rv_ref (mf_resources example_pair))"
  by (simp add: example_pair_def example_setting_def)

theorem build_succeeds_iff_witness: "checked example_pair no_protection \<and> acyclic (depends example_pair)"
  using build_succeeds_iff [OF example_refs, of no_protection] example_builds(1) by blast

theorem build_order_sound_witness:
  "\<exists>ys. g_order example_graph = ys @ [Reference ''Sysctl'' ''a''] \<and> Reference ''Sysctl'' ''b'' \<in> set ys"
proof -
  have "g_order example_graph = [Reference ''Sysctl'' ''b''] @ Reference ''Sysctl'' ''a'' # []"
    by (simp add: example_builds(2))
  moreover from this have "Reference ''Sysctl'' ''b'' \<in> set [Reference ''Sysctl'' ''b'']"
    using build_order_sound [OF example_refs example_builds(1)] by (simp add: example_pair_def example_setting_def)
  ultimately show ?thesis by blast
qed

theorem reported_cycle_real_witness:
  "\<not> acyclic (edge_rel [\<lparr>e_from = Reference ''Sysctl'' ''a'', e_to = Reference ''Sysctl'' ''b'', e_kind = Requires\<rparr>,
      \<lparr>e_from = Reference ''Sysctl'' ''b'', e_to = Reference ''Sysctl'' ''a'', e_kind = RestartOn\<rparr>])"
proof -
  let ?es = "[\<lparr>e_from = Reference ''Sysctl'' ''a'', e_to = Reference ''Sysctl'' ''b'', e_kind = Requires\<rparr>,
      \<lparr>e_from = Reference ''Sysctl'' ''b'', e_to = Reference ''Sysctl'' ''a'', e_kind = RestartOn\<rparr>]"
  have "graph_sort [Reference ''Sysctl'' ''a'', Reference ''Sysctl'' ''b''] ?es
      = Inl (Some [''Sysctl[a]'', ''Sysctl[b]'', ''Sysctl[a]''])"
    by code_simp
  from reported_cycle_real [OF _ _ this] show ?thesis by simp blast
qed


end
