(* ===== verification/State.thy ===== *)
theory State
  imports Datum_Prelude
begin

text \<open>
  Package \<open>internal/state\<close>: the vocabulary of a pass. Host conditions are ordered by how much
  they outweigh each other, and the condition of a host is the worst its resources give it.
\<close>

section \<open>Definitions\<close>

datatype action = NoAction | Create | Update | Remove | Skip

definition action_string :: "action \<Rightarrow> string" where
  "action_string a =
     (case a of Create \<Rightarrow> ''create'' | Update \<Rightarrow> ''update'' | Remove \<Rightarrow> ''remove'' | Skip \<Rightarrow> ''skip''
      | NoAction \<Rightarrow> ''none'')"

definition changes :: "action \<Rightarrow> bool" where
  "changes a \<longleftrightarrow> a = Create \<or> a = Update \<or> a = Remove"

datatype res_state = Pending | Applying | Converged | Drifted | Failed | Blocked | Skipped

definition res_state_string :: "res_state \<Rightarrow> string" where
  "res_state_string r =
     (case r of Applying \<Rightarrow> ''applying'' | Converged \<Rightarrow> ''converged'' | Drifted \<Rightarrow> ''drifted''
      | Failed \<Rightarrow> ''failed'' | Blocked \<Rightarrow> ''blocked'' | Skipped \<Rightarrow> ''skipped'' | Pending \<Rightarrow> ''pending'')"

datatype host_state = UnknownHost | HostConverged | HostDrifted | HostFailed | Degraded | AwaitingReboot

definition host_state_string :: "host_state \<Rightarrow> string" where
  "host_state_string h =
     (case h of HostConverged \<Rightarrow> ''converged'' | HostDrifted \<Rightarrow> ''drifted'' | HostFailed \<Rightarrow> ''failed''
      | Degraded \<Rightarrow> ''degraded'' | AwaitingReboot \<Rightarrow> ''awaiting-reboot'' | UnknownHost \<Rightarrow> ''unknown'')"

datatype outcome = OutcomeConverged | OutcomeChanged | OutcomeFailed | OutcomeDrifted

definition outcome_string :: "outcome \<Rightarrow> string" where
  "outcome_string o' =
     (case o' of OutcomeChanged \<Rightarrow> ''changed'' | OutcomeFailed \<Rightarrow> ''failed''
      | OutcomeDrifted \<Rightarrow> ''drifted'' | OutcomeConverged \<Rightarrow> ''converged'')"

definition all_outcomes :: "outcome list" where
  "all_outcomes = [OutcomeConverged, OutcomeChanged, OutcomeDrifted, OutcomeFailed]"

definition host_from :: "res_state list \<Rightarrow> host_state" where
  "host_from rs =
     (if rs = [] then HostConverged
      else
        let failed = list_ex (\<lambda>r. r = Failed \<or> r = Blocked) rs;
            skipped = list_ex (\<lambda>r. r = Skipped) rs;
            drifted = list_ex (\<lambda>r. r = Drifted) rs
        in if failed then HostFailed
           else if skipped then Degraded
           else if drifted then HostDrifted
           else HostConverged)"

section \<open>Specification\<close>

text \<open>The order of host conditions, by how much they outweigh each other.\<close>

fun severity :: "host_state \<Rightarrow> nat" where
  "severity UnknownHost = 0"
| "severity HostConverged = 1"
| "severity HostDrifted = 2"
| "severity Degraded = 3"
| "severity HostFailed = 4"
| "severity AwaitingReboot = 5"

lemma severity_inj: "severity a = severity b \<Longrightarrow> a = b"
  by (cases a; cases b) simp_all

instantiation host_state :: linorder
begin

definition less_eq_host_state :: "host_state \<Rightarrow> host_state \<Rightarrow> bool" where
  "a \<le> b \<longleftrightarrow> severity a \<le> severity b"

definition less_host_state :: "host_state \<Rightarrow> host_state \<Rightarrow> bool" where
  "a < b \<longleftrightarrow> severity a < severity b"

instance
  by standard (auto simp: less_eq_host_state_def less_host_state_def intro: severity_inj)

end

definition condition_of :: "res_state \<Rightarrow> host_state" where
  "condition_of r =
     (case r of Failed \<Rightarrow> HostFailed | Blocked \<Rightarrow> HostFailed | Skipped \<Rightarrow> Degraded
      | Drifted \<Rightarrow> HostDrifted | _ \<Rightarrow> HostConverged)"

section \<open>Lemmas\<close>

lemma host_from_Cons: "host_from (r # rs) = max (condition_of r) (host_from rs)"
  by (cases r; cases rs)
    (auto simp: host_from_def condition_of_def max_def less_eq_host_state_def Let_def)

section \<open>Properties\<close>

text \<open>
  The condition of a host is the worst of its resources. A failed or blocked resource
  outweighs one no provider supports, that outweighs drift, and drift outweighs convergence; a
  host with no resources has converged.
\<close>

theorem host_from_worst: "host_from rs = Max (insert HostConverged (condition_of ` set rs))"
proof (induction rs)
  case Nil
  then show ?case by (simp add: host_from_def)
next
  case (Cons r rs)
  have "insert HostConverged (condition_of ` set (r # rs))
      = insert (condition_of r) (insert HostConverged (condition_of ` set rs))" by auto
  then have "Max (insert HostConverged (condition_of ` set (r # rs)))
      = max (condition_of r) (Max (insert HostConverged (condition_of ` set rs)))" by simp
  with Cons show ?case by (simp add: host_from_Cons)
qed

end
