(* ===== verification/Provider.thy ===== *)
theory Provider
  imports Graph State
begin

text \<open>
  Packages \<open>internal/provider\<close> and \<open>internal/observe\<close>: what a provider is given and returns, the
  set of providers of a host, and the observation of a manifest. A provider is a record of
  functions on an abstract world \<open>'w\<close>, the host: observing reads it, applying returns the
  changed one. A context is the error it has at each step of a loop.
\<close>

section \<open>Definitions\<close>

subsection \<open>Requests and observations\<close>

datatype trigger = NoTrigger | Restart | Reload

definition trigger_string :: "trigger \<Rightarrow> string" where
  "trigger_string t = (case t of Restart \<Rightarrow> ''restart'' | Reload \<Rightarrow> ''reload'' | NoTrigger \<Rightarrow> ''none'')"

record request =
  rq_ref :: reference
  rq_target :: string
  rq_desired :: val
  rq_layerDir :: string
  rq_repoRoot :: string
  rq_trigger :: trigger

definition request_field :: "request \<Rightarrow> string \<Rightarrow> string option" where
  "request_field r name =
     (case lookup_val (rq_desired r) name of
        None \<Rightarrow> None
      | Some value \<Rightarrow> if v_kind value \<noteq> KindScalar then None else Some (v_scalar value))"

definition field_or :: "request \<Rightarrow> string \<Rightarrow> string \<Rightarrow> string" where
  "field_or r name fallback = (case request_field r name of Some value \<Rightarrow> value | None \<Rightarrow> fallback)"

definition request_present :: "request \<Rightarrow> bool" where
  "request_present r \<longleftrightarrow> field_or r ''state'' ''present'' \<noteq> ''absent''"

record observation =
  ob_exists :: bool
  ob_found :: string
  ob_fields :: "(string \<times> val) list"
  ob_unobservable :: "string list"
  ob_uncorrectable :: "string list"
  ob_desired :: val

definition zero_observation :: observation where
  "zero_observation = \<lparr>ob_exists = False, ob_found = [], ob_fields = [], ob_unobservable = [],
     ob_uncorrectable = [], ob_desired = zero_val\<rparr>"

definition desired_or :: "observation \<Rightarrow> val \<Rightarrow> val" where
  "desired_or ob declared =
     (if v_kind (ob_desired ob) = KindMap \<and> v_map (ob_desired ob) \<noteq> [] then ob_desired ob else declared)"

definition observed_value :: "observation \<Rightarrow> string \<Rightarrow> val option" where
  "observed_value ob name = map_of (ob_fields ob) name"

definition can_observe :: "observation \<Rightarrow> string \<Rightarrow> bool" where
  "can_observe ob name \<longleftrightarrow> name \<notin> set (ob_unobservable ob)"

definition can_correct :: "observation \<Rightarrow> string \<Rightarrow> bool" where
  "can_correct ob name \<longleftrightarrow> name \<notin> set (ob_uncorrectable ob)"

subsection \<open>Providers\<close>

text \<open>
  The result of applying. The flag of a failure says that the context of the action had ended
  when the provider returned while the context of the pass had not.
\<close>

datatype apply_result = Applied | ApplyFailed string bool

record 'w provider =
  p_name :: string
  p_types :: "string list"
  p_observe :: "'w \<Rightarrow> request \<Rightarrow> string + observation"
  p_apply :: "'w \<Rightarrow> request \<Rightarrow> action \<Rightarrow> apply_result \<times> 'w"

record 'w provider_set =
  pv_host :: string
  pv_unserved :: "(string \<times> string) list"
  pv_by_type :: "(string \<times> 'w provider) list"

definition new_set :: "'w provider list \<Rightarrow> 'w provider_set" where
  "new_set providers = \<lparr>pv_host = [], pv_unserved = [],
     pv_by_type = foldl (\<lambda>m p. foldl (\<lambda>m t. AList.update t p m) m (p_types p)) [] providers\<rparr>"

definition provider_for :: "'w provider_set \<Rightarrow> string \<Rightarrow> 'w provider option" where
  "provider_for s type_name = map_of (pv_by_type s) type_name"

definition supported :: "'w provider_set \<Rightarrow> string list" where
  "supported s = sorted_keys (pv_by_type s)"

definition missing_types :: "'w provider_set \<Rightarrow> string list \<Rightarrow> string list" where
  "missing_types s wanted =
     sort (foldl (\<lambda>out t. if map_of (pv_by_type s) t \<noteq> None \<or> t \<in> set out then out else out @ [t]) [] wanted)"

subsection \<open>Repository sources\<close>

text \<open>
  \<open>filepath.Abs\<close> and \<open>filepath.EvalSymlinks\<close> of the host are parameters. \<open>split_path\<close> is
  \<open>filepath.Split\<close>.
\<close>

definition split_path :: "string \<Rightarrow> string \<times> string" where
  "split_path p =
     (rev (dropWhile (\<lambda>c. c \<noteq> CHR ''/'') (rev p)), rev (takeWhile (\<lambda>c. c \<noteq> CHR ''/'') (rev p)))"

definition canonical_path ::
    "(string \<Rightarrow> string + string) \<Rightarrow> (string \<Rightarrow> string option) \<Rightarrow> string \<Rightarrow> string + string" where
  "canonical_path abs_of eval path =
     (case abs_of path of
        Inl err \<Rightarrow> Inl err
      | Inr absolute \<Rightarrow>
          (case eval absolute of
             Some resolved \<Rightarrow> Inr resolved
           | None \<Rightarrow>
               (let (dir, name) = split_path absolute
                in case eval (clean dir) of
                     None \<Rightarrow> Inr absolute
                   | Some resolved_dir \<Rightarrow> Inr (join_path [resolved_dir, name]))))"

definition within_root :: "string \<Rightarrow> string \<Rightarrow> bool" where
  "within_root root path \<longleftrightarrow> path = root \<or> has_prefix path (root @ ''/'')"

datatype source_error = CannotResolve string | SourceOutside string | UnresolvedPlaceholder string
  | CannotRead string

definition source_path ::
    "(string \<Rightarrow> string + string) \<Rightarrow> (string \<Rightarrow> string option) \<Rightarrow> request \<Rightarrow> string \<Rightarrow> source_error + string" where
  "source_path abs_of eval r rel =
     (case canonical_path abs_of eval (rq_repoRoot r) of
        Inl err \<Rightarrow> Inl (CannotResolve err)
      | Inr root \<Rightarrow>
          (case canonical_path abs_of eval (join_path [root, rq_layerDir r, rel]) of
             Inl err \<Rightarrow> Inl (CannotResolve err)
           | Inr resolved \<Rightarrow>
               if \<not> within_root root resolved then Inl (SourceOutside rel) else Inr resolved))"

definition read_source ::
    "(string \<Rightarrow> string + string) \<Rightarrow> (string \<Rightarrow> string option) \<Rightarrow> (string \<Rightarrow> string + string) \<Rightarrow> request \<Rightarrow> string
      \<Rightarrow> source_error + string" where
  "read_source abs_of eval read_file r rel =
     (if str_contains rel ''{{'' then Inl (UnresolvedPlaceholder rel)
      else case source_path abs_of eval r rel of
        Inl err \<Rightarrow> Inl err
      | Inr path \<Rightarrow> (case read_file path of Inl err \<Rightarrow> Inl (CannotRead err) | Inr text \<Rightarrow> Inr text))"

definition content_digest :: "(string \<Rightarrow> string) \<Rightarrow> string \<Rightarrow> string" where
  "content_digest sha256_hex data = ''sha256:'' @ sha256_hex data"

subsection \<open>Observing a manifest\<close>

record observe_result =
  or_ref :: reference
  or_provider :: string
  or_observation :: observation
  or_skipped :: bool
  or_reason :: string
  or_err :: "string option"

record observe_state =
  os_results :: "observe_result list"
  os_by_ref :: "(reference \<times> nat) list"

definition observed_for :: "observe_state \<Rightarrow> reference \<Rightarrow> observe_result option" where
  "observed_for s ref = map_option ((!) (os_results s)) (map_of (os_by_ref s) ref)"

definition unsupported :: "observe_state \<Rightarrow> string list" where
  "unsupported s =
     sort (foldl (\<lambda>out r. if or_skipped r \<and> ref_type (or_ref r) \<notin> set out then out @ [ref_type (or_ref r)] else out)
       [] (os_results s))"

definition skip_reason :: "string \<Rightarrow> 'w provider_set \<Rightarrow> string" where
  "skip_reason type_name providers =
     (case map_of (pv_unserved providers) type_name of
        Some reason \<Rightarrow>
          if reason \<noteq> [] then ''no '' @ type_name @ '' provider on this host: '' @ reason
          else if pv_host providers = [] then ''no '' @ type_name @ '' provider on this host''
          else ''no '' @ type_name @ '' provider supports '' @ pv_host providers
      | None \<Rightarrow>
          if pv_host providers = [] then ''no '' @ type_name @ '' provider on this host''
          else ''no '' @ type_name @ '' provider supports '' @ pv_host providers)"

definition zero_node :: node where
  "zero_node = \<lparr>n_resource = \<lparr>rv_ref = Reference [] [], rv_desired = zero_val, rv_requires = [],
     rv_restartOn = [], rv_reloadOn = [], rv_layers = [], rv_layerDir = [], rv_used = [],
     rv_position = no_position\<rparr>, n_target = []\<rparr>"

definition node_at :: "graph \<Rightarrow> reference \<Rightarrow> node" where
  "node_at g ref = (case map_of (g_nodes g) ref of Some n \<Rightarrow> n | None \<Rightarrow> zero_node)"

definition request_of :: "node \<Rightarrow> reference \<Rightarrow> string \<Rightarrow> trigger \<Rightarrow> request" where
  "request_of n ref repo_root trig =
     \<lparr>rq_ref = ref, rq_target = n_target n, rq_desired = rv_desired (n_resource n),
      rq_layerDir = rv_layerDir (n_resource n), rq_repoRoot = repo_root, rq_trigger = trig\<rparr>"

definition observe_one :: "graph \<Rightarrow> 'w provider_set \<Rightarrow> string \<Rightarrow> 'w \<Rightarrow> reference \<Rightarrow> observe_result" where
  "observe_one g providers repo_root world ref =
     (let zero = \<lparr>or_ref = ref, or_provider = [], or_observation = zero_observation, or_skipped = False,
                  or_reason = [], or_err = None\<rparr>
      in case provider_for providers (ref_type ref) of
           None \<Rightarrow> zero\<lparr>or_skipped := True, or_reason := skip_reason (ref_type ref) providers\<rparr>
         | Some p \<Rightarrow>
             (case p_observe p world (request_of (node_at g ref) ref repo_root NoTrigger) of
                Inl err \<Rightarrow> zero\<lparr>or_provider := p_name p, or_err := Some err\<rparr>
              | Inr ob \<Rightarrow> zero\<lparr>or_provider := p_name p, or_observation := ob\<rparr>))"

fun observe_loop ::
    "(nat \<Rightarrow> string option) \<Rightarrow> nat \<Rightarrow> graph \<Rightarrow> 'w provider_set \<Rightarrow> string \<Rightarrow> 'w \<Rightarrow> reference list \<Rightarrow> observe_state
      \<Rightarrow> observe_state \<times> string option" where
  "observe_loop ctx i g providers repo_root world [] out = (out, None)"
| "observe_loop ctx i g providers repo_root world (ref # refs) out =
     (case ctx i of
        Some err \<Rightarrow> (out, Some err)
      | None \<Rightarrow>
          observe_loop ctx (Suc i) g providers repo_root world refs
            \<lparr>os_results = os_results out @ [observe_one g providers repo_root world ref],
             os_by_ref = AList.update ref (length (os_results out)) (os_by_ref out)\<rparr>)"

definition observe_host ::
    "(nat \<Rightarrow> string option) \<Rightarrow> graph \<Rightarrow> 'w provider_set \<Rightarrow> string \<Rightarrow> 'w \<Rightarrow> observe_state \<times> string option" where
  "observe_host ctx g providers repo_root world =
     observe_loop ctx 0 g providers repo_root world (g_order g) \<lparr>os_results = [], os_by_ref = []\<rparr>"

section \<open>Lemmas\<close>

lemma observe_loop_results:
  assumes "observe_loop ctx i g providers root world refs out = (s, None)"
  shows "os_results s = os_results out @ map (observe_one g providers root world) refs"
  using assms
proof (induction refs arbitrary: i out)
  case (Cons ref refs)
  then show ?case by (auto split: option.splits)
qed simp

lemma observe_loop_index:
  assumes "observe_loop ctx i g providers root world refs out = (s, None)" "distinct refs"
  shows "map_of (os_by_ref s) ref =
    (case map_of (zip refs [length (os_results out)..<length (os_results out) + length refs]) ref of
       Some n \<Rightarrow> Some n | None \<Rightarrow> map_of (os_by_ref out) ref)"
  using assms
proof (induction refs arbitrary: i out)
  case (Cons r refs)
  let ?out = "\<lparr>os_results = os_results out @ [observe_one g providers root world r],
      os_by_ref = AList.update r (length (os_results out)) (os_by_ref out)\<rparr>"
  from Cons.prems(1) have l: "observe_loop ctx (Suc i) g providers root world refs ?out = (s, None)"
    by (auto split: option.splits)
  have up: "[length (os_results out)..<length (os_results out) + length (r # refs)]
      = length (os_results out) # [Suc (length (os_results out))..<Suc (length (os_results out)) + length refs]"
    by (subst upt_conv_Cons) (simp_all del: upt_Suc)
  have no: "map_of (zip refs ns) r = None" for ns :: "nat list"
    using Cons.prems(2) by (auto simp: map_of_eq_None_iff dest: set_zip_leftD)
  show ?case
    using Cons.IH [OF l] Cons.prems(2) no unfolding up by (auto simp: update_conv' split: option.splits)
qed simp

text \<open>After an observation that was not cut short, every resource of the order has its result.\<close>

lemma observed_for_order:
  assumes "observe_host ctx g providers root world = (s, None)" "distinct (g_order g)" "ref \<in> set (g_order g)"
  shows "observed_for s ref = Some (observe_one g providers root world ref)"
proof -
  have r: "os_results s = map (observe_one g providers root world) (g_order g)"
    using observe_loop_results [OF assms(1) [unfolded observe_host_def]] by simp
  from assms(3) obtain n where n: "n < length (g_order g)" "g_order g ! n = ref" by (auto simp: in_set_conv_nth)
  then have "map_of (zip (g_order g) [0..<length (g_order g)]) ref = Some n"
    using assms(2) map_of_zip_nth [of "g_order g" "[0..<length (g_order g)]" n] by simp
  then have "map_of (os_by_ref s) ref = Some n"
    using observe_loop_index [OF assms(1) [unfolded observe_host_def] assms(2), of ref] by simp
  then show ?thesis using r n by (simp add: observed_for_def)
qed

lemma within_root_prefix: "within_root root path \<Longrightarrow> has_prefix path root"
  by (auto simp: within_root_def has_prefix_iff)

text \<open>A source that resolves is read from inside the checkout.\<close>

lemma source_path_contained:
  "source_path abs_of eval r rel = Inr path \<Longrightarrow>
     \<exists>root. canonical_path abs_of eval (rq_repoRoot r) = Inr root \<and> (path = root \<or> has_prefix path (root @ ''/''))"
  by (auto simp: source_path_def within_root_def split: sum.splits if_splits)

end
