(* ===== verification/Plan.thy ===== *)
theory Plan
  imports Provider
begin

text \<open>
  Package \<open>internal/plan\<close>: the comparison of what a manifest declares with what was observed
  (\<open>diff.go\<close>), and the ordered list of steps of one pass (\<open>plan.go\<close>), with the specification of
  the resources a pass changes as a least set closed under triggers.
\<close>

section \<open>Definitions\<close>

subsection \<open>Differences\<close>

record field_diff =
  fd_field :: string
  fd_desired :: string
  fd_observed :: string
  fd_missing :: bool
  fd_uncorrectable :: bool

definition field_diff_string :: "field_diff \<Rightarrow> string" where
  "field_diff_string d =
     (let out = (if fd_missing d then fd_field d @ '' not set, want '' @ fd_desired d
                 else fd_field d @ '' '' @ fd_observed d @ '' -> '' @ fd_desired d)
      in if fd_uncorrectable d then out @ '' (not corrected)'' else out)"

record diff =
  df_ref :: reference
  df_fields :: "field_diff list"
  df_exists :: bool
  df_occupied :: string

definition zero_diff :: diff where
  "zero_diff = \<lparr>df_ref = Reference [] [], df_fields = [], df_exists = False, df_occupied = []\<rparr>"

definition correctable :: "diff \<Rightarrow> field_diff list" where
  "correctable d = filter (\<lambda>f. \<not> fd_uncorrectable f) (df_fields d)"

definition uncorrectable :: "diff \<Rightarrow> field_diff list" where
  "uncorrectable d = filter (\<lambda>f. fd_uncorrectable f) (df_fields d)"

definition differs :: "diff \<Rightarrow> bool" where
  "differs d \<longleftrightarrow> df_fields d \<noteq> []"

definition not_comparable :: "string list" where
  "not_comparable = [''source'', ''template'', ''secretRef'', ''passwordRef'', ''validate'',
     ''allowPrivileged'', ''system'', ''unsigned'', ''suite'']"

definition existence_word :: "string \<Rightarrow> bool" where
  "existence_word value \<longleftrightarrow> value = ''present'' \<or> value = ''absent''"

definition comparable :: "string \<Rightarrow> val \<Rightarrow> bool" where
  "comparable field desired \<longleftrightarrow>
     (if field = ''state'' then \<not> existence_word (v_scalar desired) else field \<notin> set not_comparable)"

definition declared_fields :: "val \<Rightarrow> string list" where
  "declared_fields desired = (if v_kind desired \<noteq> KindMap then [] else sort (val_keys desired))"

definition rendered :: "val \<Rightarrow> string" where
  "rendered v = (if v_kind v = KindScalar then v_scalar v else canonical v)"

definition field_value :: "val \<Rightarrow> string \<Rightarrow> val" where
  "field_value desired field = (case map_of (v_map desired) field of Some v \<Rightarrow> v | None \<Rightarrow> zero_val)"

definition compare_field :: "string \<Rightarrow> val \<Rightarrow> observation \<Rightarrow> string \<Rightarrow> field_diff option" where
  "compare_field identity desired ob field =
     (if field = identity \<or> \<not> comparable field (field_value desired field) then None
      else if \<not> can_observe ob field then None
      else
        let want = field_value desired field
        in case observed_value ob field of
             None \<Rightarrow> Some \<lparr>fd_field = field, fd_desired = rendered want, fd_observed = [], fd_missing = True,
                           fd_uncorrectable = \<not> can_correct ob field\<rparr>
           | Some got \<Rightarrow>
               if rendered want \<noteq> rendered got
               then Some \<lparr>fd_field = field, fd_desired = rendered want, fd_observed = rendered got,
                          fd_missing = False, fd_uncorrectable = \<not> can_correct ob field\<rparr>
               else None)"

definition identity_of :: "reference \<Rightarrow> string" where
  "identity_of ref = (case target_identity_field (ref_type ref) of Some f \<Rightarrow> f | None \<Rightarrow> [])"

definition compare_state :: "reference \<Rightarrow> val \<Rightarrow> observation \<Rightarrow> diff" where
  "compare_state ref desired ob =
     \<lparr>df_ref = ref, df_fields = List.map_filter (compare_field (identity_of ref) desired ob) (declared_fields desired),
      df_exists = ob_exists ob, df_occupied = ob_found ob\<rparr>"

definition diff_one :: "(reference \<Rightarrow> val) \<Rightarrow> (reference \<times> diff) list \<Rightarrow> observe_result \<Rightarrow> (reference \<times> diff) list" where
  "diff_one desired out r =
     (if or_skipped r \<or> or_err r \<noteq> None then out
      else AList.update (or_ref r)
        (compare_state (or_ref r) (desired_or (or_observation r) (desired (or_ref r))) (or_observation r)) out)"

definition diff_all :: "observe_state \<Rightarrow> (reference \<Rightarrow> val) \<Rightarrow> (reference \<times> diff) list" where
  "diff_all observed desired = foldl (diff_one desired) [] (os_results observed)"

subsection \<open>The plan\<close>

record step =
  st_ref :: reference
  st_action :: action
  st_provider :: string
  st_target :: string
  st_fields :: "field_diff list"
  st_reason :: string
  st_err :: "string option"
  st_triggers :: "reference list"
  st_trigger :: trigger

record plan =
  pl_host :: string
  pl_revision :: string
  pl_manifest :: string
  pl_steps :: "step list"

record counts =
  ct_create :: nat
  ct_update :: nat
  ct_remove :: nat
  ct_skip :: nat
  ct_unchanged :: nat
  ct_failed :: nat

definition count_step :: "counts \<Rightarrow> step \<Rightarrow> counts" where
  "count_step c s =
     (if st_err s \<noteq> None then c\<lparr>ct_failed := ct_failed c + 1\<rparr>
      else case st_action s of
        Create \<Rightarrow> c\<lparr>ct_create := ct_create c + 1\<rparr>
      | Update \<Rightarrow> c\<lparr>ct_update := ct_update c + 1\<rparr>
      | Remove \<Rightarrow> c\<lparr>ct_remove := ct_remove c + 1\<rparr>
      | Skip \<Rightarrow> c\<lparr>ct_skip := ct_skip c + 1\<rparr>
      | NoAction \<Rightarrow> c\<lparr>ct_unchanged := ct_unchanged c + 1\<rparr>)"

definition plan_counts :: "plan \<Rightarrow> counts" where
  "plan_counts p = foldl count_step
     \<lparr>ct_create = 0, ct_update = 0, ct_remove = 0, ct_skip = 0, ct_unchanged = 0, ct_failed = 0\<rparr> (pl_steps p)"

definition plan_changes :: "plan \<Rightarrow> bool" where
  "plan_changes p \<longleftrightarrow> list_ex (\<lambda>s. changes (st_action s)) (pl_steps p)"

definition wanted_present :: "val \<Rightarrow> bool" where
  "wanted_present desired =
     (case lookup_val desired ''state'' of None \<Rightarrow> True | Some value \<Rightarrow> v_scalar value \<noteq> ''absent'')"

definition decide :: "val \<Rightarrow> diff \<Rightarrow> action \<times> field_diff list" where
  "decide desired d =
     (let wanted = wanted_present desired
      in if wanted \<and> \<not> df_exists d then (Create, [])
         else if \<not> wanted \<and> df_exists d then (Remove, [])
         else if \<not> wanted \<and> \<not> df_exists d then (NoAction, [])
         else if differs d then (Update, df_fields d)
         else (NoAction, []))"

definition fired_triggers :: "graph \<Rightarrow> reference \<Rightarrow> reference list \<Rightarrow> reference list" where
  "fired_triggers g ref changed =
     map e_from (filter (\<lambda>e. triggers (e_kind e) \<and> e_from e \<in> set changed) (dependencies (g_edges g) ref))"

fun trigger_of_edges :: "edge list \<Rightarrow> trigger" where
  "trigger_of_edges [] = NoTrigger"
| "trigger_of_edges (e # es) =
     (case e_kind e of RestartOn \<Rightarrow> Restart | ReloadOn \<Rightarrow> Reload | _ \<Rightarrow> trigger_of_edges es)"

definition trigger_op :: "graph \<Rightarrow> reference \<Rightarrow> trigger" where
  "trigger_op g ref = trigger_of_edges (dependencies (g_edges g) ref)"

definition trigger_reason :: "graph \<Rightarrow> reference \<Rightarrow> reference list \<Rightarrow> string" where
  "trigger_reason g ref trigs =
     (let kind = (case find (\<lambda>e. triggers (e_kind e)) (dependencies (g_edges g) ref) of
                    Some e \<Rightarrow> edge_kind_string (e_kind e) | None \<Rightarrow> ''restartOn'')
      in if length trigs = 1 then ref_string (hd trigs) @ '' changed, '' @ kind @ '' matched''
         else format_nat (length trigs) @ '' resources changed, '' @ kind @ '' matched'')"

definition base_step :: "(reference \<Rightarrow> node) \<Rightarrow> observe_state \<Rightarrow> (reference \<times> diff) list \<Rightarrow> reference \<Rightarrow> step" where
  "base_step nodes observed diffs ref =
     (let zero = \<lparr>st_ref = ref, st_action = NoAction, st_provider = [], st_target = n_target (nodes ref),
                  st_fields = [], st_reason = [], st_err = None, st_triggers = [], st_trigger = NoTrigger\<rparr>;
          decided = decide (rv_desired (n_resource (nodes ref)))
                      (case map_of diffs ref of Some d \<Rightarrow> d | None \<Rightarrow> zero_diff)
      in case observed_for observed ref of
           None \<Rightarrow> zero\<lparr>st_action := fst decided, st_fields := snd decided\<rparr>
         | Some r \<Rightarrow>
             if or_skipped r then zero\<lparr>st_provider := or_provider r, st_action := Skip, st_reason := or_reason r\<rparr>
             else if or_err r \<noteq> None then zero\<lparr>st_provider := or_provider r, st_err := or_err r\<rparr>
             else zero\<lparr>st_provider := or_provider r, st_action := fst decided, st_fields := snd decided\<rparr>)"

definition trigger_step :: "graph \<Rightarrow> reference list \<Rightarrow> step \<Rightarrow> step" where
  "trigger_step g changed s =
     (let trigs = fired_triggers g (st_ref s) changed
      in if trigs = [] then s
         else
           let s = s\<lparr>st_triggers := trigs, st_trigger := trigger_op g (st_ref s)\<rparr>
           in if st_action s = NoAction
              then s\<lparr>st_action := Update, st_reason := trigger_reason g (st_ref s) trigs\<rparr> else s)"

fun plan_steps :: "graph \<Rightarrow> (reference \<Rightarrow> step) \<Rightarrow> reference list \<Rightarrow> reference list \<Rightarrow> step list" where
  "plan_steps g base changed [] = []"
| "plan_steps g base changed (ref # refs) =
     (let s = trigger_step g changed (base ref)
      in s # plan_steps g base (if changes (st_action s) then ref # changed else changed) refs)"

definition build_plan :: "(string \<Rightarrow> string) \<Rightarrow> manifest \<Rightarrow> graph \<Rightarrow> observe_state \<Rightarrow> plan" where
  "build_plan sha256_hex m g observed =
     (let diffs = diff_all observed (\<lambda>ref. rv_desired (n_resource (node_at g ref)))
      in \<lparr>pl_host = mf_host m, pl_revision = mf_revision m, pl_manifest = short_digest sha256_hex m,
          pl_steps = plan_steps g (base_step (node_at g) observed diffs) [] (g_order g)\<rparr>)"

section \<open>Specification\<close>

text \<open>
  A field drifted when it is declared, says something about the host, could be read, and does
  not hold the declared value.
\<close>

definition drifted :: "reference \<Rightarrow> val \<Rightarrow> observation \<Rightarrow> string \<Rightarrow> bool" where
  "drifted ref desired ob field \<longleftrightarrow>
     v_kind desired = KindMap \<and> field \<in> fst ` set (v_map desired) \<and> field \<noteq> identity_of ref
     \<and> comparable field (field_value desired field) \<and> can_observe ob field
     \<and> map_option rendered (observed_value ob field) \<noteq> Some (rendered (field_value desired field))"

text \<open>
  The resources a pass changes: the ones whose own state calls for it, and the ones that react
  to a change of something they restart or reload on, unless nothing here can reconcile them.
\<close>

inductive must_change :: "graph \<Rightarrow> (reference \<Rightarrow> step) \<Rightarrow> reference \<Rightarrow> bool" for g base where
  own: "ref \<in> set (g_order g) \<Longrightarrow> changes (st_action (base ref)) \<Longrightarrow> must_change g base ref"
| triggered: "must_change g base (e_from e) \<Longrightarrow> e \<in> set (g_edges g) \<Longrightarrow> triggers (e_kind e)
    \<Longrightarrow> st_action (base (e_to e)) \<noteq> Skip \<Longrightarrow> must_change g base (e_to e)"

inductive_cases must_changeE: "must_change g base ref"

section \<open>Lemmas\<close>

lemma set_declared_fields [simp]:
  "set (declared_fields desired) = (if v_kind desired = KindMap then fst ` set (v_map desired) else {})"
  by (simp add: declared_fields_def val_keys_def)

lemma declared_fields_distinct: "wf_map (v_map desired) \<Longrightarrow> distinct (declared_fields desired)"
  by (simp add: declared_fields_def val_keys_def sorted_keys_def wf_map_def)

lemma compare_field_None:
  "field \<in> set (declared_fields desired) \<Longrightarrow>
     compare_field (identity_of ref) desired ob field = None \<longleftrightarrow> \<not> drifted ref desired ob field"
  by (auto simp: compare_field_def drifted_def Let_def split: option.splits if_splits)

lemma compare_field_Some:
  "compare_field i desired ob field = Some d \<Longrightarrow>
     fd_field d = field \<and> fd_desired d = rendered (field_value desired field)
     \<and> (fd_uncorrectable d \<longleftrightarrow> \<not> can_correct ob field) \<and> (fd_missing d \<longleftrightarrow> observed_value ob field = None)
     \<and> (\<forall>got. observed_value ob field = Some got \<longrightarrow> fd_observed d = rendered got)"
  by (auto simp: compare_field_def Let_def split: option.splits if_splits)

text \<open>The fields that are listed, in the order of their names, and which they are.\<close>

lemma listed_fields:
  "map fd_field (df_fields (compare_state ref desired ob))
    = filter (\<lambda>f. compare_field (identity_of ref) desired ob f \<noteq> None) (declared_fields desired)"
proof -
  let ?f = "compare_field (identity_of ref) desired ob"
  have "map fd_field (List.map_filter ?f fs) = filter (\<lambda>f. ?f f \<noteq> None) fs" for fs
    by (induction fs) (auto simp: map_filter_simps dest: compare_field_Some split: option.split)
  then show ?thesis by (simp add: compare_state_def)
qed

lemma compare_fields: "fd_field ` set (df_fields (compare_state ref desired ob)) = Collect (drifted ref desired ob)"
proof -
  let ?f = "compare_field (identity_of ref) desired ob"
  have "fd_field ` set (df_fields (compare_state ref desired ob)) = set (filter (\<lambda>f. ?f f \<noteq> None) (declared_fields desired))"
    using arg_cong [OF listed_fields, of set] by simp
  also have "\<dots> = Collect (drifted ref desired ob)"
  proof (rule set_eqI)
    fix f
    show "f \<in> set (filter (\<lambda>f. ?f f \<noteq> None) (declared_fields desired)) \<longleftrightarrow> f \<in> Collect (drifted ref desired ob)"
    proof (cases "f \<in> set (declared_fields desired)")
      case True
      then show ?thesis using compare_field_None [OF True, of ref ob] by (simp del: not_None_eq)
    next
      case False
      then have "\<not> drifted ref desired ob f" by (auto simp only: set_declared_fields drifted_def split: if_splits)
      with False show ?thesis by (simp del: set_declared_fields)
    qed
  qed
  finally show ?thesis .
qed

lemma trigger_step_simps [simp]:
  "st_ref (trigger_step g changed s) = st_ref s"
  "st_err (trigger_step g changed s) = st_err s"
  "st_provider (trigger_step g changed s) = st_provider s"
  "st_target (trigger_step g changed s) = st_target s"
  "st_fields (trigger_step g changed s) = st_fields s"
  by (simp_all add: trigger_step_def Let_def)

lemma trigger_step_action:
  "st_action (trigger_step g changed s) =
     (if st_action s = NoAction \<and> fired_triggers g (st_ref s) changed \<noteq> [] then Update else st_action s)"
  by (simp add: trigger_step_def Let_def)

lemma base_step_ref [simp]: "st_ref (base_step nodes observed diffs ref) = ref"
  by (simp add: base_step_def Let_def split: option.split)

lemma plan_steps_refs: "(\<And>ref. st_ref (base ref) = ref) \<Longrightarrow> map st_ref (plan_steps g base changed refs) = refs"
  by (induction refs arbitrary: changed) (simp_all add: Let_def)

lemma fired_triggers_Nil:
  "fired_triggers g ref changed = [] \<longleftrightarrow>
     \<not> (\<exists>e \<in> set (g_edges g). e_to e = ref \<and> triggers (e_kind e) \<and> e_from e \<in> set changed)"
  by (auto simp: fired_triggers_def dependencies_def filter_empty_conv)

lemma changes_cases: "changes a \<or> a = NoAction \<or> a = Skip"
  by (cases a) (simp_all add: changes_def)

lemma changes_simps [simp]: "changes Create" "changes Update" "changes Remove" "\<not> changes NoAction" "\<not> changes Skip"
  by (simp_all add: changes_def)


text \<open>
  Processing the order from left to right decides every resource after its dependencies: the
  resources changed so far are the ones that must change among those already seen.
\<close>

lemma trigger_step_must_change:
  assumes g: "built g" and o: "g_order g = ys @ ref # refs" and base: "st_ref (base ref) = ref"
    and c: "set changed = {v \<in> set ys. must_change g base v}"
  shows "changes (st_action (trigger_step g changed (base ref))) \<longleftrightarrow> must_change g base ref"
proof
  assume r: "must_change g base ref"
  show "changes (st_action (trigger_step g changed (base ref)))"
  proof (rule must_changeE [OF r])
    assume "changes (st_action (base ref))"
    then show ?thesis by (auto simp: trigger_step_action)
  next
    fix e assume e: "ref = e_to e" "must_change g base (e_from e)" "e \<in> set (g_edges g)"
      "triggers (e_kind e)" "st_action (base (e_to e)) \<noteq> Skip"
    have "e_from e \<in> set ys" using built.dependency_earlier [OF g o e(3)] e(1) by simp
    then have "fired_triggers g ref changed \<noteq> []" using e c unfolding fired_triggers_Nil by auto
    then show ?thesis using e(1,5) base changes_cases [of "st_action (base ref)"] by (auto simp: trigger_step_action)
  qed
next
  assume r: "changes (st_action (trigger_step g changed (base ref)))"
  show "must_change g base ref"
  proof (cases "changes (st_action (base ref))")
    case True
    then show ?thesis using o by (intro must_change.own) simp_all
  next
    case False
    with r base have n: "st_action (base ref) = NoAction" "fired_triggers g ref changed \<noteq> []"
      by (auto simp: trigger_step_action split: if_splits)
    then obtain e where "e \<in> set (g_edges g)" "e_to e = ref" "triggers (e_kind e)" "e_from e \<in> set changed"
      unfolding fired_triggers_Nil by blast
    then show ?thesis using must_change.triggered [of g base e] n(1) c by auto
  qed
qed

lemma plan_steps_must_change:
  assumes g: "built g" and base: "\<And>ref. st_ref (base ref) = ref"
    and "g_order g = ys @ refs" "set changed = {v \<in> set ys. must_change g base v}"
    and "s \<in> set (plan_steps g base changed refs)"
  shows "changes (st_action s) \<longleftrightarrow> must_change g base (st_ref s)"
  using assms(3-)
proof (induction refs arbitrary: ys changed)
  case (Cons ref refs)
  let ?s = "trigger_step g changed (base ref)"
  have step: "changes (st_action ?s) \<longleftrightarrow> must_change g base ref"
    using trigger_step_must_change [of g ys ref refs base changed] g Cons.prems base by blast
  have d: "distinct (ys @ ref # refs)" using built.order_distinct [OF g] Cons.prems(1) by simp
  show ?case
  proof (cases "s = ?s")
    case True
    then show ?thesis using step base by simp
  next
    case False
    let ?c = "if changes (st_action ?s) then ref # changed else changed"
    from False Cons.prems(3) have "s \<in> set (plan_steps g base ?c refs)" by (simp add: Let_def)
    moreover have "set ?c = {v \<in> set (ys @ [ref]). must_change g base v}"
      using Cons.prems(2) step by auto
    moreover have "g_order g = (ys @ [ref]) @ refs" using Cons.prems(1) by simp
    ultimately show ?thesis using Cons.IH by blast
  qed
qed simp

text \<open>The steps a plan gives, by the reference they are for.\<close>

definition bases :: "graph \<Rightarrow> observe_state \<Rightarrow> reference \<Rightarrow> step" where
  "bases g observed =
     base_step (node_at g) observed (diff_all observed (\<lambda>ref. rv_desired (n_resource (node_at g ref))))"

lemma bases_ref [simp]: "st_ref (bases g observed ref) = ref"
  by (simp add: bases_def)

lemma build_plan_steps: "pl_steps (build_plan sha m g observed) = plan_steps g (bases g observed) [] (g_order g)"
  by (simp add: build_plan_def bases_def Let_def)

lemma count_steps:
  "ct_create (foldl count_step c ss) + ct_update (foldl count_step c ss) + ct_remove (foldl count_step c ss)
     + ct_skip (foldl count_step c ss) + ct_unchanged (foldl count_step c ss) + ct_failed (foldl count_step c ss)
   = ct_create c + ct_update c + ct_remove c + ct_skip c + ct_unchanged c + ct_failed c + length ss"
proof (induction ss arbitrary: c)
  case (Cons s ss)
  then show ?case by (cases "st_action s") (simp_all add: count_step_def)
qed simp

lemma plan_steps_bases:
  "s \<in> set (plan_steps g base changed refs) \<Longrightarrow> \<exists>c ref. ref \<in> set refs \<and> s = trigger_step g c (base ref)"
proof (induction refs arbitrary: changed)
  case (Cons ref refs)
  then show ?case by (simp add: Let_def) blast
qed simp

lemma plan_refs: "st_ref ` set (pl_steps (build_plan sha m g observed)) = set (g_order g)"
  using plan_steps_refs [of "bases g observed" g "[]" "g_order g"] by (simp add: build_plan_steps flip: set_map)

section \<open>Properties\<close>

text \<open>
  C16: the differences reported are the drift there is. Comparing lists a field exactly when it
  is declared, describes the host, could be read and does not hold the declared value, each
  field once, and a difference is marked uncorrectable exactly when the provider says so.
\<close>

theorem compare_exact:
  assumes "wf_map (v_map desired)"
  shows "fd_field ` set (df_fields (compare_state ref desired ob)) = Collect (drifted ref desired ob)
    \<and> distinct (map fd_field (df_fields (compare_state ref desired ob)))
    \<and> (\<forall>d \<in> set (df_fields (compare_state ref desired ob)). fd_uncorrectable d \<longleftrightarrow> \<not> can_correct ob (fd_field d))"
proof (intro conjI ballI)
  let ?f = "compare_field (identity_of ref) desired ob"
  show "fd_field ` set (df_fields (compare_state ref desired ob)) = Collect (drifted ref desired ob)"
    by (rule compare_fields)
  show "distinct (map fd_field (df_fields (compare_state ref desired ob)))"
    using declared_fields_distinct [OF assms] by (simp add: listed_fields)
  fix d assume "d \<in> set (df_fields (compare_state ref desired ob))"
  then obtain f where "?f f = Some d" by (auto simp: compare_state_def map_filter_def)
  then show "fd_uncorrectable d \<longleftrightarrow> \<not> can_correct ob (fd_field d)" using compare_field_Some by metis
qed

text \<open>
  C28: a plan considers everything once. Its steps are the resources of the manifest, each
  once and in the order of the graph, and the summary counts every one of them.
\<close>

theorem plan_complete:
  fixes sha m g observed
  assumes "distinct (map rv_ref (mf_resources m))" "build_protecting m protected = Inr g"
  defines "p \<equiv> build_plan sha m g observed"
  shows "map st_ref (pl_steps p) = g_order g
    \<and> distinct (map st_ref (pl_steps p)) \<and> st_ref ` set (pl_steps p) = rv_ref ` set (mf_resources m)
    \<and> ct_create (plan_counts p) + ct_update (plan_counts p) + ct_remove (plan_counts p) + ct_skip (plan_counts p)
        + ct_unchanged (plan_counts p) + ct_failed (plan_counts p) = length (mf_resources m)"
proof -
  note r = build_result [OF assms(1,2)]
  have refs: "map st_ref (pl_steps p) = g_order g"
    unfolding p_def build_plan_steps by (rule plan_steps_refs) simp
  have "card (set (g_order g)) = card (rv_ref ` set (mf_resources m))" using r by simp
  then have "length (g_order g) = length (mf_resources m)"
    using r distinct_card [OF assms(1)] distinct_card [of "g_order g"] by simp
  then have len: "length (pl_steps p) = length (mf_resources m)" using arg_cong [OF refs, of length] by simp
  from refs r have "st_ref ` set (pl_steps p) = rv_ref ` set (mf_resources m)"
    by (metis set_map)
  with refs r len show ?thesis unfolding plan_counts_def count_steps by simp
qed

text \<open>
  C8: a plan changes what must change. For a built graph the steps that change the host are
  exactly those of the least set of resources that holds every resource whose own state calls
  for a change and is closed under restart and reload triggers, skipped resources excepted.
\<close>

theorem plan_refines_triggers:
  assumes "built g" "s \<in> set (pl_steps (build_plan sha m g observed))"
  shows "changes (st_action s) \<longleftrightarrow> must_change g (bases g observed) (st_ref s)"
  using plan_steps_must_change [OF assms(1), of "bases g observed" "[]" "g_order g" "[]"] assms(2)
  by (simp add: build_plan_steps)

text \<open>
  A difference that cannot be corrected is still acted on. When every difference of a
  present resource is one its provider cannot correct, the plan updates it all the same, and
  every resource that restarts or reloads on it and can be reconciled is changed as well.
\<close>

theorem uncorrectable_still_acted:
  assumes g: "built g" and s: "s \<in> set (pl_steps (build_plan sha m g observed))"
    and r: "observed_for observed (st_ref s) = Some r" "\<not> or_skipped r" "or_err r = None"
    and d: "map_of (diff_all observed (\<lambda>ref. rv_desired (n_resource (node_at g ref)))) (st_ref s) = Some d"
      "df_exists d" "wanted_present (rv_desired (n_resource (node_at g (st_ref s))))"
      "correctable d = []" "uncorrectable d \<noteq> []"
    and e: "e \<in> set (g_edges g)" "e_from e = st_ref s" "triggers (e_kind e)"
    and t: "t \<in> set (pl_steps (build_plan sha m g observed))" "st_ref t = e_to e" "st_action t \<noteq> Skip"
  shows "st_action s = Update \<and> changes (st_action t)"
proof -
  have "differs d" using d(5) by (auto simp: differs_def uncorrectable_def)
  then have b: "st_action (bases g observed (st_ref s)) = Update"
    using r d by (simp add: bases_def base_step_def decide_def Let_def)
  have steps: "\<exists>c. x = trigger_step g c (bases g observed (st_ref x))"
    if "x \<in> set (pl_steps (build_plan sha m g observed))" for x
    using plan_steps_bases that unfolding build_plan_steps by fastforce
  have "st_action s = Update" using steps [OF s] b by (metis trigger_step_action action.distinct(5))
  have "must_change g (bases g observed) (e_from e)"
    using b e(2) s plan_refs [of sha m g observed] by (intro must_change.own) auto
  moreover have "st_action (bases g observed (e_to e)) \<noteq> Skip"
    using steps [OF t(1)] t(2,3) by (metis trigger_step_action action.distinct(7))
  ultimately have "must_change g (bases g observed) (e_to e)" using must_change.triggered e by metis
  with plan_steps_must_change [OF g, of "bases g observed" "[]" "g_order g" "[]" t] t(1,2)
  show ?thesis using \<open>st_action s = Update\<close> by (simp add: build_plan_steps)
qed


section \<open>Witnesses\<close>

text \<open>
  A user whose uid differs from the declared one, which its provider does not correct, and a
  service that restarts on it and runs as declared.
\<close>

definition example_account :: manifest where
  "example_account = \<lparr>mf_host = ''h'', mf_revision = ''r'', mf_layers = [],
     mf_resources =
       [(example_setting ''s'' [])\<lparr>rv_ref := Reference ''Service'' ''s'', rv_restartOn := [Reference ''User'' ''u''],
          rv_desired := map_val [(''state'', scalar_val ''running'')]\<rparr>,
        (example_setting ''u'' [])\<lparr>rv_ref := Reference ''User'' ''u'',
          rv_desired := map_val [(''uid'', scalar_val ''7'')]\<rparr>]\<rparr>"

definition example_account_graph :: graph where
  "example_account_graph = (case build_protecting example_account no_protection of
     Inr g \<Rightarrow> g | Inl _ \<Rightarrow> \<lparr>g_nodes = [], g_edges = [], g_order = []\<rparr>)"

definition example_found :: "(string \<times> val) list \<Rightarrow> string list \<Rightarrow> reference \<Rightarrow> observe_result" where
  "example_found fs un ref = \<lparr>or_ref = ref, or_provider = ''p'',
     or_observation = zero_observation\<lparr>ob_exists := True, ob_fields := fs, ob_uncorrectable := un\<rparr>,
     or_skipped = False, or_reason = [], or_err = None\<rparr>"

definition example_observed :: observe_state where
  "example_observed = \<lparr>os_results =
      [example_found [(''uid'', scalar_val ''8'')] [''uid''] (Reference ''User'' ''u''),
       example_found [(''state'', scalar_val ''running'')] [] (Reference ''Service'' ''s'')],
     os_by_ref = [(Reference ''User'' ''u'', 0), (Reference ''Service'' ''s'', 1)]\<rparr>"

definition example_plan :: plan where
  "example_plan = build_plan id example_account example_account_graph example_observed"

lemma example_account_builds:
  "build_protecting example_account no_protection = Inr example_account_graph"
  "map e_from (g_edges example_account_graph) = [Reference ''User'' ''u'']"
  by code_simp+

lemma example_account_refs: "distinct (map rv_ref (mf_resources example_account))"
  by (simp add: example_account_def example_setting_def)

lemma example_account_built: "built example_account_graph"
  unfolding built_def using example_account_builds(1) example_account_refs by blast

lemma example_steps:
  "map st_ref (pl_steps example_plan) = [Reference ''User'' ''u'', Reference ''Service'' ''s'']"
  "map st_action (pl_steps example_plan) = [Update, Update]"
  by code_simp+

theorem compare_exact_witness:
  "drifted (Reference ''User'' ''u'') (map_val [(''uid'', scalar_val ''7'')]) zero_observation ''uid''"
proof -
  have "''uid'' \<in> fd_field ` set (df_fields
      (compare_state (Reference ''User'' ''u'') (map_val [(''uid'', scalar_val ''7'')]) zero_observation))"
    by code_simp
  then show ?thesis using compare_exact [of "map_val [(''uid'', scalar_val ''7'')]"] by simp
qed

theorem plan_complete_witness: "distinct (map st_ref (pl_steps example_plan))"
  using plan_complete [OF example_account_refs example_account_builds(1), of id example_observed]
  unfolding example_plan_def by blast

theorem plan_refines_triggers_witness:
  "must_change example_account_graph (bases example_account_graph example_observed) (Reference ''Service'' ''s'')"
proof -
  let ?s = "pl_steps example_plan ! 1"
  have "length (pl_steps example_plan) = 2" "st_ref ?s = Reference ''Service'' ''s''" "st_action ?s = Update"
    by code_simp+
  then show ?thesis
    using plan_refines_triggers [OF example_account_built, of ?s id example_account example_observed]
    by (simp flip: example_plan_def)
qed

theorem uncorrectable_still_acted_witness:
  "st_action (pl_steps example_plan ! 0) = Update \<and> changes (st_action (pl_steps example_plan ! 1))"
proof -
  let ?s = "pl_steps example_plan ! 0" and ?t = "pl_steps example_plan ! 1"
  let ?e = "g_edges example_account_graph ! 0"
  let ?d = "compare_state (Reference ''User'' ''u'') (map_val [(''uid'', scalar_val ''7'')])
      (or_observation (os_results example_observed ! 0))"
  have "length (pl_steps example_plan) = 2" "length (g_edges example_account_graph) = 1" by code_simp+
  then have in_s: "?s \<in> set (pl_steps example_plan)" "?t \<in> set (pl_steps example_plan)"
    and in_e: "?e \<in> set (g_edges example_account_graph)" by simp_all
  have c: "st_ref ?s = Reference ''User'' ''u''"
    "observed_for example_observed (Reference ''User'' ''u'') = Some (os_results example_observed ! 0)"
    "\<not> or_skipped (os_results example_observed ! 0)" "or_err (os_results example_observed ! 0) = None"
    "map_of (diff_all example_observed (\<lambda>ref. rv_desired (n_resource (node_at example_account_graph ref))))
        (Reference ''User'' ''u'') = Some ?d"
    "df_exists ?d" "wanted_present (rv_desired (n_resource (node_at example_account_graph (Reference ''User'' ''u''))))"
    "correctable ?d = []" "uncorrectable ?d \<noteq> []" "e_from ?e = Reference ''User'' ''u''"
    "triggers (e_kind ?e)" "st_ref ?t = e_to ?e" "st_action ?t \<noteq> Skip"
    by code_simp+
  show ?thesis
    using uncorrectable_still_acted [of example_account_graph ?s id example_account example_observed
        "os_results example_observed ! 0" ?d ?e ?t] example_account_built in_s in_e c
    unfolding example_plan_def by simp
qed

end
