(* ===== verification/Reconcile.thy ===== *)
theory Reconcile
  imports Plan
begin

text \<open>
  Package \<open>internal/reconcile\<close>: a plan is applied one step at a time, each applied step is read
  back and compared again, and what depends on a failure is blocked. The host is an abstract
  world that only a provider's apply changes; \<open>fs_of\<close> gives the file system of a world for the
  last check before a change.
\<close>

section \<open>Definitions\<close>

datatype mode = Enforce | Observe

definition mode_string :: "mode \<Rightarrow> string" where
  "mode_string m = (if m = Observe then ''observe'' else ''enforce'')"

datatype rc_error =
    ReadError string
  | NoProvider string
  | NotInGraph reference
  | IdentityRefused identity_msg
  | ActionTimedOut action int
  | ApplyError string
  | VerifyError reference string
  | NotVerified string reference string

record outcome_of =
  rr_ref :: reference
  rr_provider :: string
  rr_target :: string
  rr_action :: action
  rr_state :: res_state
  rr_fields :: "string list"
  rr_reason :: string
  rr_err :: "rc_error option"

record pass_result =
  pr_outcome :: outcome
  pr_host_state :: host_state
  pr_resources :: "outcome_of list"

text \<open>The timeout is in nanoseconds; zero or less leaves an action unbounded.\<close>

record 'w options =
  op_mode :: mode
  op_providers :: "'w provider_set"
  op_graph :: graph
  op_repo_root :: string
  op_action_timeout :: int
  op_protected :: protected_set

subsection \<open>Blocking\<close>

fun block_edges :: "edge list \<Rightarrow> string \<Rightarrow> (reference \<times> string) list \<Rightarrow> reference list
    \<Rightarrow> (reference \<times> string) list \<times> reference list" where
  "block_edges [] reason blocked queue = (blocked, queue)"
| "block_edges (e # es) reason blocked queue =
     (if map_of blocked (e_to e) \<noteq> None then block_edges es reason blocked queue
      else block_edges es reason (AList.update (e_to e) reason blocked) (queue @ [e_to e]))"

lemma block_edges_keys: "fst ` set (fst (block_edges es reason blocked queue)) = fst ` set blocked \<union> e_to ` set es"
proof (induction es arbitrary: blocked queue)
  case (Cons e es)
  then show ?case by (auto simp: dom_map_of_conv_image_fst [symmetric] update_conv' domIff)
qed simp

text \<open>Every resource joins the queue at most once, when it is first blocked.\<close>

lemma block_edges_measure:
  assumes "finite U" "e_to ` set es \<subseteq> U"
  shows "length (snd (block_edges es reason blocked queue)) + card (U - fst ` set (fst (block_edges es reason blocked queue)))
    = length queue + card (U - fst ` set blocked)"
  using assms(2)
proof (induction es arbitrary: blocked queue)
  case (Cons e es)
  show ?case
  proof (cases "map_of blocked (e_to e)")
    case None
    then have "e_to e \<in> U - fst ` set blocked" using Cons.prems by (auto simp: map_of_eq_None_iff)
    moreover have "U - fst ` set (AList.update (e_to e) reason blocked) = (U - fst ` set blocked) - {e_to e}"
      by (auto simp: dom_map_of_conv_image_fst [symmetric] update_conv' domIff split: if_splits)
    ultimately have "Suc (card (U - fst ` set (AList.update (e_to e) reason blocked))) = card (U - fst ` set blocked)"
      using assms(1) card.remove [of "U - fst ` set blocked" "e_to e"] by simp
    with Cons None show ?thesis by simp
  next
    case (Some x)
    then show ?thesis using Cons by simp
  qed
qed simp

function block_loop :: "edge list \<Rightarrow> string \<Rightarrow> (reference \<times> string) list \<Rightarrow> reference list
    \<Rightarrow> (reference \<times> string) list" where
  "block_loop edges reason blocked [] = blocked"
| "block_loop edges reason blocked (current # queue) =
     (let (blocked', queue') = block_edges (dependents edges current) reason blocked queue
      in block_loop edges reason blocked' queue')"
  by pat_completeness auto
termination
proof (relation "measure (\<lambda>(edges, reason, blocked, queue).
    length queue + card (e_to ` set edges - fst ` set blocked))", goal_cases)
  case (2 edges reason blocked current queue x xa y)
  then have "block_edges (dependents edges current) reason blocked queue = (xa, y)" by simp
  moreover have "e_to ` set (dependents edges current) \<subseteq> e_to ` set edges" by (auto simp: dependents_def)
  ultimately show ?case
    using block_edges_measure [of "e_to ` set edges" "dependents edges current" reason blocked queue] by simp
qed simp

definition block :: "graph \<Rightarrow> (reference \<times> string) list \<Rightarrow> reference \<Rightarrow> string \<Rightarrow> (reference \<times> string) list" where
  "block g blocked ref reason = block_loop (g_edges g) reason blocked [ref]"


subsection \<open>Verifying\<close>

definition field_names :: "field_diff list \<Rightarrow> string list" where
  "field_names fs = map fd_field fs"

definition list_text :: "string list \<Rightarrow> string" where
  "list_text items = foldl (\<lambda>out (i, item). if 0 < i then out @ '', '' @ item else out @ item) []
     (zip [0..<length items] items)"

definition existence :: "bool \<Rightarrow> string" where
  "existence e = (if e then ''there'' else ''absent'')"

definition verification_error :: "step \<Rightarrow> string \<Rightarrow> rc_error" where
  "verification_error s detail = NotVerified (st_provider s) (st_ref s) detail"

definition verify :: "step \<Rightarrow> request \<Rightarrow> observation \<Rightarrow> res_state \<times> string \<times> rc_error option" where
  "verify s req ob =
     (if request_present req \<noteq> ob_exists ob
      then (Drifted, [], Some (verification_error s (''the target is still '' @ existence (ob_exists ob))))
      else if \<not> ob_exists ob then (Converged, [], None)
      else
        let d = compare_state (st_ref s) (desired_or ob (rq_desired req)) ob;
            failed = correctable d;
            left = uncorrectable d
        in if failed \<noteq> []
           then (Drifted, [], Some (verification_error s (''these fields did not take: '' @ list_text (field_names failed))))
           else if left \<noteq> [] then (Drifted, list_text (field_names left) @ '' differs and is not corrected'', None)
           else (Converged, [], None))"

subsection \<open>Applying one step\<close>

definition enforce :: "('w \<Rightarrow> filesystem) \<Rightarrow> 'w options \<Rightarrow> step \<Rightarrow> 'w
    \<Rightarrow> (res_state \<times> string \<times> rc_error option) \<times> 'w" where
  "enforce fs_of opts s world =
     (case provider_for (op_providers opts) (ref_type (st_ref s)) of
        None \<Rightarrow> ((Failed, [], Some (NoProvider (ref_type (st_ref s)))), world)
      | Some p \<Rightarrow>
          (case map_of (g_nodes (op_graph opts)) (st_ref s) of
             None \<Rightarrow> ((Failed, [], Some (NotInGraph (st_ref s))), world)
           | Some n \<Rightarrow>
               let req = request_of n (st_ref s) (op_repo_root opts) (st_trigger s);
                   verify_req = req\<lparr>rq_trigger := NoTrigger\<rparr>
               in case check_identity (fs_of world) (op_protected opts) (st_ref s) (n_target n) of
                    Some err \<Rightarrow> ((Failed, [], Some (IdentityRefused err)), world)
                  | None \<Rightarrow>
                      (case p_apply p world req (st_action s) of
                         (ApplyFailed err expired, world') \<Rightarrow>
                           ((Failed, [], Some
                               (if 0 < op_action_timeout opts \<and> expired
                                then ActionTimedOut (st_action s) (op_action_timeout opts)
                                else ApplyError err)), world')
                       | (Applied, world') \<Rightarrow>
                           (case p_observe p world' verify_req of
                              Inl err \<Rightarrow> ((Failed, [], Some (VerifyError (st_ref s) err)), world')
                            | Inr ob \<Rightarrow> (verify s verify_req ob, world')))))"

subsection \<open>Applying a plan\<close>

definition dependency_reason :: "reference \<Rightarrow> outcome_of \<Rightarrow> string" where
  "dependency_reason ref r =
     (if rr_state r = Drifted then ref_string ref @ '' did not verify'' else ref_string ref @ '' failed'')"

record 'w apply_state =
  as_blocked :: "(reference \<times> string) list"
  as_resources :: "outcome_of list"
  as_applied :: bool
  as_world :: 'w

definition apply_step :: "('w \<Rightarrow> filesystem) \<Rightarrow> 'w options \<Rightarrow> step \<Rightarrow> 'w apply_state \<Rightarrow> 'w apply_state" where
  "apply_step fs_of opts s a =
     (let r = \<lparr>rr_ref = st_ref s, rr_provider = st_provider s, rr_target = st_target s, rr_action = st_action s,
               rr_state = Pending, rr_fields = field_names (st_fields s), rr_reason = st_reason s, rr_err = None\<rparr>;
          add = (\<lambda>r. a\<lparr>as_resources := as_resources a @ [r]\<rparr>)
      in if st_err s \<noteq> None then
           (add (r\<lparr>rr_state := Failed, rr_err := map_option ReadError (st_err s)\<rparr>))
             \<lparr>as_blocked := block (op_graph opts) (as_blocked a) (st_ref s) ''could not be read''\<rparr>
         else if st_action s = Skip then add (r\<lparr>rr_state := Skipped\<rparr>)
         else case map_of (as_blocked a) (st_ref s) of
           Some because \<Rightarrow> add (r\<lparr>rr_state := Blocked, rr_reason := because\<rparr>)
         | None \<Rightarrow>
             if \<not> changes (st_action s) then add (r\<lparr>rr_state := Converged\<rparr>)
             else if op_mode opts = Observe then add (r\<lparr>rr_state := Drifted\<rparr>)
             else
               let ((st, reason, err), world') = enforce fs_of opts s (as_world a);
                   r' = r\<lparr>rr_state := st, rr_reason := (if reason \<noteq> [] then reason else st_reason s), rr_err := err\<rparr>
               in (add r')\<lparr>as_applied := True, as_world := world',
                    as_blocked := (if st \<noteq> Converged \<and> err \<noteq> None
                                   then block (op_graph opts) (as_blocked a) (st_ref s) (dependency_reason (st_ref s) r')
                                   else as_blocked a)\<rparr>)"

text \<open>\<open>ctx i\<close> is the error of the pass's context when step \<open>i\<close> is reached.\<close>

fun apply_loop :: "('w \<Rightarrow> filesystem) \<Rightarrow> (nat \<Rightarrow> string option) \<Rightarrow> nat \<Rightarrow> 'w options \<Rightarrow> step list \<Rightarrow> 'w apply_state
    \<Rightarrow> 'w apply_state \<times> string option" where
  "apply_loop fs_of ctx i opts [] a = (a, None)"
| "apply_loop fs_of ctx i opts (s # ss) a =
     (case ctx i of
        Some err \<Rightarrow> (a, Some err)
      | None \<Rightarrow> apply_loop fs_of ctx (Suc i) opts ss (apply_step fs_of opts s a))"

fun outcome_loop :: "bool \<Rightarrow> bool \<Rightarrow> outcome_of list \<Rightarrow> outcome" where
  "outcome_loop applied dr [] =
     (if dr then OutcomeDrifted else if applied then OutcomeChanged else OutcomeConverged)"
| "outcome_loop applied dr (r # rs) =
     (if rr_state r = Failed \<or> rr_state r = Blocked then OutcomeFailed
      else if rr_state r = Drifted \<and> rr_err r \<noteq> None then OutcomeFailed
      else if rr_state r = Drifted then outcome_loop applied True rs
      else outcome_loop applied dr rs)"

definition pass_outcome :: "outcome_of list \<Rightarrow> bool \<Rightarrow> outcome" where
  "pass_outcome resources applied = outcome_loop applied False resources"

definition states :: "outcome_of list \<Rightarrow> res_state list" where
  "states resources = map rr_state resources"

definition failures :: "pass_result \<Rightarrow> (reference \<times> rc_error) list" where
  "failures r = List.map_filter (\<lambda>x. map_option (Pair (rr_ref x)) (rr_err x)) (pr_resources r)"

definition apply_plan :: "('w \<Rightarrow> filesystem) \<Rightarrow> (nat \<Rightarrow> string option) \<Rightarrow> plan \<Rightarrow> 'w options \<Rightarrow> 'w
    \<Rightarrow> (pass_result \<times> string option) \<times> 'w" where
  "apply_plan fs_of ctx p opts world =
     (case apply_loop fs_of ctx 0 opts (pl_steps p)
             \<lparr>as_blocked = [], as_resources = [], as_applied = False, as_world = world\<rparr> of
        (a, Some err) \<Rightarrow>
          ((\<lparr>pr_outcome = OutcomeConverged, pr_host_state = UnknownHost, pr_resources = as_resources a\<rparr>, Some err),
           as_world a)
      | (a, None) \<Rightarrow>
          ((\<lparr>pr_outcome = pass_outcome (as_resources a) (as_applied a),
             pr_host_state = host_from (states (as_resources a)), pr_resources = as_resources a\<rparr>, None), as_world a))"


section \<open>Specification\<close>

definition failing :: "outcome_of list \<Rightarrow> reference set" where
  "failing rs = rr_ref ` {r \<in> set rs. rr_err r \<noteq> None}"

section \<open>Lemmas\<close>

subsection \<open>Blocking\<close>

lemma block_edges_queue:
  "set (snd (block_edges es reason blocked queue)) = set queue \<union> (e_to ` set es - fst ` set blocked)"
proof (induction es arbitrary: blocked queue)
  case (Cons e es)
  have "fst ` set (AList.update (e_to e) reason blocked) = insert (e_to e) (fst ` set blocked)"
    by (simp add: dom_map_of_conv_image_fst [symmetric] update_conv')
  with Cons show ?case
  proof (cases "map_of blocked (e_to e)")
    case (Some x)
    then have "e_to e \<in> fst ` set blocked" by (metis map_of_eq_None_iff option.distinct(1))
    then show ?thesis using Cons Some by auto
  qed (auto simp: map_of_eq_None_iff)
qed simp

definition closed_but :: "edge list \<Rightarrow> reference set \<Rightarrow> reference set \<Rightarrow> bool" where
  "closed_but edges B Q \<longleftrightarrow> (\<forall>(a, b) \<in> edge_rel edges. a \<in> B \<longrightarrow> b \<in> B \<or> a \<in> Q)"

lemma closed_but_trancl:
  assumes "closed_but edges B Q" "(a, b) \<in> (edge_rel edges)\<^sup>+" "a \<in> B"
  shows "b \<in> B \<or> b \<in> (edge_rel edges)\<^sup>+ `` Q"
  using assms(2)
proof (induction rule: trancl_induct)
  case (base y)
  then show ?case using assms(1,3) by (fastforce simp: closed_but_def)
next
  case (step y z)
  then show ?case using assms(1) unfolding closed_but_def
    by (fastforce intro: trancl_into_trancl)
qed

text \<open>From a set that is closed but for the queue, the loop blocks what is below the queue.\<close>

lemma block_loop_keys:
  "closed_but edges (fst ` set blocked) (set queue) \<Longrightarrow>
     fst ` set (block_loop edges reason blocked queue) = fst ` set blocked \<union> (edge_rel edges)\<^sup>+ `` set queue"
proof (induction edges reason blocked queue rule: block_loop.induct)
  case (2 edges reason blocked current queue)
  obtain B' Q' where b: "block_edges (dependents edges current) reason blocked queue = (B', Q')" by fastforce
  let ?R = "edge_rel edges" and ?B = "fst ` set blocked"
  have nx: "e_to ` set (dependents edges current) = ?R `` {current}"
    by (auto simp: dependents_def edge_rel_def)
  have keys: "fst ` set B' = ?B \<union> ?R `` {current}"
    using block_edges_keys [of "dependents edges current" reason blocked queue] b nx by simp
  have queue: "set Q' = set queue \<union> (?R `` {current} - ?B)"
    using block_edges_queue [of "dependents edges current" reason blocked queue] b nx by simp
  have c: "closed_but edges (fst ` set B') (set Q')"
    using 2(2) unfolding closed_but_def keys queue by fastforce
  have "fst ` set (block_loop edges reason B' Q') = fst ` set B' \<union> ?R\<^sup>+ `` set Q'"
    using 2(1) [OF b [symmetric] refl] c by simp
  also have "\<dots> = ?B \<union> ?R\<^sup>+ `` set (current # queue)"
  proof
    show "fst ` set B' \<union> ?R\<^sup>+ `` set Q' \<subseteq> ?B \<union> ?R\<^sup>+ `` set (current # queue)"
      unfolding keys queue by (auto intro: trancl_into_trancl2)
    have "x \<in> fst ` set B' \<union> ?R\<^sup>+ `` set Q'" if "(current, x) \<in> ?R\<^sup>+" for x
    proof -
      from that obtain y where y: "(current, y) \<in> ?R" "(y, x) \<in> ?R\<^sup>*" by (meson tranclD)
      then have "y \<in> fst ` set B'" by (simp add: keys)
      then show ?thesis using closed_but_trancl [OF c, of y x] y(2) by (auto simp: rtrancl_eq_or_trancl)
    qed
    then show "?B \<union> ?R\<^sup>+ `` set (current # queue) \<subseteq> fst ` set B' \<union> ?R\<^sup>+ `` set Q'"
      unfolding queue by (auto simp: keys)
  qed
  finally show ?case by (simp add: b)
qed simp

lemma block_keys:
  assumes "fst ` set blocked = (edge_rel (g_edges g))\<^sup>+ `` F"
  shows "fst ` set (block g blocked ref reason) = (edge_rel (g_edges g))\<^sup>+ `` insert ref F"
proof -
  have "closed_but (g_edges g) (fst ` set blocked) (set [ref])"
    unfolding closed_but_def assms by (auto intro: trancl_into_trancl)
  from block_loop_keys [OF this] show ?thesis unfolding block_def using assms by auto
qed


subsection \<open>One step\<close>

lemma verify_cases:
  "verify s req ob = (st, reason, err) \<Longrightarrow>
     (st = Converged \<and> err = None \<or> st = Drifted)
     \<and> (st = Converged \<longrightarrow> request_present req = ob_exists ob
          \<and> (ob_exists ob \<longrightarrow> \<not> differs (compare_state (st_ref s) (desired_or ob (rq_desired req)) ob)))"
  by (auto simp: verify_def Let_def differs_def correctable_def uncorrectable_def filter_empty_conv
      split: if_splits)

lemma enforce_state:
  "enforce fs_of opts s world = ((st, reason, err), world') \<Longrightarrow>
     (st = Converged \<and> err = None \<or> st = Drifted \<or> st = Failed \<and> err \<noteq> None)"
  by (auto simp: enforce_def Let_def dest!: verify_cases
      split: option.splits apply_result.splits prod.splits sum.splits)

text \<open>What a step adds to the result, and what it does to the blocked resources and the world.\<close>

definition step_result :: "('w \<Rightarrow> filesystem) \<Rightarrow> 'w options \<Rightarrow> step \<Rightarrow> 'w apply_state \<Rightarrow> outcome_of" where
  "step_result fs_of opts s a = last (as_resources (apply_step fs_of opts s a))"

lemma apply_step_cases:
  fixes fs_of opts s a
  defines "r \<equiv> step_result fs_of opts s a" and "a' \<equiv> apply_step fs_of opts s a"
  obtains
    (unread) err where "st_err s = Some err" "rr_state r = Failed" "rr_err r = Some (ReadError err)"
      "as_world a' = as_world a" "as_applied a' = as_applied a"
      "as_blocked a' = block (op_graph opts) (as_blocked a) (st_ref s) ''could not be read''"
  | (skipped) "st_err s = None" "st_action s = Skip" "rr_state r = Skipped" "rr_err r = None"
      "as_world a' = as_world a" "as_applied a' = as_applied a" "as_blocked a' = as_blocked a"
  | (blocked) "st_err s = None" "st_action s \<noteq> Skip" "st_ref s \<in> fst ` set (as_blocked a)" "rr_state r = Blocked"
      "rr_err r = None" "as_world a' = as_world a" "as_applied a' = as_applied a" "as_blocked a' = as_blocked a"
  | (unchanged) "st_err s = None" "st_action s = NoAction" "st_ref s \<notin> fst ` set (as_blocked a)" "rr_state r = Converged"
      "rr_err r = None" "as_world a' = as_world a" "as_applied a' = as_applied a" "as_blocked a' = as_blocked a"
  | (observed) "st_err s = None" "changes (st_action s)" "st_ref s \<notin> fst ` set (as_blocked a)" "op_mode opts = Observe"
      "rr_state r = Drifted" "rr_err r = None" "as_world a' = as_world a" "as_applied a' = as_applied a"
      "as_blocked a' = as_blocked a"
  | (enforced) reason why where "st_err s = None" "changes (st_action s)" "st_ref s \<notin> fst ` set (as_blocked a)"
      "op_mode opts \<noteq> Observe" "as_applied a'"
      "enforce fs_of opts s (as_world a) = ((rr_state r, reason, rr_err r), as_world a')"
      "as_blocked a' = (if rr_err r = None then as_blocked a else block (op_graph opts) (as_blocked a) (st_ref s) why)"
proof (cases "st_err s")
  case (Some err)
  then show ?thesis
    by (intro unread [of err]) (simp_all add: r_def a'_def step_result_def apply_step_def Let_def)
next
  case None
  note defs = r_def a'_def step_result_def apply_step_def Let_def
  show ?thesis
  proof (cases "st_action s = Skip")
    case True
    then show ?thesis using None by (intro skipped) (simp_all add: defs)
  next
    case ns: False
    show ?thesis
    proof (cases "map_of (as_blocked a) (st_ref s)")
      case (Some because)
      then have "st_ref s \<in> fst ` set (as_blocked a)" by (metis map_of_eq_None_iff option.distinct(1))
      then show ?thesis using None ns Some by (intro blocked) (simp_all add: defs)
    next
      case nb: None
      then have k: "st_ref s \<notin> fst ` set (as_blocked a)" by (simp add: map_of_eq_None_iff)
      consider "st_action s = NoAction" | "changes (st_action s)" "op_mode opts = Observe"
        | "changes (st_action s)" "op_mode opts \<noteq> Observe" using changes_cases ns by blast
      then show ?thesis
      proof cases
        case 1
        then show ?thesis using None nb k by (intro unchanged) (simp_all add: defs)
      next
        case 2
        then show ?thesis using None ns nb k by (intro observed) (simp_all add: defs)
      next
        case 3
        obtain st reason err world' where e: "enforce fs_of opts s (as_world a) = ((st, reason, err), world')"
          by (metis prod.exhaust)
        have "err \<noteq> None \<Longrightarrow> st \<noteq> Converged" using enforce_state [OF e] by auto
        then show ?thesis
          using None ns nb k 3 e
          by (intro enforced [of reason "dependency_reason (st_ref s) r"]) (auto simp: defs)
      qed
    qed
  qed
qed

lemma apply_step_resources: "as_resources (apply_step fs_of opts s a) = as_resources a @ [step_result fs_of opts s a]"
  by (simp add: step_result_def apply_step_def Let_def split: option.split prod.split)

lemma step_result_of [simp]:
  "rr_ref (step_result fs_of opts s a) = st_ref s"
  "rr_action (step_result fs_of opts s a) = st_action s"
  "rr_provider (step_result fs_of opts s a) = st_provider s"
  "rr_fields (step_result fs_of opts s a) = field_names (st_fields s)"
  by (simp_all add: step_result_def apply_step_def Let_def split: option.split prod.split)

subsection \<open>The whole pass\<close>

definition start_state :: "'w \<Rightarrow> 'w apply_state" where
  "start_state world = \<lparr>as_blocked = [], as_resources = [], as_applied = False, as_world = world\<rparr>"

definition apply_all :: "('w \<Rightarrow> filesystem) \<Rightarrow> 'w options \<Rightarrow> 'w \<Rightarrow> step list \<Rightarrow> 'w apply_state" where
  "apply_all fs_of opts world ss = foldl (\<lambda>a s. apply_step fs_of opts s a) (start_state world) ss"

lemma apply_all_simps [simp]:
  "apply_all fs_of opts world [] = start_state world"
  "apply_all fs_of opts world (ss @ [s]) = apply_step fs_of opts s (apply_all fs_of opts world ss)"
  by (simp_all add: apply_all_def)

lemma apply_loop_all:
  "apply_loop fs_of ctx i opts ss a = (a', None) \<Longrightarrow> a' = foldl (\<lambda>a s. apply_step fs_of opts s a) a ss"
  by (induction ss arbitrary: i a) (auto split: option.splits)

lemma apply_plan_all:
  assumes "apply_plan fs_of ctx p opts world = ((res, None), world')"
  defines "a \<equiv> apply_all fs_of opts world (pl_steps p)"
  shows "pr_resources res = as_resources a" "world' = as_world a"
    "pr_outcome res = pass_outcome (as_resources a) (as_applied a)"
    "pr_host_state res = host_from (states (as_resources a))"
proof -
  obtain b e where l: "apply_loop fs_of ctx 0 opts (pl_steps p) (start_state world) = (b, e)" by fastforce
  then have "e = None" using assms(1) by (auto simp: apply_plan_def start_state_def split: option.splits)
  then have "b = a" using apply_loop_all l unfolding a_def apply_all_def by blast
  with assms(1) l \<open>e = None\<close>
  show "pr_resources res = as_resources a" "world' = as_world a"
    "pr_outcome res = pass_outcome (as_resources a) (as_applied a)"
    "pr_host_state res = host_from (states (as_resources a))"
    by (auto simp: apply_plan_def start_state_def)
qed

lemma apply_all_refs: "map rr_ref (as_resources (apply_all fs_of opts world ss)) = map st_ref ss"
  by (induction ss rule: rev_induct) (simp_all add: apply_step_resources start_state_def)

lemma apply_all_nth:
  "i < length ss \<Longrightarrow> as_resources (apply_all fs_of opts world ss) ! i
     = step_result fs_of opts (ss ! i) (apply_all fs_of opts world (take i ss))"
proof (induction ss rule: rev_induct)
  case (snoc s ss)
  have l: "length (as_resources (apply_all fs_of opts world ss)) = length ss"
    using arg_cong [OF apply_all_refs, of length] by simp
  show ?case
  proof (cases "i < length ss")
    case True
    then show ?thesis using snoc.IH l by (simp add: apply_step_resources nth_append)
  next
    case False
    then have "i = length ss" using snoc.prems by simp
    then show ?thesis using l by (simp add: apply_step_resources nth_append)
  qed
qed simp

text \<open>At every point the blocked resources are those below a failure.\<close>

lemma failing_snoc [simp]: "failing (rs @ [r]) = (if rr_err r = None then failing rs else insert (rr_ref r) (failing rs))"
  by (auto simp: failing_def)

lemma apply_all_blocked:
  "fst ` set (as_blocked (apply_all fs_of opts world ss))
     = (edge_rel (g_edges (op_graph opts)))\<^sup>+ `` failing (as_resources (apply_all fs_of opts world ss))"
proof (induction ss rule: rev_induct)
  case (snoc s ss)
  let ?a = "apply_all fs_of opts world ss"
  show ?case
    by (rule apply_step_cases [where fs_of = fs_of and opts = opts and s = s and a = ?a])
      (simp_all add: apply_step_resources snoc.IH block_keys [OF snoc.IH])
qed (simp add: start_state_def failing_def)


text \<open>In observe mode nothing is applied.\<close>

lemma apply_all_observe:
  assumes "op_mode opts = Observe"
  shows "as_world (apply_all fs_of opts world ss) = world \<and> \<not> as_applied (apply_all fs_of opts world ss)"
proof (induction ss rule: rev_induct)
  case (snoc s ss)
  show ?case
    by (rule apply_step_cases [where fs_of = fs_of and opts = opts and s = s and a = "apply_all fs_of opts world ss"])
      (use snoc assms in simp_all)
qed (simp add: start_state_def)

lemma pass_outcome_not_changed: "\<not> applied \<Longrightarrow> outcome_loop applied dr rs \<noteq> OutcomeChanged"
  by (induction rs arbitrary: dr) auto

lemma outcome_loop_values:
  "outcome_loop applied dr rs =
     (if \<exists>r \<in> set rs. rr_state r = Failed \<or> rr_state r = Blocked \<or> rr_state r = Drifted \<and> rr_err r \<noteq> None then OutcomeFailed
      else if dr \<or> (\<exists>r \<in> set rs. rr_state r = Drifted) then OutcomeDrifted
      else if applied then OutcomeChanged else OutcomeConverged)"
  by (induction rs arbitrary: dr) auto

text \<open>Whether something was applied shows in the results, and nothing changes the host otherwise.\<close>

lemma apply_all_applied:
  fixes fs_of opts world ss
  defines "a \<equiv> apply_all fs_of opts world ss"
  shows "as_applied a \<Longrightarrow> \<exists>r \<in> set (as_resources a). changes (rr_action r)"
    and "r \<in> set (as_resources a) \<Longrightarrow> rr_state r = Converged \<Longrightarrow> changes (rr_action r) \<Longrightarrow> as_applied a"
    and "\<not> as_applied a \<Longrightarrow> as_world a = world"
    and "r \<in> set (as_resources a) \<Longrightarrow> rr_state r = Skipped \<Longrightarrow> \<not> changes (rr_action r)"
    and "r \<in> set (as_resources a) \<Longrightarrow> rr_state r \<noteq> Pending \<and> rr_state r \<noteq> Applying"
  unfolding a_def
proof (induction ss rule: rev_induct)
  case (snoc s ss)
  let ?a = "apply_all fs_of opts world ss"
  let ?r = "step_result fs_of opts s ?a" and ?a' = "apply_step fs_of opts s ?a"
  have step: "(as_applied ?a' \<longleftrightarrow> as_applied ?a \<or> changes (rr_action ?r) \<and> as_applied ?a')
      \<and> (rr_state ?r = Converged \<longrightarrow> changes (rr_action ?r) \<longrightarrow> as_applied ?a')
      \<and> (as_applied ?a \<longrightarrow> as_applied ?a') \<and> (\<not> as_applied ?a' \<longrightarrow> as_world ?a' = as_world ?a)
      \<and> (rr_state ?r = Skipped \<longrightarrow> \<not> changes (rr_action ?r)) \<and> rr_state ?r \<noteq> Pending \<and> rr_state ?r \<noteq> Applying"
    by (rule apply_step_cases [where fs_of = fs_of and opts = opts and s = s and a = ?a])
      (auto simp: changes_def dest!: enforce_state)
  { case 1 then show ?case using step snoc.IH(1) by (auto simp: apply_step_resources)
  next case 2 then show ?case using step snoc.IH(2) by (auto simp: apply_step_resources)
  next case 3 then show ?case using step snoc.IH(3) by auto
  next case 4 then show ?case using step snoc.IH(4) by (auto simp: apply_step_resources)
  next case 5 then show ?case using step snoc.IH(5) by (auto simp: apply_step_resources) }
qed (simp_all add: start_state_def)

text \<open>An applied resource that is called converged was read back and does not differ.\<close>

lemma enforce_converged:
  assumes "enforce fs_of opts s world = ((Converged, reason, err), world')"
  shows "\<exists>p n ob. provider_for (op_providers opts) (ref_type (st_ref s)) = Some p
    \<and> map_of (g_nodes (op_graph opts)) (st_ref s) = Some n
    \<and> world' = snd (p_apply p world (request_of n (st_ref s) (op_repo_root opts) (st_trigger s)) (st_action s))
    \<and> p_observe p world' (request_of n (st_ref s) (op_repo_root opts) NoTrigger) = Inr ob
    \<and> ob_exists ob = request_present (request_of n (st_ref s) (op_repo_root opts) NoTrigger)
    \<and> (ob_exists ob \<longrightarrow>
         \<not> differs (compare_state (st_ref s) (desired_or ob (rv_desired (n_resource n))) ob))"
  using assms
  by (auto simp: enforce_def Let_def request_of_def dest!: verify_cases
      split: option.splits apply_result.splits prod.splits sum.splits)

lemma enforce_world:
  assumes "enforce fs_of opts s world = (res, world')"
  shows "world' = world \<or> (\<exists>p n. provider_for (op_providers opts) (ref_type (st_ref s)) = Some p
    \<and> map_of (g_nodes (op_graph opts)) (st_ref s) = Some n
    \<and> check_identity (fs_of world) (op_protected opts) (st_ref s) (n_target n) = None
    \<and> world' = snd (p_apply p world (request_of n (st_ref s) (op_repo_root opts) (st_trigger s)) (st_action s)))"
proof (cases "world' = world")
  case False
  then obtain p n where "provider_for (op_providers opts) (ref_type (st_ref s)) = Some p"
    "map_of (g_nodes (op_graph opts)) (st_ref s) = Some n"
    using assms by (auto simp: enforce_def split: option.splits)
  moreover have "check_identity (fs_of world) (op_protected opts) (st_ref s) (n_target n) = None
      \<and> world' = snd (p_apply p world (request_of n (st_ref s) (op_repo_root opts) (st_trigger s)) (st_action s))"
    using assms False calculation
    by (auto simp: enforce_def Let_def split: option.splits apply_result.splits prod.splits sum.splits)
  ultimately show ?thesis by blast
qed simp

section \<open>Properties\<close>

text \<open>
  C3: a failure blocks what is below it, and nothing else. In a completed pass over the order
  of a built graph a resource that could be read and is served here is blocked exactly when a
  resource it depends on, directly or not, ended with an error.
\<close>

theorem blocked_iff_below_failure:
  assumes "built (op_graph opts)" "map st_ref (pl_steps p) = g_order (op_graph opts)"
    and "apply_plan fs_of ctx p opts world = ((res, None), world')"
    and "i < length (pl_steps p)" "st_err (pl_steps p ! i) = None" "st_action (pl_steps p ! i) \<noteq> Skip"
  shows "rr_state (pr_resources res ! i) = Blocked \<longleftrightarrow>
    (\<exists>f \<in> set (pr_resources res). rr_err f \<noteq> None
       \<and> (rr_ref f, st_ref (pl_steps p ! i)) \<in> (edge_rel (g_edges (op_graph opts)))\<^sup>+)"
proof -
  let ?ss = "pl_steps p" and ?R = "(edge_rel (g_edges (op_graph opts)))\<^sup>+"
  define s where "s = ?ss ! i"
  let ?a = "apply_all fs_of opts world (take i ?ss)"
  note all = apply_plan_all [OF assms(3)]
  have r: "pr_resources res ! i = step_result fs_of opts s ?a"
    using apply_all_nth [OF assms(4)] by (simp add: all(1) s_def)
  have b: "rr_state (step_result fs_of opts s ?a) = Blocked \<longleftrightarrow> st_ref s \<in> fst ` set (as_blocked ?a)"
    by (rule apply_step_cases [where fs_of = fs_of and opts = opts and s = s and a = ?a])
      (use assms(5,6) in \<open>auto simp: s_def dest!: enforce_state\<close>)
  have split: "g_order (op_graph opts) = map st_ref (take i ?ss) @ st_ref s # map st_ref (drop (Suc i) ?ss)"
    using assms(2,4) by (metis append_take_drop_id Cons_nth_drop_Suc list.simps(9) map_append s_def)
  have "(\<exists>f \<in> failing (as_resources ?a). (f, st_ref s) \<in> ?R)
      \<longleftrightarrow> (\<exists>f \<in> failing (pr_resources res). (f, st_ref s) \<in> ?R)"
  proof
    let ?rs = "as_resources (apply_all fs_of opts world ?ss)"
    have "as_resources ?a = take i ?rs"
    proof (rule nth_equalityI)
      show l: "length (as_resources ?a) = length (take i ?rs)"
        using assms(4) arg_cong [OF apply_all_refs [of fs_of opts world], of length] by simp
      show "as_resources ?a ! j = take i ?rs ! j" if "j < length (as_resources ?a)" for j
        using that l apply_all_nth [of j ?ss fs_of opts world] apply_all_nth [of j "take i ?ss" fs_of opts world]
          assms(4) arg_cong [OF apply_all_refs [of fs_of opts world ?ss], of length] by (simp add: min_def)
    qed
    then have sub: "failing (as_resources ?a) \<subseteq> failing (pr_resources res)"
      unfolding all(1) failing_def by (auto dest: in_set_takeD)
    show "\<exists>f \<in> failing (pr_resources res). (f, st_ref s) \<in> ?R" if "\<exists>f \<in> failing (as_resources ?a). (f, st_ref s) \<in> ?R"
      using that sub by blast
    assume "\<exists>f \<in> failing (pr_resources res). (f, st_ref s) \<in> ?R"
    then obtain x where x: "x \<in> set ?rs" "rr_err x \<noteq> None" "(rr_ref x, st_ref s) \<in> ?R"
      by (auto simp: failing_def all(1))
    have "rr_ref x \<in> set (map st_ref (take i ?ss))"
      using built.ancestor_earlier [OF assms(1) x(3) split] .
    moreover have "distinct (map rr_ref ?rs)" using built.order_distinct [OF assms(1)] assms(2) by (simp add: apply_all_refs)
    moreover have "map st_ref (take i ?ss) = map rr_ref (as_resources ?a)" by (simp add: apply_all_refs)
    ultimately obtain y where y: "y \<in> set (as_resources ?a)" "rr_ref y = rr_ref x" and d: "inj_on rr_ref (set ?rs)"
      by (auto simp: distinct_map)
    then have "x = y" using x(1) \<open>as_resources ?a = take i ?rs\<close> by (metis in_set_takeD inj_onD)
    with y have "x \<in> set (as_resources ?a)" by simp
    then show "\<exists>f \<in> failing (as_resources ?a). (f, st_ref s) \<in> ?R" using x by (auto simp: failing_def)
  qed
  then show ?thesis unfolding r b apply_all_blocked by (auto simp: failing_def s_def Image_iff)
qed

text \<open>
  C29: observe mode changes nothing. Whatever the plan, the host is left as it was, the outcome
  is not that something changed, and no step that would change the host is called converged.
\<close>

theorem observe_mode_changes_nothing:
  assumes "op_mode opts = Observe" "apply_plan fs_of ctx p opts world = ((res, None), world')"
  shows "world' = world \<and> pr_outcome res \<noteq> OutcomeChanged
    \<and> (\<forall>r \<in> set (pr_resources res). changes (rr_action r) \<longrightarrow> rr_state r \<in> {Drifted, Failed, Blocked})"
proof (intro conjI ballI impI)
  note all = apply_plan_all [OF assms(2)]
  note a = apply_all_observe [OF assms(1), of fs_of world "pl_steps p"]
  show "world' = world" using a by (simp add: all(2))
  show "pr_outcome res \<noteq> OutcomeChanged" using a pass_outcome_not_changed [of False] by (simp add: all(3) pass_outcome_def)
  fix r assume r: "r \<in> set (pr_resources res)" "changes (rr_action r)"
  then obtain i where "i < length (pl_steps p)" "r = pr_resources res ! i"
    using arg_cong [OF apply_all_refs [of fs_of opts world "pl_steps p"], of length] by (auto simp: all(1) in_set_conv_nth)
  then have "r = step_result fs_of opts (pl_steps p ! i) (apply_all fs_of opts world (take i (pl_steps p)))"
    using apply_all_nth by (simp add: all(1))
  then show "rr_state r \<in> {Drifted, Failed, Blocked}"
    using r(2) assms(1)
    by (cases rule: apply_step_cases [where fs_of = fs_of and opts = opts and s = "pl_steps p ! i"
          and a = "apply_all fs_of opts world (take i (pl_steps p))"]) auto
qed

text \<open>
  C12: converged means verified. When a change is applied and the resource is called converged,
  the provider was asked again after applying, found the target present or absent as declared,
  and no declared field that can be compared and read differs from what it found.
\<close>

theorem converged_is_verified:
  assumes "enforce fs_of opts s world = ((Converged, reason, err), world')"
  shows "\<exists>p n ob. provider_for (op_providers opts) (ref_type (st_ref s)) = Some p
    \<and> map_of (g_nodes (op_graph opts)) (st_ref s) = Some n
    \<and> p_observe p world' (request_of n (st_ref s) (op_repo_root opts) NoTrigger) = Inr ob
    \<and> ob_exists ob = request_present (request_of n (st_ref s) (op_repo_root opts) NoTrigger)
    \<and> (ob_exists ob \<longrightarrow>
         (\<forall>field. \<not> drifted (st_ref s) (desired_or ob (rv_desired (n_resource n))) ob field))"
proof -
  have "\<forall>field. \<not> drifted ref desired ob field" if "\<not> differs (compare_state ref desired ob)" for ref desired ob
  proof (intro allI notI)
    fix field assume d: "drifted ref desired ob field"
    then have m: "field \<in> set (declared_fields desired)" by (simp add: drifted_def)
    from that have "compare_field (identity_of ref) desired ob field = None"
      using m by (auto simp: differs_def compare_state_def map_filter_def filter_empty_conv)
    with compare_field_None [OF m] d show False by blast
  qed
  with enforce_converged [OF assms] show ?thesis by meson
qed

text \<open>
  C27: the outcome tells the truth. A completed pass failed exactly when some resource failed,
  was blocked or did not verify; it is drifted exactly when it did not fail and some resource
  is drifted; it is changed exactly when every resource is converged or skipped and a change
  was applied to one of them; and it is converged exactly when every resource is skipped or is
  converged with nothing to do, and then the host is as it was. A host is called failed only
  after a failed pass.
\<close>

theorem outcome_exact:
  assumes "apply_plan fs_of ctx p opts world = ((res, None), world')"
  defines "bad \<equiv> \<exists>r \<in> set (pr_resources res). rr_state r \<in> {Failed, Blocked} \<or> rr_state r = Drifted \<and> rr_err r \<noteq> None"
    and "ok \<equiv> \<forall>r \<in> set (pr_resources res). rr_state r \<in> {Converged, Skipped}"
    and "changed \<equiv> \<exists>r \<in> set (pr_resources res). rr_state r = Converged \<and> changes (rr_action r)"
  shows "(pr_outcome res = OutcomeFailed \<longleftrightarrow> bad)
    \<and> (pr_outcome res = OutcomeDrifted \<longleftrightarrow> \<not> bad \<and> (\<exists>r \<in> set (pr_resources res). rr_state r = Drifted))
    \<and> (pr_outcome res = OutcomeChanged \<longleftrightarrow> ok \<and> changed)
    \<and> (pr_outcome res = OutcomeConverged \<longleftrightarrow> ok \<and> \<not> changed)
    \<and> (pr_outcome res = OutcomeConverged \<longrightarrow> world' = world)
    \<and> (pr_host_state res = HostFailed \<longrightarrow> pr_outcome res = OutcomeFailed)"
proof -
  note all = apply_plan_all [OF assms(1)]
  let ?a = "apply_all fs_of opts world (pl_steps p)"
  note applied = apply_all_applied [where fs_of = fs_of and opts = opts and world = world and ss = "pl_steps p", folded all(1)]
  have k: "rr_state r \<in> {Converged, Skipped} \<longleftrightarrow> rr_state r \<noteq> Failed \<and> rr_state r \<noteq> Blocked \<and> rr_state r \<noteq> Drifted"
    if "r \<in> set (pr_resources res)" for r
    using applied(5) [OF that] by (cases "rr_state r") simp_all
  have o: "pr_outcome res = (if bad then OutcomeFailed
      else if \<exists>r \<in> set (pr_resources res). rr_state r = Drifted then OutcomeDrifted
      else if as_applied ?a then OutcomeChanged else OutcomeConverged)"
    unfolding all(1,3) bad_def pass_outcome_def outcome_loop_values by (simp only: simp_thms insert_iff empty_iff disj_assoc)
  have ok: "ok \<longleftrightarrow> \<not> bad \<and> \<not> (\<exists>r \<in> set (pr_resources res). rr_state r = Drifted)"
    unfolding ok_def bad_def using k by blast
  have changed: "ok \<Longrightarrow> as_applied ?a \<longleftrightarrow> changed"
    using applied(1,2,4) unfolding ok_def changed_def by blast
  have "pr_host_state res = HostFailed \<longrightarrow> bad"
    unfolding all(1,4) bad_def host_from_def states_def by (auto simp: Let_def list_ex_iff)
  moreover have "pr_outcome res = OutcomeConverged \<longrightarrow> world' = world"
    using applied(3) unfolding o all(2) by simp
  ultimately show ?thesis using ok changed unfolding o by simp
qed


section \<open>Witnesses\<close>

text \<open>
  A host that is a table of settings, and a provider that reads and writes it and fails for the
  settings it is told to.
\<close>

definition example_files :: "'w \<Rightarrow> filesystem" where
  "example_files world = \<lparr>eval_symlinks = \<lambda>p. None, lstat = \<lambda>p. None, read_dir = \<lambda>p. None\<rparr>"

definition table_provider :: "string list \<Rightarrow> (string \<times> string) list provider" where
  "table_provider broken = \<lparr>p_name = ''table'', p_types = [''Sysctl''],
     p_observe = \<lambda>world req. Inr (zero_observation\<lparr>ob_exists := True,
       ob_fields := (case map_of world (rq_target req) of Some v \<Rightarrow> [(''value'', scalar_val v)] | None \<Rightarrow> [])\<rparr>),
     p_apply = \<lambda>world req act.
       if rq_target req \<in> set broken then (ApplyFailed ''broken'' False, world)
       else (Applied, AList.update (rq_target req) (field_or req ''value'' []) world)\<rparr>"

definition example_table :: manifest where
  "example_table = \<lparr>mf_host = ''h'', mf_revision = ''r'', mf_layers = [],
     mf_resources =
       [(example_setting ''a'' [Reference ''Sysctl'' ''b''])\<lparr>rv_desired := map_val [(''value'', scalar_val ''1'')]\<rparr>,
        (example_setting ''b'' [])\<lparr>rv_desired := map_val [(''value'', scalar_val ''2'')]\<rparr>]\<rparr>"

definition example_table_graph :: graph where
  "example_table_graph = (case build_protecting example_table no_protection of
     Inr g \<Rightarrow> g | Inl _ \<Rightarrow> \<lparr>g_nodes = [], g_edges = [], g_order = []\<rparr>)"

definition example_options :: "mode \<Rightarrow> string list \<Rightarrow> (string \<times> string) list options" where
  "example_options m broken = \<lparr>op_mode = m, op_providers = new_set [table_provider broken], op_graph = example_table_graph,
     op_repo_root = ''/r'', op_action_timeout = 0, op_protected = no_protection\<rparr>"

definition table_plan :: "string list \<Rightarrow> (string \<times> string) list \<Rightarrow> plan" where
  "table_plan broken world = build_plan id example_table example_table_graph
     (fst (observe_host (\<lambda>_. None) example_table_graph (new_set [table_provider broken]) ''/r'' world))"

definition table_pass :: "mode \<Rightarrow> string list \<Rightarrow> pass_result \<times> string option" where
  "table_pass m broken = fst (apply_plan example_files (\<lambda>_. None) (table_plan broken []) (example_options m broken) [])"

lemma table_graph:
  "build_protecting example_table no_protection = Inr example_table_graph"
  "g_order example_table_graph = [Reference ''Sysctl'' ''b'', Reference ''Sysctl'' ''a'']"
  "\<lparr>e_from = Reference ''Sysctl'' ''b'', e_to = Reference ''Sysctl'' ''a'', e_kind = Requires\<rparr> \<in> set (g_edges example_table_graph)"
  by code_simp+

lemma table_built: "built example_table_graph"
proof -
  have "distinct (map rv_ref (mf_resources example_table))" by (simp add: example_table_def example_setting_def)
  then show ?thesis unfolding built_def using table_graph(1) by blast
qed

lemma table_pass_complete: "snd (table_pass Enforce [''b'']) = None" "snd (table_pass Observe [''b'']) = None"
  by code_simp+

lemma table_apply:
  "snd (table_pass m broken) = None \<Longrightarrow>
     apply_plan example_files (\<lambda>_. None) (table_plan broken []) (example_options m broken) []
       = ((fst (table_pass m broken), None),
          snd (apply_plan example_files (\<lambda>_. None) (table_plan broken []) (example_options m broken) []))"
  unfolding table_pass_def by (metis prod.collapse)

theorem blocked_iff_below_failure_witness:
  "rr_state (pr_resources (fst (table_pass Enforce [''b''])) ! 1) = Blocked"
proof -
  let ?p = "table_plan [''b''] []" and ?res = "fst (table_pass Enforce [''b''])"
  have c: "map st_ref (pl_steps ?p) = [Reference ''Sysctl'' ''b'', Reference ''Sysctl'' ''a'']"
    "st_err (pl_steps ?p ! 1) = None" "st_action (pl_steps ?p ! 1) = Update"
    "rr_ref (pr_resources ?res ! 0) = Reference ''Sysctl'' ''b''"
    "rr_err (pr_resources ?res ! 0) = Some (ApplyError ''broken'')"
    "length (pr_resources ?res) = 2"
    by code_simp+
  have g: "op_graph (example_options Enforce [''b'']) = example_table_graph" by (simp add: example_options_def)
  have len: "1 < length (pl_steps ?p)" using arg_cong [OF c(1), of length] by simp
  have ref: "st_ref (pl_steps ?p ! 1) = Reference ''Sysctl'' ''a''" using c(1) len nth_map [of 1 "pl_steps ?p" st_ref] by simp
  have e: "(Reference ''Sysctl'' ''b'', Reference ''Sysctl'' ''a'') \<in> (edge_rel (g_edges example_table_graph))\<^sup>+"
    using table_graph(3) by (intro r_into_trancl) (force simp: edge_rel_def)
  have f: "pr_resources ?res ! 0 \<in> set (pr_resources ?res)" using c(6) by (intro nth_mem) simp
  show ?thesis
    using blocked_iff_below_failure [OF _ _ table_apply [OF table_pass_complete(1)] len c(2)]
      table_built table_graph(2) c e f ref unfolding g by (metis action.distinct(7) option.distinct(1) action.simps)
qed

theorem observe_mode_changes_nothing_witness:
  "snd (apply_plan example_files (\<lambda>_. None) (table_plan [''b''] []) (example_options Observe [''b'']) []) = []"
  using observe_mode_changes_nothing [OF _ table_apply [OF table_pass_complete(2)]] by (simp add: example_options_def)

theorem converged_is_verified_witness:
  "\<exists>ob. p_observe (table_provider []) [(''b'', ''2'')]
       (request_of (node_at example_table_graph (Reference ''Sysctl'' ''b'')) (Reference ''Sysctl'' ''b'') ''/r'' NoTrigger)
     = Inr ob \<and> ob_exists ob"
proof -
  let ?s = "pl_steps (table_plan [] []) ! 0" and ?opts = "example_options Enforce []"
  have c: "enforce example_files ?opts ?s [] = ((Converged, [], None), [(''b'', ''2'')])"
    "st_ref ?s = Reference ''Sysctl'' ''b''"
    "map_option p_name (provider_for (op_providers ?opts) ''Sysctl'') = Some ''table''"
    "request_present (request_of (node_at example_table_graph (Reference ''Sysctl'' ''b'')) (Reference ''Sysctl'' ''b'') ''/r'' NoTrigger)"
    by code_simp+
  have p: "provider_for (op_providers ?opts) ''Sysctl'' = Some (table_provider [])"
    by (simp add: example_options_def provider_for_def new_set_def table_provider_def)
  from converged_is_verified [OF c(1)] show ?thesis
    using c(2,4) p by (auto simp: example_options_def node_at_def)
qed

theorem outcome_exact_witness: "pr_outcome (fst (table_pass Enforce [''b''])) = OutcomeFailed"
proof -
  have "rr_state (pr_resources (fst (table_pass Enforce [''b''])) ! 0) = Failed"
    "length (pr_resources (fst (table_pass Enforce [''b'']))) = 2" by code_simp+
  then have "\<exists>r \<in> set (pr_resources (fst (table_pass Enforce [''b'']))). rr_state r \<in> {Failed, Blocked}"
    by (metis insertI1 nth_mem zero_less_numeral)
  then show ?thesis using outcome_exact [OF table_apply [OF table_pass_complete(1)]] by blast
qed

end
