(* ===== verification/Schedule.thy ===== *)
theory Schedule
  imports "HOL-Library.Word" Config
begin

text \<open>
  Package \<open>internal/schedule\<close>: when the next pass runs. Durations are 64-bit signed numbers of
  nanoseconds, as \<open>time.Duration\<close> is; a time is its nanoseconds since the epoch, an \<open>int\<close>, and
  the difference of two times saturates at the ends of the range as \<open>time.Time.Sub\<close> does.
\<close>

section \<open>Definitions\<close>

type_synonym duration = "64 word"

datatype failure = NoFailure | Upstream | Local

definition failure_string :: "failure \<Rightarrow> string" where
  "failure_string f = (case f of Upstream \<Rightarrow> ''upstream'' | Local \<Rightarrow> ''local'' | NoFailure \<Rightarrow> ''none'')"

definition max_backoff :: int where "max_backoff = 8"

definition max_duration :: duration where "max_duration = word_of_int (2 ^ 63 - 1)"

record schedule =
  sd_interval :: duration
  sd_offset :: duration
  sd_upstream_failures :: int

text \<open>\<open>host_hash\<close> is the first eight bytes of the SHA-256 of a host name.\<close>

definition new_schedule :: "(string \<Rightarrow> 64 word) \<Rightarrow> string \<Rightarrow> duration \<Rightarrow> duration \<Rightarrow> schedule" where
  "new_schedule host_hash host interval splay =
     \<lparr>sd_interval = (if interval \<le>s 0 then word_of_int nano_minute else interval),
      sd_offset = (if 0 <s splay then host_hash host mod splay else 0),
      sd_upstream_failures = 0\<rparr>"

definition backoff :: "schedule \<Rightarrow> int" where
  "backoff s =
     (if sd_upstream_failures s = 0 then 1
      else if 3 \<le> sd_upstream_failures s then max_backoff
      else push_bit (nat (sd_upstream_failures s)) 1)"

definition record_pass :: "failure \<Rightarrow> schedule \<Rightarrow> schedule" where
  "record_pass f s =
     (case f of
        Upstream \<Rightarrow> if backoff s < max_backoff then s\<lparr>sd_upstream_failures := sd_upstream_failures s + 1\<rparr> else s
      | _ \<Rightarrow> s\<lparr>sd_upstream_failures := 0\<rparr>)"

text \<open>Division of 64-bit integers rounds towards zero, and the remainder has the sign of the dividend.\<close>

definition quot64 :: "duration \<Rightarrow> duration \<Rightarrow> duration" where
  "quot64 a b = word_of_int (sgn (sint a) * sgn (sint b) * (\<bar>sint a\<bar> div \<bar>sint b\<bar>))"

definition rem64 :: "duration \<Rightarrow> duration \<Rightarrow> duration" where
  "rem64 a b = word_of_int (sgn (sint a) * (\<bar>sint a\<bar> mod \<bar>sint b\<bar>))"

definition time_sub :: "int \<Rightarrow> int \<Rightarrow> duration" where
  "time_sub t u = word_of_int (max min_int64 (min max_int64 (t - u)))"

definition effective_interval :: "schedule \<Rightarrow> duration" where
  "effective_interval s =
     (let multiplier = word_of_int (backoff s)
      in if quot64 max_duration multiplier <s sd_interval s then max_duration else sd_interval s * multiplier)"

definition next_pass :: "schedule \<Rightarrow> int \<Rightarrow> int" where
  "next_pass s now =
     (let interval = effective_interval s;
          elapsed = time_sub now 0;
          phase = rem64 elapsed interval;
          phase = (if phase <s 0 then phase + interval else phase);
          delay = rem64 (sd_offset s) interval - phase;
          delay = (if delay \<le>s 0 then delay + interval else delay)
      in now + sint delay)"

definition wait_for :: "schedule \<Rightarrow> int \<Rightarrow> duration" where
  "wait_for s now = time_sub (next_pass s now) now"

section \<open>Lemmas\<close>

text \<open>The schedules \<open>New\<close> and \<open>Record\<close> produce.\<close>

definition valid_schedule :: "schedule \<Rightarrow> bool" where
  "valid_schedule s \<longleftrightarrow> 0 < sint (sd_interval s) \<and> 0 \<le> sint (sd_offset s) \<and> sd_upstream_failures s \<in> {0..3}"

definition int64 :: "int \<Rightarrow> bool" where
  "int64 n \<longleftrightarrow> - (2 ^ 63) \<le> n \<and> n < 2 ^ 63"

lemma sint_of_int64 [simp]: "int64 n \<Longrightarrow> sint (word_of_int n :: duration) = n"
  unfolding int64_def by (subst sint_sbintrunc') (simp add: signed_take_bit_int_eq_self)

lemma sint_int64 [simp]: "int64 (sint (w :: duration))"
  using sint_ge [of w] sint_lt [of w] by (simp add: int64_def)

lemma sint_plus64: "int64 (sint a + sint b) \<Longrightarrow> sint (a + b :: duration) = sint a + sint b"
proof -
  assume *: "int64 (sint a + sint b)"
  have "a + b = word_of_int (sint a + sint b)" by simp
  with * show ?thesis by (metis sint_of_int64)
qed

lemma sint_minus64: "int64 (sint a - sint b) \<Longrightarrow> sint (a - b :: duration) = sint a - sint b"
proof -
  assume *: "int64 (sint a - sint b)"
  have "a - b = word_of_int (sint a - sint b)" by simp
  with * show ?thesis by (metis sint_of_int64)
qed

lemma sint_times64: "int64 (sint a * sint b) \<Longrightarrow> sint (a * b :: duration) = sint a * sint b"
proof -
  assume *: "int64 (sint a * sint b)"
  have "a * b = word_of_int (sint a * sint b)" by simp
  with * show ?thesis by (metis sint_of_int64)
qed


lemma rem64_nonneg:
  assumes "0 \<le> sint a" "0 < sint b"
  shows "sint (rem64 a b) = sint a mod sint b"
proof -
  have "sgn (sint a) * (\<bar>sint a\<bar> mod \<bar>sint b\<bar>) = sint a mod sint b"
    using assms by (cases "sint a = 0") (simp_all add: sgn_if)
  moreover have "int64 (sint a mod sint b)"
    using assms pos_mod_bound [of "sint b" "sint a"] pos_mod_sign [of "sint b" "sint a"] sint_int64 [of b]
    unfolding int64_def by linarith
  ultimately show ?thesis by (simp add: rem64_def)
qed

text \<open>The phase within the interval, the remainder corrected for times before the epoch.\<close>

lemma phase_mod:
  fixes e b :: duration
  assumes "0 < sint b"
  defines "r \<equiv> rem64 e b"
  shows "sint (if r <s 0 then r + b else r) = sint e mod sint b"
proof (cases "0 \<le> sint e")
  case True
  then have "sint r = sint e mod sint b" using rem64_nonneg assms by simp
  moreover have "\<not> sint e mod sint b < 0" using assms(1) by (simp add: not_less)
  ultimately show ?thesis using assms(1) by (simp add: word_sless_alt)
next
  case False
  let ?m = "\<bar>sint e\<bar> mod sint b"
  have m: "0 \<le> ?m" "?m < sint b" using assms(1) by simp_all
  have "int64 (- ?m)" using m sint_lt [of b] by (simp add: int64_def)
  moreover have "sgn (sint e) * (\<bar>sint e\<bar> mod \<bar>sint b\<bar>) = - ?m" using False assms(1) by simp
  ultimately have r: "sint r = - ?m" by (simp only: r_def rem64_def sint_of_int64)
  have e: "sint e mod sint b = (- ?m) mod sint b" using False by (simp add: mod_minus_eq)
  show ?thesis
  proof (cases "?m = 0")
    case True
    then show ?thesis using r e by (simp add: word_sless_alt)
  next
    case nz: False
    then have "r <s 0" using r m by (simp add: word_sless_alt)
    moreover have "sint (r + b) = sint b - ?m"
      using sint_plus64 [of r b] r m nz sint_lt [of b] by (simp add: int64_def)
    moreover have "(- ?m) mod sint b = sint b - ?m" using m nz by (simp add: zmod_zminus1_eq_if)
    ultimately show ?thesis using e by simp
  qed
qed

lemma backoff_values:
  "sd_upstream_failures s \<in> {0..3} \<Longrightarrow> backoff s = 2 ^ nat (sd_upstream_failures s) \<and> backoff s \<in> {1, 2, 4, 8}
     \<and> (backoff s < max_backoff \<longleftrightarrow> sd_upstream_failures s < 3)"
proof -
  assume "sd_upstream_failures s \<in> {0..3}"
  then consider "sd_upstream_failures s = 0" | "sd_upstream_failures s = 1"
    | "sd_upstream_failures s = 2" | "sd_upstream_failures s = 3" by fastforce
  then show ?thesis by cases (simp_all add: backoff_def max_backoff_def push_bit_eq_mult)
qed

lemma effective_interval_value:
  assumes "valid_schedule s"
  shows "sint (effective_interval s) = min max_int64 (sint (sd_interval s) * backoff s)"
proof -
  let ?i = "sint (sd_interval s)" and ?b = "backoff s"
  have b: "1 \<le> ?b" "?b \<le> 8" and i: "0 < ?i" "?i < 2 ^ 63"
    using assms backoff_values [of s] sint_lt [of "sd_interval s"] by (auto simp: valid_schedule_def)
  have bs: "?b \<in> {1, 2, 4, 8}" using assms backoff_values [of s] unfolding valid_schedule_def by blast
  have mx: "sint max_duration = max_int64" by (simp add: max_duration_def max_int64_def int64_def)
  have m: "sint (word_of_int ?b :: duration) = ?b" using b by (simp add: int64_def)
  have "int64 (max_int64 div ?b)"
    using bs by (auto simp: int64_def max_int64_def)
  then have q: "sint (quot64 max_duration (word_of_int ?b)) = max_int64 div ?b"
    using b by (simp add: quot64_def mx m) (simp add: max_int64_def)
  have le: "?i \<le> max_int64 div ?b \<longleftrightarrow> ?i * ?b \<le> max_int64" using bs by (auto simp: max_int64_def; presburger)
  have "0 \<le> ?i * ?b" using b i by simp
  then have "int64 (?i * ?b)" if "?i * ?b \<le> max_int64" using that unfolding int64_def max_int64_def by linarith
  then have "sint (sd_interval s * word_of_int ?b) = ?i * ?b" if "?i * ?b \<le> max_int64"
    using sint_times64 [of "sd_interval s" "word_of_int ?b"] that unfolding m by blast
  then show ?thesis
    using le by (auto simp: effective_interval_def word_sless_alt q mx m int64_def max_int64_def)
qed


lemma next_pass_value:
  assumes "valid_schedule s"
  defines "n \<equiv> sint (effective_interval s)" and "o' \<equiv> sint (sd_offset s)"
  shows "\<exists>d. next_pass s now = now + d \<and> 0 < d \<and> d \<le> n \<and> d mod n = (o' - max min_int64 (min max_int64 now)) mod n"
proof -
  let ?e = "max min_int64 (min max_int64 now)" and ?b = "effective_interval s"
  have n: "0 < n" "n \<le> max_int64"
    using effective_interval_value [OF assms(1)] assms(1) backoff_values [of s]
    by (auto simp: n_def valid_schedule_def max_int64_def)
  have o: "0 \<le> o'" using assms(1) by (simp add: o'_def valid_schedule_def)
  have e: "sint (time_sub now 0) = ?e" by (simp add: time_sub_def int64_def max_int64_def min_int64_def)
  define phase where "phase = (let p = rem64 (time_sub now 0) ?b in if p <s 0 then p + ?b else p)"
  have phase: "sint phase = ?e mod n"
    using phase_mod [of ?b "time_sub now 0"] n(1) by (simp add: phase_def n_def e Let_def)
  define r where "r = o' mod n - ?e mod n"
  have bounds: "0 \<le> o' mod n" "o' mod n < n" "0 \<le> ?e mod n" "?e mod n < n" using n(1) by simp_all
  have d1: "sint (rem64 (sd_offset s) ?b - phase) = r"
  proof -
    have p: "sint (rem64 (sd_offset s) ?b) = o' mod n"
      using rem64_nonneg [of "sd_offset s" ?b] n o unfolding n_def o'_def by blast
    have "int64 (o' mod n - ?e mod n)" using bounds n(2) unfolding int64_def max_int64_def by linarith
    then show ?thesis using sint_minus64 [of "rem64 (sd_offset s) ?b" phase] unfolding p phase r_def by blast
  qed
  have d2: "sint (rem64 (sd_offset s) ?b - phase + ?b) = r + n" if "r \<le> 0"
  proof -
    have "int64 (r + n)" using bounds n(2) that unfolding r_def int64_def max_int64_def by linarith
    then show ?thesis using sint_plus64 [of "rem64 (sd_offset s) ?b - phase" ?b] d1 unfolding n_def by simp
  qed
  define d where "d = (if r \<le> 0 then r + n else r)"
  have "next_pass s now = now + d"
    using d1 d2 by (auto simp: next_pass_def Let_def phase_def [unfolded Let_def, symmetric] word_sle_eq d_def)
  moreover have "0 < d \<and> d \<le> n" unfolding d_def r_def using bounds by (simp split: if_split; linarith)
  moreover have "d mod n = (o' - ?e) mod n" by (simp add: d_def r_def mod_diff_eq)
  ultimately show ?thesis by blast
qed

text \<open>Recording passes keeps a schedule valid and counts the failures since the last success, up to three.\<close>

definition trailing_failures :: "failure list \<Rightarrow> nat" where
  "trailing_failures fs = length (takeWhile (\<lambda>f. f = Upstream) (rev fs))"

lemma record_pass_simps:
  "record_pass NoFailure s = s\<lparr>sd_upstream_failures := 0\<rparr>" "record_pass Local s = s\<lparr>sd_upstream_failures := 0\<rparr>"
  "record_pass Upstream s = (if backoff s < max_backoff then s\<lparr>sd_upstream_failures := sd_upstream_failures s + 1\<rparr> else s)"
  by (simp_all add: record_pass_def)

lemma record_passes:
  fixes fs
  assumes "sd_upstream_failures s = 0" "valid_schedule s"
  defines "s' \<equiv> foldl (\<lambda>s f. record_pass f s) s fs"
  shows "valid_schedule s' \<and> sd_interval s' = sd_interval s \<and> sd_offset s' = sd_offset s
    \<and> sd_upstream_failures s' = min 3 (int (trailing_failures fs))"
  unfolding s'_def
proof (induction fs rule: rev_induct)
  case Nil
  then show ?case using assms by (simp add: trailing_failures_def)
next
  case (snoc f fs)
  let ?s = "foldl (\<lambda>s f. record_pass f s) s fs"
  show ?case
  proof (cases f)
    case Upstream
    have "sd_upstream_failures ?s \<in> {0..3}" using snoc by (simp add: valid_schedule_def)
    then have "backoff ?s < max_backoff \<longleftrightarrow> sd_upstream_failures ?s < 3"
      using backoff_values [of ?s] by blast
    with snoc Upstream show ?thesis
      by (auto simp: record_pass_simps valid_schedule_def trailing_failures_def)
  qed (use snoc assms(2) in \<open>simp_all add: record_pass_simps valid_schedule_def trailing_failures_def\<close>)
qed

lemma new_schedule_valid: "valid_schedule (new_schedule h host interval splay) \<and> sd_upstream_failures (new_schedule h host interval splay) = 0"
proof -
  have "0 \<le> sint (x mod splay)" if "0 < sint splay" for x :: duration
  proof -
    have "uint splay = sint splay" using that sint_int64 [of splay]
      by (simp add: uint_sint int64_def take_bit_int_eq_self)
    then have "uint splay < 2 ^ 63" "0 < uint splay" using that sint_int64 [of splay] by (simp_all add: int64_def)
    moreover have "uint (x mod splay) = uint x mod uint splay" by (rule uint_mod)
    ultimately have "int64 (uint (x mod splay))"
      using pos_mod_bound [of "uint splay" "uint x"] pos_mod_sign [of "uint splay" "uint x"] unfolding int64_def by linarith
    then have "sint (x mod splay) = uint (x mod splay)" using sint_of_int64 [of "uint (x mod splay)"] by simp
    then show ?thesis by simp
  qed
  then show ?thesis
    by (auto simp: new_schedule_def valid_schedule_def word_sle_eq word_sless_alt nano_minute_def int64_def not_le)
qed

section \<open>Properties\<close>

text \<open>
  C18: the next pass comes on time. Whatever passes were recorded, the next one is after now
  and at most one interval away, the interval stretched by two for every upstream failure since
  the last pass without one, eight times at most and never beyond the range; and as long as
  now is in that range, passes fall on the offset of the host within the interval.
\<close>

theorem next_pass_on_time:
  fixes h host interval splay fs now
  defines "s \<equiv> foldl (\<lambda>s f. record_pass f s) (new_schedule h host interval splay) fs"
  defines "n \<equiv> min max_int64 (sint (sd_interval s) * min 8 (2 ^ trailing_failures fs))"
  shows "now < next_pass s now \<and> next_pass s now \<le> now + n
    \<and> (min_int64 \<le> now \<and> now \<le> max_int64 \<longrightarrow> (next_pass s now - sint (sd_offset s)) mod n = 0)"
proof -
  have s: "valid_schedule s" "sd_upstream_failures s = min 3 (int (trailing_failures fs))"
    using record_passes [of "new_schedule h host interval splay" fs] new_schedule_valid unfolding s_def by blast+
  have "min 8 (2 ^ k) = (2 :: int) ^ min 3 k" for k :: nat
  proof (cases "k \<le> 3")
    case True
    then have "(2 :: int) ^ k \<le> 2 ^ 3" by (intro power_increasing) simp_all
    then show ?thesis using True by simp
  next
    case False
    then have "(2 :: int) ^ 3 \<le> 2 ^ k" by (intro power_increasing) simp_all
    then show ?thesis using False by (simp add: min_def)
  qed
  then have "backoff s = min 8 (2 ^ trailing_failures fs)"
    using backoff_values [of s] s by (simp add: valid_schedule_def min_def)
  then have n: "sint (effective_interval s) = n" using effective_interval_value [OF s(1)] by (simp add: n_def)
  from next_pass_value [OF s(1), of now] obtain d where d: "next_pass s now = now + d" "0 < d" "d \<le> n"
    "d mod n = (sint (sd_offset s) - max min_int64 (min max_int64 now)) mod n" unfolding n by blast
  have "(now + d - sint (sd_offset s)) mod n = 0" if "min_int64 \<le> now \<and> now \<le> max_int64"
  proof -
    have "d mod n = (sint (sd_offset s) - now) mod n" using d(4) that by simp
    then have "n dvd d - (sint (sd_offset s) - now)" by (simp add: mod_eq_dvd_iff)
    then show ?thesis by (simp add: algebra_simps dvd_imp_mod_0)
  qed
  with d show ?thesis by simp
qed

theorem next_pass_on_time_witness:
  "(next_pass (foldl (\<lambda>s f. record_pass f s) (new_schedule (\<lambda>_. 0) ''h'' 60 0) [Upstream]) 1 - 0) mod 120 = 0"
  using next_pass_on_time [where fs = "[Upstream]" and h = "\<lambda>_. 0" and host = "''h''" and interval = 60 and splay = 0 and now = 1]
  by (simp add: trailing_failures_def record_pass_def new_schedule_def word_sle_eq word_sless_alt max_int64_def min_int64_def
      backoff_def max_backoff_def)

end
