(* ===== verification/Effects.thy ===== *)
theory Effects
  imports Config
begin

text \<open>
  What the packages below the agent do to their host: computations on an abstract world \<open>'w\<close>
  that may fail, the file operations they use as a record of functions on it, and package
  \<open>internal/statedir\<close>, which guards the directory a pass keeps its records in.
\<close>

section \<open>Computations\<close>

text \<open>
  An error is its text; a refused revision also carries the reason and the revision, and keeps
  them when its text is wrapped.
\<close>

record go_error =
  ge_text :: string
  ge_refused :: "(string \<times> string) option"

definition plain_error :: "string \<Rightarrow> go_error" where
  "plain_error msg = \<lparr>ge_text = msg, ge_refused = None\<rparr>"

definition wrap_error :: "string \<Rightarrow> go_error \<Rightarrow> go_error" where
  "wrap_error prefix e = e\<lparr>ge_text := prefix @ ge_text e\<rparr>"

type_synonym ('w, 'a) io = "'w \<Rightarrow> (go_error + 'a) \<times> 'w"

definition pure :: "'a \<Rightarrow> ('w, 'a) io" where
  "pure x w = (Inr x, w)"

definition fail :: "string \<Rightarrow> ('w, 'a) io" where
  "fail msg w = (Inl (plain_error msg), w)"

definition raise :: "go_error \<Rightarrow> ('w, 'a) io" where
  "raise e w = (Inl e, w)"

text \<open>\<open>after m f\<close> is the code after a call whose error is returned as it is.\<close>

definition after :: "('w, 'a) io \<Rightarrow> ('a \<Rightarrow> ('w, 'b) io) \<Rightarrow> ('w, 'b) io" where
  "after m f w = (case m w of (Inl e, w') \<Rightarrow> (Inl e, w') | (Inr x, w') \<Rightarrow> f x w')"

text \<open>\<open>handle m h f\<close> is the code after a call whose error is looked at.\<close>

definition handle :: "('w, 'a) io \<Rightarrow> (go_error \<Rightarrow> ('w, 'b) io) \<Rightarrow> ('a \<Rightarrow> ('w, 'b) io) \<Rightarrow> ('w, 'b) io" where
  "handle m h f w = (case m w of (Inl e, w') \<Rightarrow> h e w' | (Inr x, w') \<Rightarrow> f x w')"

section \<open>The operating system\<close>

text \<open>The mode of a file is its permission bits; the owner is known only where the system has one.\<close>

record file_stat =
  fst_is_dir :: bool
  fst_perm :: nat
  fst_owner :: "int option"

datatype 'a fs_result = NotExist string | FsError string | FsOk 'a

datatype walk_entry = WalkGone | WalkFailed string | WalkDir | WalkFile int

record 'w os =
  os_stat :: "string \<Rightarrow> 'w \<Rightarrow> file_stat fs_result"
  os_read_file :: "string \<Rightarrow> 'w \<Rightarrow> string fs_result"
  os_write_file :: "string \<Rightarrow> string \<Rightarrow> nat \<Rightarrow> 'w \<Rightarrow> string option \<times> 'w"
  os_rename :: "string \<Rightarrow> string \<Rightarrow> 'w \<Rightarrow> string option \<times> 'w"
  os_remove :: "string \<Rightarrow> 'w \<Rightarrow> unit fs_result \<times> 'w"
  os_remove_all :: "string \<Rightarrow> 'w \<Rightarrow> string option \<times> 'w"
  os_mkdir_all :: "string \<Rightarrow> nat \<Rightarrow> 'w \<Rightarrow> string option \<times> 'w"
  os_create_temp :: "string \<Rightarrow> string \<Rightarrow> 'w \<Rightarrow> (string + string) \<times> 'w"
  os_walk :: "string \<Rightarrow> 'w \<Rightarrow> walk_entry list"
  os_euid :: int

definition effect :: "('w \<Rightarrow> string option \<times> 'w) \<Rightarrow> ('w, unit) io" where
  "effect f w = (case f w of (Some err, w') \<Rightarrow> (Inl (plain_error err), w') | (None, w') \<Rightarrow> (Inr (), w'))"

section \<open>The state directory\<close>

definition state_mode :: nat where "state_mode = 448"

definition state_file_mode :: nat where "state_file_mode = 384"

text \<open>\<open>%04o\<close>, and \<open>%d\<close> as \<open>format_int\<close>.\<close>

fun octal_digits :: "nat \<Rightarrow> nat \<Rightarrow> string" where
  "octal_digits 0 n = (if n = 0 then [] else octal_digits 0 (n div 8) @ [char_of (48 + n mod 8)])"
| "octal_digits (Suc k) n = octal_digits k (n div 8) @ [char_of (48 + n mod 8)]"

definition check_dir_info :: "'w os \<Rightarrow> string \<Rightarrow> file_stat \<Rightarrow> string option" where
  "check_dir_info os dir info =
     (if \<not> fst_is_dir info then Some (''state path '' @ dir @ '' is not a directory'')
      else if fst_perm info \<noteq> state_mode
        then Some (''state directory '' @ dir @ '' has mode '' @ octal_digits 4 (fst_perm info)
               @ '', want '' @ octal_digits 4 state_mode)
      else if os_euid os \<noteq> 0 then None
      else case fst_owner info of
        None \<Rightarrow> None
      | Some uid \<Rightarrow>
          if uid \<noteq> 0 then Some (''state directory '' @ dir @ '' is owned by uid '' @ format_int uid @ '', want root'')
          else None)"

definition ensure_dir :: "'w os \<Rightarrow> string \<Rightarrow> ('w, unit) io" where
  "ensure_dir os dir w =
     (case os_stat os dir w of
        NotExist _ \<Rightarrow> effect (os_mkdir_all os dir state_mode) w
      | FsError err \<Rightarrow> (Inl (plain_error err), w)
      | FsOk info \<Rightarrow>
          (case check_dir_info os dir info of
             Some err \<Rightarrow> (Inl (plain_error err), w)
           | None \<Rightarrow> (Inr (), w)))"

definition check_dir :: "'w os \<Rightarrow> string \<Rightarrow> 'w \<Rightarrow> string option" where
  "check_dir os dir w =
     (case os_stat os dir w of
        NotExist err \<Rightarrow> Some err
      | FsError err \<Rightarrow> Some err
      | FsOk info \<Rightarrow> check_dir_info os dir info)"

section \<open>Lemmas\<close>

lemma pure_simps [simp]: "pure x w = (Inr x, w)" "fail msg w = (Inl (plain_error msg), w)" "raise e w = (Inl e, w)"
  by (simp_all add: pure_def fail_def raise_def)

lemma after_Inr:
  "after m f w = (Inr y, w'') \<longleftrightarrow> (\<exists>x w'. m w = (Inr x, w') \<and> f x w' = (Inr y, w''))"
  by (auto simp: after_def split: prod.splits sum.splits)

text \<open>A state directory that passes is a directory only its owner can use, and root's for root.\<close>

lemma check_dir_info_None:
  "check_dir_info os dir info = None \<longleftrightarrow>
     fst_is_dir info \<and> fst_perm info = state_mode \<and> (os_euid os = 0 \<longrightarrow> fst_owner info \<in> {None, Some 0})"
  by (auto simp: check_dir_info_def split: option.splits)

section \<open>A host of files\<close>

text \<open>
  An operating system for examples: a host is a list of paths with what they hold. A directory is
  always there, with the mode and the owner of a state directory.
\<close>

type_synonym files = "(string \<times> string) list"

definition files_os :: "files os" where
  "files_os = \<lparr>os_stat = \<lambda>p w. FsOk \<lparr>fst_is_dir = True, fst_perm = state_mode, fst_owner = None\<rparr>,
     os_read_file = \<lambda>p w. (case map_of w p of None \<Rightarrow> NotExist [] | Some c \<Rightarrow> FsOk c),
     os_write_file = \<lambda>p t n w. (None, AList.update p t w),
     os_rename = \<lambda>p q w. (case map_of w p of None \<Rightarrow> (Some ''no such file'', w) | Some c \<Rightarrow> (None, AList.update q c (AList.delete p w))),
     os_remove = \<lambda>p w. (FsOk (), AList.delete p w), os_remove_all = \<lambda>p w. (None, w),
     os_mkdir_all = \<lambda>p n w. (None, w),
     os_create_temp = \<lambda>d pat w. (let temp = d @ CHR ''/'' # (pat @ ''1'')
       in if CHR ''/'' \<in> set pat then (Inl ''pattern contains path separator'', w)
          else if map_of w temp \<noteq> None then (Inl ''file exists'', w) else (Inr temp, AList.update temp [] w)),
     os_walk = \<lambda>p w. [], os_euid = 0\<rparr>"

end
