(* ===== verification/Run.thy ===== *)
theory Run
  imports Effects
begin

text \<open>
  Package \<open>internal/run\<close>: programs run as an argument vector, looked up on a fixed path, with a
  fixed environment. What a program does is a parameter.
\<close>

section \<open>Definitions\<close>

definition run_path :: string where
  "run_path = ''/usr/sbin:/usr/bin:/sbin:/bin''"

record run_result =
  rs_argv :: "string list"
  rs_code :: int
  rs_stdout :: string
  rs_stderr :: string

definition run_ok :: "run_result \<Rightarrow> bool" where
  "run_ok r \<longleftrightarrow> rs_code r = 0"

definition first_line :: "string \<Rightarrow> string" where
  "first_line s =
     (let s = trim_space s
      in if s = [] then []
         else case cut_at (CHR 0x0A) s of Some (line, _) \<Rightarrow> trim_space line | None \<Rightarrow> s)"

definition run_err :: "run_result \<Rightarrow> string option" where
  "run_err r =
     (if run_ok r then None
      else
        let detail = first_line (rs_stderr r);
            detail = (if detail = [] then first_line (rs_stdout r) else detail);
            exited = hd (rs_argv r) @ '' exited '' @ format_int (rs_code r)
        in Some (if detail = [] then exited else exited @ '': '' @ detail))"

text \<open>A program ends normally, with an exit code, or could not be run.\<close>

datatype run_end = Finished | ExitedWith int | NotRun string

text \<open>The environment of the running agent: what is executable, what running does, and the context.\<close>

record 'w machine =
  mc_executable :: "string \<Rightarrow> 'w \<Rightarrow> bool"
  mc_start :: "string \<Rightarrow> string list \<Rightarrow> string list \<Rightarrow> 'w \<Rightarrow> (run_end \<times> string \<times> string) \<times> 'w"
  mc_context :: "'w \<Rightarrow> string option"

definition lookup_program :: "(string \<Rightarrow> bool) \<Rightarrow> string \<Rightarrow> string + string" where
  "lookup_program executable name =
     (if name = [] then Inl ''run: no program given''
      else if has_prefix name ''/'' then
        (if executable name then Inr name else Inl (''run: '' @ name @ '' is not an executable file''))
      else if str_contains name ''/'' then
        Inl (''run: '' @ quote_key name @ '' must be a bare name or an absolute path'')
      else case find executable (map (\<lambda>dir. dir @ ''/'' @ name) (split_on (CHR '':'') run_path)) of
        Some candidate \<Rightarrow> Inr candidate
      | None \<Rightarrow> Inl (''run: '' @ name @ '' is not on '' @ run_path))"

definition available :: "(string \<Rightarrow> bool) \<Rightarrow> string \<Rightarrow> bool" where
  "available executable name \<longleftrightarrow> (case lookup_program executable name of Inl _ \<Rightarrow> False | Inr _ \<Rightarrow> True)"

definition environ :: "(string \<times> string) list \<Rightarrow> string list" where
  "environ env =
     (let base = foldl (\<lambda>m (k, v). AList.update k v m)
            [(''PATH'', run_path), (''LC_ALL'', ''C''), (''LANG'', ''C'')] env
      in map (\<lambda>k. k @ ''='' @ the (map_of base k)) (sorted_keys base))"

definition with_env :: "(string \<times> string) list \<Rightarrow> (string \<times> string) list \<Rightarrow> (string \<times> string) list" where
  "with_env env extra = foldl (\<lambda>m (k, v). AList.update k v m) [] (env @ extra)"

definition exec_run :: "'w machine \<Rightarrow> (string \<times> string) list \<Rightarrow> string list \<Rightarrow> ('w, run_result) io" where
  "exec_run m env argv w =
     (case argv of
        [] \<Rightarrow> (Inl (plain_error ''run: no program given''), w)
      | name # args \<Rightarrow>
          if str_contains name ''/'' \<and> \<not> has_prefix name ''/''
          then (Inl (plain_error (''run: '' @ quote_key name @ '' must be a bare name or an absolute path'')), w)
          else case lookup_program (\<lambda>p. mc_executable m p w) name of
            Inl err \<Rightarrow> (Inl (plain_error err), w)
          | Inr program \<Rightarrow>
              (case mc_start m program args (environ env) w of
                 ((ending, out, err_out), w') \<Rightarrow>
                   let result = \<lparr>rs_argv = argv, rs_code = 0, rs_stdout = out, rs_stderr = err_out\<rparr>
                   in case mc_context m w' of
                        Some err \<Rightarrow> (Inl (plain_error (''running '' @ join_with '' '' argv @ '': '' @ err)), w')
                      | None \<Rightarrow>
                          (case ending of
                             Finished \<Rightarrow> (Inr result, w')
                           | ExitedWith code \<Rightarrow> (Inr (result\<lparr>rs_code := code\<rparr>), w')
                           | NotRun err \<Rightarrow>
                               (Inl (plain_error (''running '' @ join_with '' '' argv @ '': '' @ err)), w'))))"

datatype word_error = EmptyWord string | OptionWord string string | NotAWord string string

definition word_rune :: "string \<Rightarrow> nat \<Rightarrow> bool" where
  "word_rune extra r \<longleftrightarrow> 97 \<le> r \<and> r \<le> 122 \<or> 65 \<le> r \<and> r \<le> 90 \<or> 48 \<le> r \<and> r \<le> 57 \<or> r \<in> of_char ` set extra"

definition check_word :: "string \<Rightarrow> string \<Rightarrow> string \<Rightarrow> word_error option" where
  "check_word kind value extra =
     (if value = [] then Some (EmptyWord kind)
      else if has_prefix value ''-'' then Some (OptionWord kind value)
      else if list_all (word_rune extra) (map (rune_value \<circ> fst) (runes value)) then None
      else Some (NotAWord value kind))"

end
