(* ===== verification/Git.thy ===== *)
theory Git
  imports "HOL-Library.Word" Run
begin

text \<open>
  Package \<open>internal/git\<close>: the argument vectors the client gives git and what it makes of the
  answers. git itself, whatever runs it, is the runner of the client.
\<close>

section \<open>Definitions\<close>

subsection \<open>The client (git.go)\<close>

definition hardening :: "string list" where
  "hardening =
     [''-c'', ''core.hooksPath=/dev/null'', ''-c'', ''core.attributesFile=/dev/null'',
      ''-c'', ''submodule.recurse=false'', ''-c'', ''fetch.recurseSubmodules=no'',
      ''-c'', ''protocol.ext.allow=never'', ''-c'', ''protocol.file.allow=user'',
      ''-c'', ''credential.helper='', ''-c'', ''gc.auto=0'', ''-c'', ''maintenance.auto=false'',
      ''-c'', ''advice.detachedHead=false'']"

definition git_environment :: "(string \<times> string) list" where
  "git_environment =
     [(''GIT_CONFIG_NOSYSTEM'', ''1''), (''GIT_CONFIG_GLOBAL'', ''/dev/null''),
      (''GIT_CONFIG_SYSTEM'', ''/dev/null''), (''GIT_TERMINAL_PROMPT'', ''0''),
      (''GIT_ASKPASS'', []), (''HOME'', ''/nonexistent'')]"

record limits =
  li_fetch_timeout :: int
  li_max_size :: int

text \<open>
  A runner takes the bound of the context in nanoseconds, if it has one, and an argument
  vector. The runner of \<open>New\<close> is the executor with an environment, which can be extended;
  another one has no environment to extend.
\<close>

datatype 'w runner =
    ExecRunner "(string \<times> string) list" "(string \<times> string) list \<Rightarrow> int option \<Rightarrow> string list \<Rightarrow> ('w, run_result) io"
  | OtherRunner "int option \<Rightarrow> string list \<Rightarrow> ('w, run_result) io"

fun call_runner :: "'w runner \<Rightarrow> int option \<Rightarrow> string list \<Rightarrow> ('w, run_result) io" where
  "call_runner (ExecRunner env f) = f env"
| "call_runner (OtherRunner f) = f"

fun extend_runner :: "'w runner \<Rightarrow> (string \<times> string) list \<Rightarrow> 'w runner" where
  "extend_runner (ExecRunner env f) extra = ExecRunner (with_env env extra) f"
| "extend_runner (OtherRunner f) extra = OtherRunner f"

record 'w client =
  gc_runner :: "'w runner"
  gc_dir :: string
  gc_limits :: limits

definition new_client ::
    "((string \<times> string) list \<Rightarrow> int option \<Rightarrow> string list \<Rightarrow> ('w, run_result) io) \<Rightarrow> string \<Rightarrow> limits \<Rightarrow> 'w client" where
  "new_client f dir l = \<lparr>gc_runner = ExecRunner git_environment f, gc_dir = dir, gc_limits = l\<rparr>"

definition with_credential :: "'w client \<Rightarrow> string \<Rightarrow> 'w client" where
  "with_credential c path =
     (if path = [] then c
      else c\<lparr>gc_runner := extend_runner (gc_runner c)
        [(''GIT_SSH_COMMAND'', ''ssh -i '' @ path @ '' -o IdentitiesOnly=yes -o BatchMode=yes''
            @ '' -o StrictHostKeyChecking=accept-new'')]\<rparr>)"

definition clone_exists :: "'w os \<Rightarrow> 'w client \<Rightarrow> 'w \<Rightarrow> bool" where
  "clone_exists os c w =
     (case os_stat os (join_path [gc_dir c, ''.git'']) w of FsOk info \<Rightarrow> fst_is_dir info | _ \<Rightarrow> False)"

definition git :: "'w client \<Rightarrow> int option \<Rightarrow> string list \<Rightarrow> ('w, run_result) io" where
  "git c bound args = call_runner (gc_runner c) bound ([''git''] @ hardening @ [''-C'', gc_dir c] @ args)"

definition git_outside :: "'w client \<Rightarrow> int option \<Rightarrow> string list \<Rightarrow> ('w, run_result) io" where
  "git_outside c bound args = call_runner (gc_runner c) bound ([''git''] @ hardening @ args)"

definition git_env :: "'w client \<Rightarrow> (string \<times> string) list \<Rightarrow> string list \<Rightarrow> ('w, run_result) io" where
  "git_env c extra args =
     call_runner (extend_runner (gc_runner c) extra) None ([''git''] @ hardening @ [''-C'', gc_dir c] @ args)"

definition result_error :: "run_result \<Rightarrow> string" where
  "result_error r = (case run_err r of Some e \<Rightarrow> e | None \<Rightarrow> [])"

definition text_of :: "('w, run_result) io \<Rightarrow> ('w, string) io" where
  "text_of m = after m (\<lambda>r. if run_ok r then pure (trim_space (rs_stdout r)) else fail (result_error r))"

definition fetch_bound :: "'w client \<Rightarrow> int option" where
  "fetch_bound c = (if li_fetch_timeout (gc_limits c) \<le> 0 then None else Some (li_fetch_timeout (gc_limits c)))"

definition ensure_clone :: "'w os \<Rightarrow> 'w client \<Rightarrow> string \<Rightarrow> string \<Rightarrow> ('w, unit) io" where
  "ensure_clone os c url branch w =
     (if clone_exists os c w then (Inr (), w)
      else
        after (effect (os_mkdir_all os (path_dir (gc_dir c)) 448)) (\<lambda>_.
          let args = [''clone'', ''--tags'', ''--no-recurse-submodules'', ''--no-checkout'']
                @ (if branch \<noteq> [] then [''--branch'', branch] else []) @ [''--'', url, gc_dir c];
              msg = ''cloning '' @ url @ '': ''
          in handle (git_outside c (fetch_bound c) args) (\<lambda>e. raise (wrap_error msg e))
               (\<lambda>r. if run_ok r then pure ()
                    else (\<lambda>w. fail (msg @ result_error r) (snd (os_remove_all os (gc_dir c) w))))) w)"

definition dir_size_step :: "(string + 64 word) \<Rightarrow> walk_entry \<Rightarrow> string + 64 word" where
  "dir_size_step acc e =
     (case acc of
        Inl err \<Rightarrow> Inl err
      | Inr bytes_so_far \<Rightarrow>
          (case e of
             WalkGone \<Rightarrow> Inr bytes_so_far
           | WalkFailed err \<Rightarrow> Inl err
           | WalkDir \<Rightarrow> Inr bytes_so_far
           | WalkFile n \<Rightarrow> Inr (bytes_so_far + word_of_int n)))"

definition dir_size :: "'w os \<Rightarrow> string \<Rightarrow> 'w \<Rightarrow> string + 64 word" where
  "dir_size os dir w = foldl dir_size_step (Inr 0) (os_walk os dir w)"

definition check_size :: "'w os \<Rightarrow> 'w client \<Rightarrow> ('w, unit) io" where
  "check_size os c w =
     (if li_max_size (gc_limits c) \<le> 0 then (Inr (), w)
      else case dir_size os (join_path [gc_dir c, ''.git'']) w of
        Inl err \<Rightarrow> (Inl (plain_error err), w)
      | Inr bytes_so_far \<Rightarrow>
          if sint bytes_so_far > li_max_size (gc_limits c)
          then fail (''the repository is '' @ format_int (sint bytes_so_far)
                 @ '' bytes, which is larger than source.maxRepositorySize of ''
                 @ format_int (li_max_size (gc_limits c))) w
          else (Inr (), w))"

definition fetch :: "'w os \<Rightarrow> 'w client \<Rightarrow> ('w, unit) io" where
  "fetch os c =
     handle (git c (fetch_bound c) [''fetch'', ''--tags'', ''--prune'', ''--prune-tags'', ''--no-recurse-submodules'', ''origin''])
       (\<lambda>e. raise (wrap_error ''fetching: '' e))
       (\<lambda>r. if run_ok r then check_size os c else fail (''fetching: '' @ result_error r))"

definition is_shallow :: "'w client \<Rightarrow> ('w, bool) io" where
  "is_shallow c = after (text_of (git c None [''rev-parse'', ''--is-shallow-repository''])) (\<lambda>out. pure (out = ''true''))"

definition require_complete_history :: "'w client \<Rightarrow> ('w, unit) io" where
  "require_complete_history c =
     after (is_shallow c) (\<lambda>shallow.
       if shallow then fail (''the clone at '' @ gc_dir c @ '' is shallow, so revision ordering cannot be computed'')
       else pure ())"

definition bad_in_ref :: "string list" where
  "bad_in_ref =
     ['' '', [CHR 0x09], [CHR 0x0A], ''..'', ''^'', ''~'', '':'', ''?'', ''*'', ''['', [CHR 0x5C], [CHR 0x40, CHR 0x7B]]"

definition valid_ref :: "string \<Rightarrow> string option" where
  "valid_ref r =
     (if r = [] then Some ''git: an empty ref''
      else if has_prefix r ''-'' then Some (''git: ref '' @ quote_key r @ '' begins with a dash'')
      else case find (str_contains r) bad_in_ref of
        Some bad \<Rightarrow> Some (''git: ref '' @ quote_key r @ '' contains '' @ quote_key bad)
      | None \<Rightarrow> None)"

definition with_valid_ref :: "string \<Rightarrow> ('w, 'a) io \<Rightarrow> ('w, 'a) io" where
  "with_valid_ref r m = (case valid_ref r of Some err \<Rightarrow> fail err | None \<Rightarrow> m)"

definition resolve_ref :: "'w client \<Rightarrow> string \<Rightarrow> ('w, string) io" where
  "resolve_ref c r =
     with_valid_ref r
       (text_of (git c None [''rev-parse'', ''--verify'', ''--end-of-options'', r @ ''^{commit}'']))"

definition has_commit :: "'w client \<Rightarrow> string \<Rightarrow> ('w, bool) io" where
  "has_commit c commit =
     with_valid_ref commit
       (after (git c None [''cat-file'', ''-e'', commit @ ''^{commit}'']) (\<lambda>r. pure (run_ok r)))"

definition is_ancestor :: "'w client \<Rightarrow> string \<Rightarrow> string \<Rightarrow> ('w, bool) io" where
  "is_ancestor c older newer =
     with_valid_ref older (with_valid_ref newer
       (after (git c None [''merge-base'', ''--is-ancestor'', older, newer]) (\<lambda>r.
          if rs_code r = 0 then pure True
          else if rs_code r = 1 then pure False
          else fail (result_error r))))"

definition checkout :: "'w os \<Rightarrow> 'w client \<Rightarrow> string \<Rightarrow> string \<Rightarrow> ('w, unit) io" where
  "checkout os c commit dir =
     with_valid_ref commit
       (after (effect (os_mkdir_all os dir 448)) (\<lambda>_ w.
          case os_create_temp os (path_dir dir) ''datum-index-'' w of
            (Inl err, w') \<Rightarrow> (Inl (plain_error err), w')
          | (Inr index, w') \<Rightarrow>
              (let env = [(''GIT_INDEX_FILE'', index)];
                   reading = ''reading the tree of '' @ commit @ '': '';
                   checking = ''checking out '' @ commit @ '': '';
                   body =
                     handle (git_env c env [''read-tree'', ''--end-of-options'', commit]) (\<lambda>e. raise (wrap_error reading e))
                       (\<lambda>r. if \<not> run_ok r then fail (reading @ result_error r)
                            else handle (git_env c env [''--work-tree'', dir, ''checkout-index'', ''--all'', ''--force''])
                                   (\<lambda>e. raise (wrap_error checking e))
                                   (\<lambda>r. if run_ok r then pure () else fail (checking @ result_error r)))
               in case body w' of (res, w'') \<Rightarrow> (res, snd (os_remove os index w'')))))"


subsection \<open>Signatures and tags (verify.go)\<close>

record signature =
  sg_key :: string
  sg_signer :: string

definition no_signature :: signature where
  "no_signature = \<lparr>sg_key = [], sg_signer = []\<rparr>"

definition signers_config :: "string \<Rightarrow> string list" where
  "signers_config signers =
     (if signers = [] then [] else [''-c'', ''gpg.ssh.allowedSignersFile='' @ signers])"

text \<open>\<open>strings.TrimRight\<close> with a newline, \<open>strings.SplitN\<close> with a tab and three parts.\<close>

definition trim_newlines :: "string \<Rightarrow> string" where
  "trim_newlines s = rev (dropWhile (\<lambda>c. c = CHR 0x0A) (rev s))"

fun split_n :: "nat \<Rightarrow> char \<Rightarrow> string \<Rightarrow> string list" where
  "split_n 0 sep s = [s]"
| "split_n (Suc n) sep s = (case cut_at sep s of None \<Rightarrow> [s] | Some (a, b) \<Rightarrow> a # split_n n sep b)"

definition commit_status_error :: "string \<Rightarrow> string \<Rightarrow> string option" where
  "commit_status_error status r =
     (if status = ''G'' then None
      else if status = ''U'' then Some (r @ '' is signed by a key that is not in the trusted signers'')
      else if status = ''B'' then Some (r @ '' has a bad signature'')
      else if status = ''X'' then Some (r @ '' is signed by an expired key'')
      else if status = ''Y'' then Some (r @ '' is signed by a key that has expired'')
      else if status = ''R'' then Some (r @ '' is signed by a revoked key'')
      else if status = ''N'' \<or> status = [] then Some (r @ '' is not signed'')
      else Some (r @ '' could not be verified, which is usually a missing or unreadable signers file''))"

definition log_signature :: "string \<Rightarrow> string \<Rightarrow> string + signature" where
  "log_signature r out =
     (let parts = split_n (Suc (Suc 0)) (CHR 0x09) (trim_newlines out);
          signature = \<lparr>sg_key = (case parts of _ # key # _ \<Rightarrow> trim_space key | _ \<Rightarrow> []),
                       sg_signer = (case parts of _ # _ # name # _ \<Rightarrow> trim_space name | _ \<Rightarrow> [])\<rparr>
      in case commit_status_error (trim_space (hd parts)) r of Some err \<Rightarrow> Inl err | None \<Rightarrow> Inr signature)"

definition verify_commit :: "'w client \<Rightarrow> string \<Rightarrow> string \<Rightarrow> ('w, signature) io" where
  "verify_commit c r signers =
     with_valid_ref r
       (after (git c None (signers_config signers
            @ [''log'', ''-1'', ''--format=%G?%x09%GK%x09%GS'', ''--no-show-signature'', ''--end-of-options'', r]))
          (\<lambda>res.
             if \<not> run_ok res then fail (result_error res)
             else case log_signature r (rs_stdout res) of Inl err \<Rightarrow> fail err | Inr signature \<Rightarrow> pure signature))"

text \<open>
  The pattern of a key, a fingerprint or a hexadecimal word of 16 to 40 digits, found at the
  first position where one of the two matches; \<open>before\<close> says whether a word character precedes.
\<close>

definition is_word_char :: "char \<Rightarrow> bool" where
  "is_word_char c \<longleftrightarrow> (let n = of_char c :: nat in 48 \<le> n \<and> n \<le> 57 \<or> 65 \<le> n \<and> n \<le> 90 \<or> 97 \<le> n \<and> n \<le> 122 \<or> n = 95)"

definition is_hex_char :: "char \<Rightarrow> bool" where
  "is_hex_char c \<longleftrightarrow> (let n = of_char c :: nat in 48 \<le> n \<and> n \<le> 57 \<or> 65 \<le> n \<and> n \<le> 70 \<or> 97 \<le> n \<and> n \<le> 102)"

definition is_base64_char :: "char \<Rightarrow> bool" where
  "is_base64_char c \<longleftrightarrow> is_word_char c \<and> c \<noteq> CHR ''_'' \<or> c \<in> set ''+/=''"

definition match_key_here :: "bool \<Rightarrow> string \<Rightarrow> string option" where
  "match_key_here before s =
     (let body = takeWhile is_base64_char (drop 7 s);
          hex = takeWhile is_hex_char s
      in if has_prefix s ''SHA256:'' \<and> body \<noteq> [] then Some (''SHA256:'' @ body)
         else if \<not> before \<and> 16 \<le> length hex \<and> length hex \<le> 40
                \<and> (drop (length hex) s = [] \<or> \<not> is_word_char (hd (drop (length hex) s)))
         then Some hex else None)"

fun match_key :: "bool \<Rightarrow> string \<Rightarrow> string option" where
  "match_key before [] = None"
| "match_key before (c # s) =
     (case match_key_here before (c # s) of
        Some k \<Rightarrow> Some k
      | None \<Rightarrow> match_key (is_word_char c) s)"

definition is_re_space :: "char \<Rightarrow> bool" where
  "is_re_space c \<longleftrightarrow> c \<in> {CHR 0x09, CHR 0x0A, CHR 0x0C, CHR 0x0D, CHR '' ''}"

fun signer_from :: "string \<Rightarrow> string" where
  "signer_from [] = []"
| "signer_from (c # s) =
     (let rest = drop 14 (c # s); name = takeWhile (\<lambda>c. \<not> is_re_space c) rest
      in if has_prefix (c # s) ''signature for '' \<and> name \<noteq> [] \<and> has_prefix (drop (length name) rest) '' with''
         then name else signer_from s)"

definition verify_tag :: "'w client \<Rightarrow> string \<Rightarrow> string \<Rightarrow> ('w, signature) io" where
  "verify_tag c tag signers =
     with_valid_ref tag
       (after (git c None (signers_config signers @ [''verify-tag'', ''--raw'', ''--end-of-options'', tag]))
          (\<lambda>res.
             if \<not> run_ok res
             then fail (''tag '' @ tag @ '' does not carry a good signature from a trusted key'')
             else pure \<lparr>sg_key = (case match_key False (rs_stderr res) of Some k \<Rightarrow> k | None \<Rightarrow> []),
                        sg_signer = signer_from (rs_stderr res)\<rparr>))"

record tag =
  tg_name :: string
  tg_commit :: string

definition tag_of_line :: "string \<Rightarrow> tag option" where
  "tag_of_line line =
     (let parts = split_on (CHR 0x09) line
      in if length parts < 4 \<or> parts ! 0 \<noteq> ''tag'' then None
         else Some \<lparr>tg_name = parts ! 1, tg_commit = parts ! 3\<rparr>)"

definition annotated_tags :: "'w client \<Rightarrow> string \<Rightarrow> ('w, tag list) io" where
  "annotated_tags c pattern =
     (if pattern = [] then pure []
      else if has_prefix pattern ''-'' then fail (''git: tag pattern '' @ quote_key pattern @ '' begins with a dash'')
      else after (text_of (git c None [''for-each-ref'',
              ''--format=%(objecttype)%09%(refname:short)%09%(objectname)%09%(*objectname)'', ''refs/tags/'' @ pattern]))
             (\<lambda>out.
                if out = [] then pure []
                else pure (go_sort (\<lambda>a b. tg_name a < tg_name b)
                       (List.map_filter tag_of_line (split_on (CHR 0x0A) out)))))"

fun descends_from_all :: "'w client \<Rightarrow> tag \<Rightarrow> tag list \<Rightarrow> ('w, bool) io" where
  "descends_from_all c candidate [] = pure True"
| "descends_from_all c candidate (other # others) =
     (if tg_commit other = tg_commit candidate then descends_from_all c candidate others
      else after (is_ancestor c (tg_commit other) (tg_commit candidate)) (\<lambda>ok.
             if ok then descends_from_all c candidate others else pure False))"

definition short_rev :: "string \<Rightarrow> string" where
  "short_rev r = (if 7 < length r then take 7 r else r)"

definition ambiguous :: "tag list \<Rightarrow> string" where
  "ambiguous candidates = ''ambiguous signed tag, neither of these descends from the other:''
     @ concat (map (\<lambda>t. [CHR 0x0A] @ ''  '' @ tg_name t @ ''   '' @ short_rev (tg_commit t)) candidates)"

fun select_among :: "'w client \<Rightarrow> tag list \<Rightarrow> tag list \<Rightarrow> ('w, tag) io" where
  "select_among c candidates [] = fail (ambiguous candidates)"
| "select_among c candidates (t # ts) =
     after (descends_from_all c t candidates) (\<lambda>all. if all then pure t else select_among c candidates ts)"

definition select_tag :: "'w client \<Rightarrow> tag list \<Rightarrow> ('w, tag) io" where
  "select_tag c candidates =
     (case candidates of
        [] \<Rightarrow> fail ''no signed tag is a candidate''
      | [t] \<Rightarrow> pure t
      | _ \<Rightarrow> select_among c candidates candidates)"

subsection \<open>The allowed signers (signers.go)\<close>

text \<open>Decoding a key and its digest are parameters; \<open>scan\<close> is what a line scanner makes of the file.\<close>

record signer =
  sn_key :: string
  sn_principals :: string

fun find_key :: "(string \<Rightarrow> string option) \<Rightarrow> (string \<Rightarrow> string) \<Rightarrow> string \<Rightarrow> string list \<Rightarrow> signer option" where
  "find_key decode sha_base64 principals (f # blob # rest) =
     (if \<not> has_prefix f ''ssh-'' \<and> \<not> has_prefix f ''sk-'' \<and> \<not> has_prefix f ''ecdsa-''
      then find_key decode sha_base64 principals (blob # rest)
      else case decode blob of
        None \<Rightarrow> None
      | Some data \<Rightarrow> Some \<lparr>sn_key = ''SHA256:'' @ sha_base64 data, sn_principals = principals\<rparr>)"
| "find_key decode sha_base64 principals _ = None"

definition parse_signer ::
    "(string \<Rightarrow> string list) \<Rightarrow> (string \<Rightarrow> string option) \<Rightarrow> (string \<Rightarrow> string) \<Rightarrow> string \<Rightarrow> signer option" where
  "parse_signer split_fields decode sha_base64 line =
     (case split_fields line of [] \<Rightarrow> None | p # parts \<Rightarrow> find_key decode sha_base64 p parts)"

definition signers ::
    "(string \<Rightarrow> string list) \<Rightarrow> (string \<Rightarrow> string option) \<Rightarrow> (string \<Rightarrow> string) \<Rightarrow> string list \<Rightarrow> signer list" where
  "signers split_fields decode sha_base64 scanned =
     List.map_filter (\<lambda>line.
       let line = trim_space line
       in if line = [] \<or> has_prefix line ''#'' then None else parse_signer split_fields decode sha_base64 line) scanned"

section \<open>Lemmas\<close>

lemma with_valid_ref_Inr:
  "with_valid_ref r m w = (Inr x, w') \<longleftrightarrow> valid_ref r = None \<and> m w = (Inr x, w')"
  by (simp add: with_valid_ref_def split: option.split)

lemma text_of_Inr:
  "text_of m w = (Inr t, w') \<longleftrightarrow> (\<exists>r. m w = (Inr r, w') \<and> run_ok r \<and> t = trim_space (rs_stdout r))"
  by (auto simp: text_of_def after_Inr)

lemma is_ancestor_True:
  "is_ancestor c a d w = (Inr True, w') \<longleftrightarrow> valid_ref a = None \<and> valid_ref d = None
     \<and> (\<exists>r. git c None [''merge-base'', ''--is-ancestor'', a, d] w = (Inr r, w') \<and> rs_code r = 0)"
proof (cases "git c None [''merge-base'', ''--is-ancestor'', a, d] w")
  case (Pair res w1)
  then show ?thesis
    by (cases res) (auto simp: is_ancestor_def with_valid_ref_def after_def split: option.splits if_splits)
qed

text \<open>A reference that is accepted cannot be read as an option or a revision expression.\<close>

lemma valid_ref_None:
  "valid_ref r = None \<longleftrightarrow> r \<noteq> [] \<and> hd r \<noteq> CHR ''-'' \<and> (\<forall>bad \<in> set bad_in_ref. \<not> str_contains r bad)"
proof (cases "find (str_contains r) bad_in_ref")
  case None
  then have "\<forall>bad \<in> set bad_in_ref. \<not> str_contains r bad" by (simp add: find_None_iff)
  with None show ?thesis by (cases r) (auto simp: valid_ref_def has_prefix_iff)
next
  case (Some bad)
  then have "\<exists>bad \<in> set bad_in_ref. str_contains r bad" by (metis find_Some_iff nth_mem)
  with Some show ?thesis by (auto simp: valid_ref_def)
qed

end
