(* ===== verification/Source.thy ===== *)
theory Source
  imports Git
begin

text \<open>
  Packages \<open>internal/revision\<close> and \<open>internal/source\<close>: the accepted revision a host keeps, and the
  revision a pass reconciles: fetched, verified, no older than the accepted one, materialised,
  or else the accepted one again.
\<close>

section \<open>Definitions\<close>

subsection \<open>The accepted revision (revision.go)\<close>

definition revision_path :: "string \<Rightarrow> string" where
  "revision_path state_dir = join_path [state_dir, ''accepted-revision'']"

definition is_hex_rune :: "nat \<Rightarrow> bool" where
  "is_hex_rune n \<longleftrightarrow> 48 \<le> n \<and> n \<le> 57 \<or> 97 \<le> n \<and> n \<le> 102"

definition validate_revision :: "string \<Rightarrow> string option" where
  "validate_revision r =
     (if r = [] then Some ''a revision cannot be empty''
      else if length r \<noteq> 40 \<and> length r \<noteq> 64
        then Some (''revision '' @ quote_key r @ '' is not a full object name, which is 40 or 64 hex characters'')
      else case find (\<lambda>p. \<not> is_hex_rune (rune_value (fst p))) (runes r) of
        Some p \<Rightarrow> Some (''revision '' @ quote_key r @ '' contains '' @ snd p @ '', which is not hexadecimal'')
      | None \<Rightarrow> None)"

text \<open>The accepted revision, if the host has one.\<close>

definition read_revision :: "'w os \<Rightarrow> string \<Rightarrow> 'w \<Rightarrow> go_error + string option" where
  "read_revision os state_dir w =
     (case os_read_file os (revision_path state_dir) w of
        NotExist _ \<Rightarrow> Inr None
      | FsError err \<Rightarrow> Inl (plain_error err)
      | FsOk data \<Rightarrow>
          (let value = trim_space data
           in if value = [] then Inr None
              else case validate_revision value of
                Some err \<Rightarrow> Inl (plain_error (revision_path state_dir @ '' holds '' @ quote_key value
                    @ '', which is not a revision: '' @ err))
              | None \<Rightarrow> Inr (Some value)))"

definition write_atomic :: "'w os \<Rightarrow> string \<Rightarrow> string \<Rightarrow> ('w, unit) io" where
  "write_atomic os path value =
     (let temp = path @ ''.tmp''
      in after (effect (os_write_file os temp (value @ [CHR 0x0A]) state_file_mode)) (\<lambda>_.
           handle (effect (os_rename os temp path))
             (\<lambda>err w. raise err (snd (os_remove os temp w))) pure))"

definition advance :: "'w os \<Rightarrow> string \<Rightarrow> string \<Rightarrow> ('w, unit) io" where
  "advance os state_dir r =
     (case validate_revision r of
        Some err \<Rightarrow> fail err
      | None \<Rightarrow> after (ensure_dir os state_dir) (\<lambda>_. write_atomic os (revision_path state_dir) r))"

definition clear_revision :: "'w os \<Rightarrow> string \<Rightarrow> ('w, string option) io" where
  "clear_revision os state_dir w =
     (let previous = (case read_revision os state_dir w of Inl _ \<Rightarrow> None | Inr p \<Rightarrow> p)
      in case os_remove os (revision_path state_dir) w of
           (FsError err, w') \<Rightarrow> (Inl (plain_error err), w')
         | (_, w') \<Rightarrow> (Inr previous, w'))"

subsection \<open>Selecting a revision (source.go)\<close>

datatype refusal = Unsigned | UntrustedSigner | AmbiguousTag | NotDescendant | UnsupportedSchema

definition refusal_string :: "refusal \<Rightarrow> string" where
  "refusal_string r =
     (case r of Unsigned \<Rightarrow> ''unsigned'' | UntrustedSigner \<Rightarrow> ''untrusted-signer'' | AmbiguousTag \<Rightarrow> ''ambiguous-tag''
      | NotDescendant \<Rightarrow> ''not-descendant'' | UnsupportedSchema \<Rightarrow> ''unsupported-schema'')"

definition refuse :: "refusal \<Rightarrow> string \<Rightarrow> go_error \<Rightarrow> go_error" where
  "refuse reason r err = \<lparr>ge_text = ge_text err, ge_refused = Some (refusal_string reason, r)\<rparr>"

definition reason_of :: "go_error \<Rightarrow> string option" where
  "reason_of err = map_option fst (ge_refused err)"

record selection =
  sl_revision :: string
  sl_tree :: string
  sl_fleet :: string
  sl_tag :: string
  sl_signature :: signature
  sl_accepted :: string
  sl_first_contact :: bool
  sl_fell_back :: bool
  sl_candidate :: string
  sl_why :: string
  sl_cause :: "go_error option"

record 'w source =
  so_cfg :: config
  so_client :: "'w client"
  so_prefix :: string

definition new_source ::
    "((string \<times> string) list \<Rightarrow> int option \<Rightarrow> string list \<Rightarrow> ('w, run_result) io) \<Rightarrow> config \<Rightarrow> string \<Rightarrow> 'w source" where
  "new_source f cfg prefix =
     \<lparr>so_cfg = cfg,
      so_client = with_credential (new_client f (join_path [cfg_state cfg, ''repository''])
         \<lparr>li_fetch_timeout = sc_fetchTimeout (cfg_source cfg), li_max_size = sc_maxRepositorySize (cfg_source cfg)\<rparr>)
         (sc_credential (cfg_source cfg)),
      so_prefix = prefix\<rparr>"

definition is_untrusted :: "go_error \<Rightarrow> bool" where
  "is_untrusted err \<longleftrightarrow>
     list_ex (str_contains (ge_text err)) [''not in the trusted signers'', ''revoked'', ''expired'']"

definition signature_refusal :: "string \<Rightarrow> go_error \<Rightarrow> go_error" where
  "signature_refusal r err = refuse (if is_untrusted err then UntrustedSigner else Unsigned) r err"

definition origin_branch :: "'w source \<Rightarrow> string" where
  "origin_branch s = ''origin/'' @ sc_branch (cfg_source (so_cfg s))"

text \<open>A tag is a candidate when it verifies, is on the branch and is no older than the accepted revision.\<close>

definition tag_candidate :: "'w source \<Rightarrow> string option \<Rightarrow> tag \<Rightarrow> ('w, signature option) io" where
  "tag_candidate s accepted t =
     handle (verify_tag (so_client s) (tg_name t) (tc_signers (cfg_trust (so_cfg s)))) (\<lambda>_. pure None)
       (\<lambda>signature.
          handle (is_ancestor (so_client s) (tg_commit t) (origin_branch s)) (\<lambda>_. pure None)
            (\<lambda>reachable.
               if \<not> reachable then pure None
               else case accepted of
                 None \<Rightarrow> pure (Some signature)
               | Some a \<Rightarrow>
                   handle (is_ancestor (so_client s) a (tg_commit t)) (\<lambda>_. pure None)
                     (\<lambda>newer. if newer then pure (Some signature) else pure None)))"

fun tag_candidates :: "'w source \<Rightarrow> string option \<Rightarrow> tag list \<Rightarrow> ('w, (tag \<times> signature) list) io" where
  "tag_candidates s accepted [] = pure []"
| "tag_candidates s accepted (t # ts) =
     after (tag_candidate s accepted t) (\<lambda>signature.
       after (tag_candidates s accepted ts) (\<lambda>rest.
         case signature of None \<Rightarrow> pure rest | Some sg \<Rightarrow> pure ((t, sg) # rest)))"

definition signed_tag :: "'w os \<Rightarrow> 'w source \<Rightarrow> ('w, string \<times> string \<times> signature) io" where
  "signed_tag os s =
     (let pattern = tc_tagPattern (cfg_trust (so_cfg s))
      in after (annotated_tags (so_client s) pattern) (\<lambda>tags w.
           case read_revision os (cfg_state (so_cfg s)) w of
             Inl err \<Rightarrow> (Inl err, w)
           | Inr accepted \<Rightarrow>
               after (tag_candidates s accepted tags) (\<lambda>found.
                 if found = [] then
                   fail (''no signed tag matching '' @ quote_key pattern
                     @ '' is a candidate, so there is nothing newer to apply'')
                 else
                   handle (select_tag (so_client s) (map fst found)) (\<lambda>err. raise (refuse AmbiguousTag [] err))
                     (\<lambda>t. pure (tg_commit t, tg_name t,
                        case map_of (rev (map (\<lambda>(t, sg). (tg_name t, sg)) found)) (tg_name t) of
                          Some sg \<Rightarrow> sg | None \<Rightarrow> no_signature))) w))"

definition candidate :: "'w os \<Rightarrow> 'w source \<Rightarrow> ('w, string \<times> string \<times> signature) io" where
  "candidate os s =
     (case tc_require (cfg_trust (so_cfg s)) of
        RequireNone \<Rightarrow> after (resolve_ref (so_client s) (origin_branch s)) (\<lambda>r. pure (r, [], no_signature))
      | RequireSignedCommit \<Rightarrow>
          after (resolve_ref (so_client s) (origin_branch s)) (\<lambda>r.
            handle (verify_commit (so_client s) r (tc_signers (cfg_trust (so_cfg s))))
              (\<lambda>err. raise (signature_refusal r err)) (\<lambda>signature. pure (r, [], signature)))
      | RequireSignedTag \<Rightarrow> signed_tag os s
      | RequireOther q \<Rightarrow> fail (''unknown trust.require '' @ quote_key q))"

definition check_current :: "'w source \<Rightarrow> string \<Rightarrow> string option \<Rightarrow> ('w, unit) io" where
  "check_current s cand accepted =
     (case accepted of
        None \<Rightarrow> pure ()
      | Some a \<Rightarrow>
          if \<not> descendant (cfg_trust (so_cfg s)) then pure ()
          else
            after (has_commit (so_client s) a) (\<lambda>present.
              if \<not> present then
                raise (refuse NotDescendant cand (plain_error
                  (''cannot verify revision ordering, because the accepted revision '' @ short_rev a
                   @ '' is not in the repository'' @ [CHR 0x0A] @ ''  candidate          '' @ short_rev cand @ [CHR 0x0A]
                   @ ''  history appears to have been rewritten'' @ [CHR 0x0A]
                   @ ''  run `datum revision clear --yes` to accept a new baseline'')))
              else
                after (is_ancestor (so_client s) a cand) (\<lambda>descends.
                  if descends then pure ()
                  else raise (refuse NotDescendant cand (plain_error
                    (short_rev cand @ '' does not descend from the accepted revision '' @ short_rev a
                     @ '', so it would be a downgrade''))))))"

definition fleet_in :: "'w source \<Rightarrow> string \<Rightarrow> string" where
  "fleet_in s tree = (if so_prefix s = [] then tree else join_path [tree, so_prefix s])"

definition materialise :: "'w os \<Rightarrow> 'w source \<Rightarrow> string \<Rightarrow> ('w, string \<times> string) io" where
  "materialise os s r =
     (let tree = join_path [cfg_state (so_cfg s), ''tree'']
      in after (effect (os_remove_all os tree)) (\<lambda>_.
           after (checkout os (so_client s) r tree) (\<lambda>_. pure (tree, fleet_in s tree))))"

definition fallback :: "'w os \<Rightarrow> 'w source \<Rightarrow> selection \<Rightarrow> go_error \<Rightarrow> ('w, selection) io" where
  "fallback os s sel cause =
     (if sl_first_contact sel then raise cause
      else
        handle (materialise os s (sl_accepted sel))
          (\<lambda>err. raise (cause\<lparr>ge_text := ge_text cause @ '', and the accepted revision '' @ short_rev (sl_accepted sel)
                 @ '' could not be used either: '' @ ge_text err\<rparr>))
          (\<lambda>(tree, fleet).
             pure (sel\<lparr>sl_revision := sl_accepted sel, sl_tree := tree, sl_fleet := fleet, sl_fell_back := True,
               sl_cause := Some cause,
               sl_why := (case ge_refused cause of
                            None \<Rightarrow> ge_text cause | Some (reason, _) \<Rightarrow> reason @ '': '' @ ge_text cause),
               sl_candidate := (case ge_refused cause of None \<Rightarrow> sl_candidate sel | Some (_, r) \<Rightarrow> r)\<rparr>)))"

definition select_candidate ::
    "'w os \<Rightarrow> 'w source \<Rightarrow> string option \<Rightarrow> ('w, string \<times> string \<times> signature \<times> string \<times> string) io" where
  "select_candidate os s accepted =
     (let c = so_client s; src = cfg_source (so_cfg s)
      in after (ensure_clone os c (sc_url src) (sc_branch src)) (\<lambda>_.
         after (fetch os c) (\<lambda>_.
         after (require_complete_history c) (\<lambda>_.
         after (candidate os s) (\<lambda>(cand, tag, signature).
         after (check_current s cand accepted) (\<lambda>_.
         after (materialise os s cand) (\<lambda>(tree, fleet).
           pure (cand, tag, signature, tree, fleet))))))))"

definition select_revision :: "'w os \<Rightarrow> 'w source \<Rightarrow> ('w, selection) io" where
  "select_revision os s w =
     (case read_revision os (cfg_state (so_cfg s)) w of
        Inl err \<Rightarrow> (Inl err, w)
      | Inr accepted \<Rightarrow>
          (let sel = \<lparr>sl_revision = [], sl_tree = [], sl_fleet = [], sl_tag = [], sl_signature = no_signature,
                 sl_accepted = (case accepted of Some a \<Rightarrow> a | None \<Rightarrow> []), sl_first_contact = (accepted = None),
                 sl_fell_back = False, sl_candidate = [], sl_why = [], sl_cause = None\<rparr>
           in handle (select_candidate os s accepted) (fallback os s sel)
                (\<lambda>(cand, tag, signature, tree, fleet).
                   pure (sel\<lparr>sl_revision := cand, sl_tree := tree, sl_fleet := fleet, sl_tag := tag,
                             sl_signature := signature\<rparr>)) w))"

definition accept :: "'w os \<Rightarrow> 'w source \<Rightarrow> string \<Rightarrow> ('w, unit) io" where
  "accept os s r = advance os (cfg_state (so_cfg s)) r"


section \<open>Lemmas\<close>

lemma handle_Inr:
  "handle m h f w = (Inr y, w'') \<longleftrightarrow>
     (\<exists>x w'. m w = (Inr x, w') \<and> f x w' = (Inr y, w'')) \<or> (\<exists>e w'. m w = (Inl e, w') \<and> h e w' = (Inr y, w''))"
  by (auto simp: handle_def split: prod.splits sum.splits)

lemma check_current_ok:
  assumes "check_current s cand (Some a) w = (Inr (), w')" "descendant (cfg_trust (so_cfg s))"
  shows "\<exists>w1 w2. is_ancestor (so_client s) a cand w1 = (Inr True, w2)"
  using assms by (auto simp: check_current_def after_Inr split: if_splits)

lemma tag_candidate_verified:
  assumes "tag_candidate s accepted t w = (Inr (Some sg), w')"
  shows "\<exists>w1 w2. verify_tag (so_client s) (tg_name t) (tc_signers (cfg_trust (so_cfg s))) w1 = (Inr sg, w2)"
  using assms by (auto simp: tag_candidate_def handle_Inr split: if_splits option.splits)

lemma tag_candidates_verified:
  "tag_candidates s accepted ts w = (Inr found, w') \<Longrightarrow> (t, sg) \<in> set found \<Longrightarrow>
     t \<in> set ts \<and> (\<exists>w1 w2. verify_tag (so_client s) (tg_name t) (tc_signers (cfg_trust (so_cfg s))) w1 = (Inr sg, w2))"
proof (induction ts arbitrary: w found)
  case (Cons x ts)
  then show ?case
    by (auto simp: after_Inr dest!: tag_candidate_verified split: option.splits) blast+
qed simp

lemma select_among_mem: "select_among c all ts w = (Inr t, w') \<Longrightarrow> t \<in> set ts"
  by (induction ts arbitrary: w) (auto simp: after_Inr split: if_splits)

lemma select_tag_mem: "select_tag c ts w = (Inr t, w') \<Longrightarrow> t \<in> set ts"
proof -
  assume t: "select_tag c ts w = (Inr t, w')"
  show "t \<in> set ts"
  proof (cases "\<exists>a b us. ts = a # b # us")
    case True
    then have "select_among c ts ts w = (Inr t, w')" using t by (auto simp: select_tag_def simp del: select_among.simps)
    then show ?thesis by (rule select_among_mem)
  next
    case False
    then have "ts = [] \<or> (\<exists>a. ts = [a])" by (metis list.exhaust)
    then show ?thesis using t by (auto simp: select_tag_def)
  qed
qed

text \<open>The signature recorded for the selected tag is one that a candidate of its name was verified with.\<close>

lemma signed_tag_verified:
  assumes "signed_tag os s w = (Inr (cand, tag, sg), w')"
  shows "(\<exists>w1 w2. verify_tag (so_client s) tag (tc_signers (cfg_trust (so_cfg s))) w1 = (Inr sg, w2))
    \<and> (\<exists>tags w1 w2. annotated_tags (so_client s) (tc_tagPattern (cfg_trust (so_cfg s))) w1 = (Inr tags, w2)
        \<and> \<lparr>tg_name = tag, tg_commit = cand\<rparr> \<in> set tags)"
proof -
  from assms obtain tags w0 where
    l: "annotated_tags (so_client s) (tc_tagPattern (cfg_trust (so_cfg s))) w = (Inr tags, w0)"
    by (auto simp: signed_tag_def Let_def after_Inr)
  with assms obtain accepted where "read_revision os (cfg_state (so_cfg s)) w0 = Inr accepted"
    by (auto simp: signed_tag_def Let_def after_def split: sum.splits)
  with assms l obtain found w2 w3 t where f: "tag_candidates s accepted tags w0 = (Inr found, w2)"
    and t: "select_tag (so_client s) (map fst found) w2 = (Inr t, w3)" "tg_commit t = cand" "tg_name t = tag"
      "sg = (case map_of (rev (map (\<lambda>(t, sg). (tg_name t, sg)) found)) (tg_name t) of Some sg \<Rightarrow> sg | None \<Rightarrow> no_signature)"
    by (auto simp: signed_tag_def Let_def after_Inr handle_Inr split: if_splits)
  have "t \<in> set tags" using select_tag_mem [OF t(1)] tag_candidates_verified [OF f] by auto
  moreover have "t = \<lparr>tg_name = tag, tg_commit = cand\<rparr>" using t by simp
  moreover from select_tag_mem [OF t(1)] have "tg_name t \<in> fst ` set (rev (map (\<lambda>(t, sg). (tg_name t, sg)) found))"
    by (force simp: image_image)
  then obtain x where x: "map_of (rev (map (\<lambda>(t, sg). (tg_name t, sg)) found)) (tg_name t) = Some x"
    by (metis map_of_eq_None_iff not_None_eq)
  then obtain u where "(u, x) \<in> set found" "tg_name u = tg_name t" by (auto dest!: map_of_SomeD)
  then have "\<exists>w1 w2. verify_tag (so_client s) tag (tc_signers (cfg_trust (so_cfg s))) w1 = (Inr sg, w2)"
    using tag_candidates_verified [OF f] x t by fastforce
  ultimately show ?thesis using l by blast
qed

lemma candidate_verified:
  assumes "candidate os s w = (Inr (cand, tag, sg), w')"
  shows "tc_require (cfg_trust (so_cfg s)) = RequireSignedCommit \<longrightarrow>
      (\<exists>w1 w2. verify_commit (so_client s) cand (tc_signers (cfg_trust (so_cfg s))) w1 = (Inr sg, w2))"
    and "tc_require (cfg_trust (so_cfg s)) = RequireSignedTag \<longrightarrow>
      (\<exists>w1 w2. verify_tag (so_client s) tag (tc_signers (cfg_trust (so_cfg s))) w1 = (Inr sg, w2))
      \<and> (\<exists>tags w1 w2. annotated_tags (so_client s) (tc_tagPattern (cfg_trust (so_cfg s))) w1 = (Inr tags, w2)
          \<and> \<lparr>tg_name = tag, tg_commit = cand\<rparr> \<in> set tags)"
    and "tc_require (cfg_trust (so_cfg s)) \<in> {RequireSignedCommit, RequireSignedTag, RequireNone}"
  using assms
  by (auto simp: candidate_def after_Inr handle_Inr dest!: signed_tag_verified split: require_kind.splits)

lemma select_candidate_parts:
  assumes "select_candidate os s accepted w = (Inr (cand, tag, sg, tree, fleet), w')"
  shows "(\<exists>w1 w2. candidate os s w1 = (Inr (cand, tag, sg), w2)) \<and> (\<exists>w1 w2. check_current s cand accepted w1 = (Inr (), w2))"
  using assms by (auto simp: select_candidate_def Let_def after_Inr)

text \<open>A selection is the candidate, or the accepted revision again.\<close>

lemma select_revision_cases:
  assumes "select_revision os s w = (Inr sel, w')"
  obtains (candidate) accepted w1 w2 where "read_revision os (cfg_state (so_cfg s)) w = Inr accepted"
      "select_candidate os s accepted w1 = (Inr (sl_revision sel, sl_tag sel, sl_signature sel, sl_tree sel, sl_fleet sel), w2)"
      "\<not> sl_fell_back sel" "sl_first_contact sel \<longleftrightarrow> accepted = None" "accepted \<noteq> None \<longrightarrow> accepted = Some (sl_accepted sel)"
  | (fell_back) "read_revision os (cfg_state (so_cfg s)) w = Inr (Some (sl_accepted sel))"
      "sl_revision sel = sl_accepted sel" "sl_fell_back sel" "\<not> sl_first_contact sel"
proof -
  from assms obtain accepted where a: "read_revision os (cfg_state (so_cfg s)) w = Inr accepted"
    by (auto simp: select_revision_def split: sum.splits)
  from assms [unfolded select_revision_def a] show thesis
    unfolding sum.case Let_def handle_Inr
  proof (elim disjE exE conjE, goal_cases)
    case (1 x w1)
    then show thesis using a by (intro candidate [of accepted w w1]) (auto split: option.splits prod.splits)
  next
    case (2 e w1)
    then show thesis using a
      by (intro fell_back) (auto simp: fallback_def handle_Inr split: if_splits option.splits prod.splits)
  qed
qed

section \<open>Properties\<close>

text \<open>
  C13: no pass goes back. Where the configuration asks for descendants and the host has
  accepted a revision, the selected one is that revision or git has confirmed that it descends
  from it; and only a host without an accepted revision is at first contact.
\<close>

theorem select_no_downgrade:
  assumes "select_revision os s w = (Inr sel, w')" "descendant (cfg_trust (so_cfg s))"
  shows "(sl_first_contact sel \<longleftrightarrow> read_revision os (cfg_state (so_cfg s)) w = Inr None)
    \<and> (\<not> sl_first_contact sel \<longrightarrow>
        read_revision os (cfg_state (so_cfg s)) w = Inr (Some (sl_accepted sel))
        \<and> (sl_revision sel = sl_accepted sel
           \<or> (\<exists>w1 w2. is_ancestor (so_client s) (sl_accepted sel) (sl_revision sel) w1 = (Inr True, w2))))"
  using assms(1)
proof (cases rule: select_revision_cases)
  case (candidate accepted w1 w2)
  show ?thesis
  proof (cases accepted)
    case None
    then show ?thesis using candidate by simp
  next
    case (Some a)
    from select_candidate_parts [OF candidate(2)] obtain w3 w4 where "check_current s (sl_revision sel) accepted w3 = (Inr (), w4)"
      by blast
    moreover have "a = sl_accepted sel" using candidate(5) Some by simp
    ultimately have "\<exists>w1 w2. is_ancestor (so_client s) (sl_accepted sel) (sl_revision sel) w1 = (Inr True, w2)"
      using check_current_ok [of s "sl_revision sel" a] assms(2) Some by metis
    then show ?thesis using candidate Some by auto
  qed
qed simp

text \<open>
  C14: nothing unsigned is applied. A revision that is not a fallback carries the signature it
  was verified with, on the commit or on the tag as the configuration requires, and no other
  requirement than the three known ones lets a candidate through.
\<close>

theorem select_verified:
  assumes "select_revision os s w = (Inr sel, w')" "\<not> sl_fell_back sel"
  shows "tc_require (cfg_trust (so_cfg s)) \<in> {RequireSignedCommit, RequireSignedTag, RequireNone}
    \<and> (tc_require (cfg_trust (so_cfg s)) = RequireSignedCommit \<longrightarrow>
        (\<exists>w1 w2. verify_commit (so_client s) (sl_revision sel) (tc_signers (cfg_trust (so_cfg s))) w1
          = (Inr (sl_signature sel), w2)))
    \<and> (tc_require (cfg_trust (so_cfg s)) = RequireSignedTag \<longrightarrow>
        (\<exists>w1 w2. verify_tag (so_client s) (sl_tag sel) (tc_signers (cfg_trust (so_cfg s))) w1
          = (Inr (sl_signature sel), w2))
        \<and> (\<exists>tags w1 w2. annotated_tags (so_client s) (tc_tagPattern (cfg_trust (so_cfg s))) w1 = (Inr tags, w2)
            \<and> \<lparr>tg_name = sl_tag sel, tg_commit = sl_revision sel\<rparr> \<in> set tags))"
  using assms(1)
proof (cases rule: select_revision_cases)
  case (candidate accepted w1 w2)
  from select_candidate_parts [OF candidate(2)] obtain w3 w4
    where "Source.candidate os s w3 = (Inr (sl_revision sel, sl_tag sel, sl_signature sel), w4)" by blast
  from candidate_verified [OF this] show ?thesis by simp
next
  case fell_back
  with assms(2) show ?thesis by simp
qed


section \<open>Witnesses\<close>

text \<open>
  A clone whose branch is at a signed commit \<open>bb..\<close> that descends from the accepted revision
  \<open>aa..\<close>, on a host where nothing else changes.
\<close>

definition example_os :: "unit os" where
  "example_os = \<lparr>os_stat = \<lambda>p w. FsOk \<lparr>fst_is_dir = True, fst_perm = state_mode, fst_owner = None\<rparr>,
     os_read_file = \<lambda>p w. FsOk (replicate 40 (CHR ''a'')), os_write_file = \<lambda>p t n w. (None, w),
     os_rename = \<lambda>p q w. (None, w), os_remove = \<lambda>p w. (FsOk (), w), os_remove_all = \<lambda>p w. (None, w),
     os_mkdir_all = \<lambda>p n w. (None, w), os_create_temp = \<lambda>d p w. (Inr ''/tmp/index'', w), os_walk = \<lambda>p w. [],
     os_euid = 0\<rparr>"

definition example_git :: "(string \<times> string) list \<Rightarrow> int option \<Rightarrow> string list \<Rightarrow> ('w, run_result) io" where
  "example_git env bound argv w =
     (Inr \<lparr>rs_argv = argv, rs_code = 0,
        rs_stdout = (if ''--verify'' \<in> set argv then replicate 40 (CHR ''b'')
                     else if ''log'' \<in> set argv then ''G'' @ [CHR 0x09] @ ''K'' @ [CHR 0x09] @ ''S'' else []),
        rs_stderr = []\<rparr>, w)"

definition example_source :: "unit source" where
  "example_source = new_source example_git default_config []"

definition example_selection :: selection where
  "example_selection = \<lparr>sl_revision = replicate 40 (CHR ''b''), sl_tree = ''/var/lib/datum/tree'',
     sl_fleet = ''/var/lib/datum/tree'', sl_tag = [], sl_signature = \<lparr>sg_key = ''K'', sg_signer = ''S''\<rparr>,
     sl_accepted = replicate 40 (CHR ''a''), sl_first_contact = False, sl_fell_back = False, sl_candidate = [],
     sl_why = [], sl_cause = None\<rparr>"

lemma example_verified:
  "verify_commit (so_client (new_source example_git default_config [])) (replicate 40 (CHR ''b'')) file w
     = (Inr \<lparr>sg_key = ''K'', sg_signer = ''S''\<rparr>, w)"
proof -
  let ?out = "''G'' @ [CHR 0x09] @ ''K'' @ [CHR 0x09] @ ''S''"
  have v: "valid_ref (replicate 40 (CHR ''b'')) = None" by code_simp
  have t: "trim_newlines ?out = ?out" by code_simp
  have p: "split_n (Suc (Suc 0)) (CHR 0x09) ?out = [''G'', ''K'', ''S'']" by code_simp
  have g: "trim_space ''G'' = ''G''" by code_simp
  have k: "trim_space ''K'' = ''K''" by code_simp
  have s: "trim_space ''S'' = ''S''" by code_simp
  have l: "log_signature (replicate 40 (CHR ''b'')) ?out = Inr \<lparr>sg_key = ''K'', sg_signer = ''S''\<rparr>"
    unfolding log_signature_def Let_def t p by (simp add: g k s commit_status_error_def)
  have c: "so_client (new_source example_git default_config []) = \<lparr>gc_runner = ExecRunner git_environment example_git,
      gc_dir = join_path [cfg_state default_config, ''repository''],
      gc_limits = \<lparr>li_fetch_timeout = sc_fetchTimeout (cfg_source default_config),
        li_max_size = sc_maxRepositorySize (cfg_source default_config)\<rparr>\<rparr>"
    by (simp add: new_source_def new_client_def with_credential_def default_config_def)
  have d: "''--verify'' \<noteq> join_path [cfg_state default_config, ''repository'']" by code_simp
  have b: "''--verify'' \<noteq> replicate 40 (CHR ''b'')" by code_simp
  have h: "''--verify'' \<notin> set (hardening @ signers_config file)" by (simp add: hardening_def signers_config_def)
  show ?thesis
    using l d b h
    by (simp add: verify_commit_def with_valid_ref_def v after_def git_def example_git_def run_ok_def c)
qed

lemma example_selected:
  "select_revision example_os example_source () = (Inr example_selection, ())"
  "sl_revision example_selection = replicate 40 (CHR ''b'')" "sl_accepted example_selection = replicate 40 (CHR ''a'')"
  "\<not> sl_fell_back example_selection" "\<not> sl_first_contact example_selection"
  "descendant (cfg_trust (so_cfg example_source))"
  "tc_require (cfg_trust (so_cfg example_source)) = RequireSignedCommit"
proof -
  let ?a = "replicate 40 (CHR ''a'')" and ?b = "replicate 40 (CHR ''b'')" and ?c = "so_client example_source"
  have cfg: "so_cfg example_source = default_config" by (simp add: example_source_def new_source_def)
  have r: "read_revision example_os (cfg_state default_config) () = Inr (Some ?a)" by code_simp
  have c: "resolve_ref ?c (origin_branch example_source) () = (Inr ?b, ())"
    "fetch example_os ?c () = (Inr (), ())" "require_complete_history ?c () = (Inr (), ())"
    "ensure_clone example_os ?c (sc_url (cfg_source default_config)) (sc_branch (cfg_source default_config)) () = (Inr (), ())"
    "check_current example_source ?b (Some ?a) () = (Inr (), ())"
    "materialise example_os example_source ?b () = (Inr (''/var/lib/datum/tree'', ''/var/lib/datum/tree''), ())"
    by code_simp+
  have k: "tc_require (cfg_trust default_config) = RequireSignedCommit" by (simp add: default_config_def)
  have "candidate example_os example_source () = (Inr (?b, [], \<lparr>sg_key = ''K'', sg_signer = ''S''\<rparr>), ())"
    using c(1) example_verified [where w = "()", folded example_source_def] by (simp add: candidate_def cfg k after_def handle_def)
  then have "select_candidate example_os example_source (Some ?a) ()
      = (Inr (?b, [], \<lparr>sg_key = ''K'', sg_signer = ''S''\<rparr>, ''/var/lib/datum/tree'', ''/var/lib/datum/tree''), ())"
    using c by (simp add: select_candidate_def cfg after_def Let_def)
  then show "select_revision example_os example_source () = (Inr example_selection, ())"
    using r by (simp add: select_revision_def cfg handle_def example_selection_def Let_def)
qed (simp_all add: example_selection_def example_source_def new_source_def default_config_def descendant_def)

theorem select_no_downgrade_witness:
  "\<exists>w1 w2. is_ancestor (so_client example_source) (replicate 40 (CHR ''a'')) (replicate 40 (CHR ''b'')) w1 = (Inr True, w2)"
proof -
  have "replicate 40 (CHR ''a'') \<noteq> replicate 40 (CHR ''b'')" by simp
  then show ?thesis
    using select_no_downgrade [OF example_selected(1,6)] example_selected(5) unfolding example_selected(2,3) by auto
qed

theorem select_verified_witness:
  "\<exists>w1 w2. verify_commit (so_client example_source) (replicate 40 (CHR ''b''))
     (tc_signers (cfg_trust (so_cfg example_source))) w1 = (Inr (sl_signature example_selection), w2)"
  using select_verified [OF example_selected(1,4)] example_selected(7) unfolding example_selected(2) by blast

end
