(* ===== verification/Report.thy ===== *)
theory Report
  imports Reconcile Effects
begin

text \<open>
  Package \<open>internal/report\<close>: the record one pass leaves behind, how it is built from the result
  of a pass (\<open>buildReport\<close> of \<open>cmd/datum\<close>), and the directory the reports are kept in. Times are
  nanoseconds since the epoch; encoding a report and printing a time are parameters.
\<close>

section \<open>Definitions\<close>

subsection \<open>Reports (report.go)\<close>

record report_resource =
  pr_ref :: string
  pr_provider :: string
  pr_target :: string
  pr_action :: string
  pr_state :: string
  pr_fields :: "string list"
  pr_reason :: string
  pr_error :: string

record report_counts =
  pc_total :: nat
  pc_converged :: nat
  pc_drifted :: nat
  pc_failed :: nat
  pc_blocked :: nat
  pc_skipped :: nat

record report =
  rp_host :: string
  rp_attempted :: string
  rp_applied :: string
  rp_last_good :: string
  rp_manifest :: string
  rp_error :: string
  rp_outcome :: string
  rp_host_state :: string
  rp_mode :: string
  rp_started :: int
  rp_finished :: int
  rp_duration_ms :: int
  rp_counts :: report_counts
  rp_resources :: "report_resource list"

definition tally_step :: "report_counts \<Rightarrow> report_resource \<Rightarrow> report_counts" where
  "tally_step c r =
     (if pr_state r = res_state_string Converged then c\<lparr>pc_converged := pc_converged c + 1\<rparr>
      else if pr_state r = res_state_string Drifted then c\<lparr>pc_drifted := pc_drifted c + 1\<rparr>
      else if pr_state r = res_state_string Failed then c\<lparr>pc_failed := pc_failed c + 1\<rparr>
      else if pr_state r = res_state_string Blocked then c\<lparr>pc_blocked := pc_blocked c + 1\<rparr>
      else if pr_state r = res_state_string Skipped then c\<lparr>pc_skipped := pc_skipped c + 1\<rparr>
      else c)"

definition tally :: "report_resource list \<Rightarrow> report_counts" where
  "tally rs = foldl tally_step \<lparr>pc_total = length rs, pc_converged = 0, pc_drifted = 0, pc_failed = 0,
     pc_blocked = 0, pc_skipped = 0\<rparr> rs"

text \<open>Milliseconds of a duration, rounded towards zero.\<close>

definition set_duration :: "report \<Rightarrow> report" where
  "set_duration r =
     (let d = rp_finished r - rp_started r in r\<lparr>rp_duration_ms := sgn d * (\<bar>d\<bar> div 1000000)\<rparr>)"

definition report_entry :: "(rc_error \<Rightarrow> string) \<Rightarrow> outcome_of \<Rightarrow> report_resource" where
  "report_entry error_text r =
     \<lparr>pr_ref = ref_string (rr_ref r), pr_provider = rr_provider r, pr_target = rr_target r,
      pr_action = action_string (rr_action r), pr_state = res_state_string (rr_state r), pr_fields = rr_fields r,
      pr_reason = rr_reason r, pr_error = (case rr_err r of None \<Rightarrow> [] | Some e \<Rightarrow> error_text e)\<rparr>"

definition build_report ::
    "(string \<Rightarrow> string) \<Rightarrow> (rc_error \<Rightarrow> string) \<Rightarrow> manifest \<Rightarrow> pass_result \<Rightarrow> mode \<Rightarrow> int \<Rightarrow> int \<Rightarrow> report" where
  "build_report sha256_hex error_text m result md from_time to_time =
     (let rs = map (report_entry error_text) (pr_resources result)
      in set_duration
        \<lparr>rp_host = mf_host m, rp_attempted = mf_revision m, rp_applied = mf_revision m, rp_last_good = [],
         rp_manifest = short_digest sha256_hex m, rp_error = [], rp_outcome = outcome_string (pr_outcome result),
         rp_host_state = host_state_string (pr_host_state result), rp_mode = mode_string md, rp_started = from_time,
         rp_finished = to_time, rp_duration_ms = 0, rp_counts = tally rs, rp_resources = rs\<rparr>)"

subsection \<open>The report directory (store.go)\<close>

text \<open>The entries of a directory by name; a directory among them has no content.\<close>

type_synonym directory = "(string \<times> string option) list"

definition keep_reports :: nat where "keep_reports = 20"

definition report_names :: "directory \<Rightarrow> string list" where
  "report_names d =
     go_sort (\<lambda>a b. trim_suffix a ''.json'' < trim_suffix b ''.json'')
       (map fst (filter (\<lambda>(name, content). content \<noteq> None \<and> has_suffix name ''.json'') d))"

definition prune :: "nat \<Rightarrow> directory \<Rightarrow> directory" where
  "prune keep d =
     (let names = report_names d
      in if length names \<le> keep then d
         else foldl (\<lambda>d name. AList.delete name d) d (take (length names - keep) names))"

definition latest_report :: "(string \<Rightarrow> report option) \<Rightarrow> directory \<Rightarrow> report option option" where
  "latest_report decode d =
     (let names = report_names d
      in if names = [] then Some None
         else case map_of d (last names) of
           Some (Some body) \<Rightarrow> map_option Some (decode body)
         | _ \<Rightarrow> None)"

fun read_history :: "(string \<Rightarrow> report option) \<Rightarrow> directory \<Rightarrow> string list \<Rightarrow> report list option" where
  "read_history decode d [] = Some []"
| "read_history decode d (name # names) =
     (case map_of d name of
        Some (Some body) \<Rightarrow>
          (case decode body of
             None \<Rightarrow> None
           | Some r \<Rightarrow> map_option ((#) r) (read_history decode d names))
      | _ \<Rightarrow> None)"

definition report_history :: "(string \<Rightarrow> report option) \<Rightarrow> directory \<Rightarrow> report list option" where
  "report_history decode d = read_history decode d (rev (report_names d))"

text \<open>\<open>%0nd\<close> of a natural number.\<close>

definition pad_nat :: "nat \<Rightarrow> nat \<Rightarrow> string" where
  "pad_nat width n = (let s = format_nat n in replicate (width - length s) (CHR ''0'') @ s)"

definition max_sequence :: nat where "max_sequence = 2 ^ 64 - 1"

text \<open>The sequence number of a name with the given prefix, in 64 bits.\<close>

definition sequence_of :: "string \<Rightarrow> string \<Rightarrow> nat option" where
  "sequence_of stem name =
     (if has_prefix name (stem @ ''-'')
      then parse_uint 10 64 (trim_suffix (trim_prefix name (stem @ ''-'')) ''.json'') else None)"

fun next_sequence :: "string \<Rightarrow> string list \<Rightarrow> nat \<Rightarrow> nat option" where
  "next_sequence stem [] seq = Some seq"
| "next_sequence stem (name # names) seq =
     (case sequence_of stem name of
        None \<Rightarrow> next_sequence stem names seq
      | Some n \<Rightarrow>
          if seq \<le> n then (if n = max_sequence then None else next_sequence stem names (n + 1))
          else next_sequence stem names seq)"

definition sequence_name :: "string \<Rightarrow> nat \<Rightarrow> string" where
  "sequence_name stem seq = stem @ ''-'' @ pad_nat 20 seq @ ''.json''"

text \<open>The first name from a sequence number on that is free, if there is one.\<close>

function link_free :: "directory \<Rightarrow> string \<Rightarrow> nat \<Rightarrow> nat option" where
  "link_free d stem seq =
     (if sequence_name stem seq \<notin> fst ` set d then Some seq
      else if max_sequence \<le> seq then None
      else link_free d stem (seq + 1))"
  by pat_completeness auto
termination by (relation "measure (\<lambda>(d, stem, seq). max_sequence - seq)") auto

declare link_free.simps [simp del]

definition write_report ::
    "(int \<Rightarrow> string) \<Rightarrow> (report \<Rightarrow> string) \<Rightarrow> directory \<Rightarrow> report \<Rightarrow> (string option) \<times> directory" where
  "write_report format_time encode d r =
     (let stem = format_time (rp_finished r) @ ''-'' @ pad_nat 6 (nat (rp_finished r mod 1000000))
      in case next_sequence stem (report_names d) 0 of
           None \<Rightarrow> (None, d)
         | Some seq \<Rightarrow>
             (case link_free d stem seq of
                None \<Rightarrow> (None, d)
              | Some seq' \<Rightarrow>
                  (let name = sequence_name stem seq'
                   in (Some name, prune keep_reports (d @ [(name, Some (encode r @ [CHR 0x0A]))])))))"


section \<open>Specification\<close>

text \<open>
  A directory as a map from names to contents. A report is a file whose name ends in
  \<open>.json\<close>, and reports are in the order of the names without that suffix. Keeping the last
  \<open>k\<close> reports takes away those that have \<open>k\<close> later ones, and no other entry.
\<close>

definition report_key :: "string \<Rightarrow> string" where
  "report_key name = trim_suffix name ''.json''"

definition reports_in :: "(string \<rightharpoonup> string option) \<Rightarrow> string set" where
  "reports_in f = {name. has_suffix name ''.json'' \<and> (\<exists>body. f name = Some (Some body))}"

definition keeping :: "nat \<Rightarrow> (string \<rightharpoonup> string option) \<Rightarrow> string \<rightharpoonup> string option" where
  "keeping k f name =
     (if name \<in> reports_in f \<and> k \<le> card {later \<in> reports_in f. report_key name < report_key later}
      then None else f name)"

section \<open>Lemmas\<close>

lemma set_report_names: "set (report_names d) = {name. \<exists>body. (name, Some body) \<in> set d \<and> has_suffix name ''.json''}"
  by (force simp: report_names_def)

lemma prune_map_of:
  "map_of (prune keep d) name = (if length (report_names d) \<le> keep \<or> name \<notin> set (take (length (report_names d) - keep) (report_names d))
     then map_of d name else None)"
proof -
  have "map_of (foldl (\<lambda>d name. AList.delete name d) d names) name = (if name \<in> set names then None else map_of d name)" for names
    by (induction names arbitrary: d) (auto simp: delete_conv')
  then show ?thesis by (simp add: prune_def Let_def)
qed

lemma link_free_name: "link_free d stem seq = Some n \<Longrightarrow> sequence_name stem n \<notin> fst ` set d"
  by (induction d stem seq rule: link_free.induct) (subst (asm) (2) link_free.simps, simp split: if_splits)

lemma report_names_sort: "report_names d = sort_key (\<lambda>n. trim_suffix n ''.json'')
    (map fst (filter (\<lambda>(name, content). content \<noteq> None \<and> has_suffix name ''.json'') d))"
  by (simp add: report_names_def go_sort_key)

lemma distinct_report_names: "distinct (map fst d) \<Longrightarrow> distinct (report_names d)"
  by (auto simp: report_names_sort distinct_map intro: inj_on_subset)

lemma distinct_prune: "distinct (map fst d) \<Longrightarrow> distinct (map fst (prune keep d))"
proof -
  have "distinct (map fst d) \<Longrightarrow> distinct (map fst (foldl (\<lambda>d name. AList.delete name d) d names))" for names
    by (induction names arbitrary: d) (simp_all add: distinct_delete)
  then show "distinct (map fst d) \<Longrightarrow> distinct (map fst (prune keep d))" by (simp add: prune_def Let_def)
qed

lemma mem_report_names:
  "distinct (map fst d) \<Longrightarrow> n \<in> set (report_names d) \<longleftrightarrow> has_suffix n ''.json'' \<and> (\<exists>body. map_of d n = Some (Some body))"
  by (auto simp: set_report_names)

text \<open>Pruning leaves the last reports, no more than it keeps.\<close>

lemma report_names_prune:
  assumes "distinct (map fst d)"
  shows "set (report_names (prune keep d)) = set (drop (length (report_names d) - keep) (report_names d))"
    and "length (report_names (prune keep d)) = min keep (length (report_names d))"
proof -
  let ?ns = "report_names d" and ?k = "length (report_names d) - keep"
  have dis: "distinct (take ?k ?ns @ drop ?k ?ns)" using distinct_report_names [OF assms] by simp
  have "n \<in> set (report_names (prune keep d)) \<longleftrightarrow> n \<in> set ?ns \<and> n \<notin> set (take ?k ?ns)" for n
    using mem_report_names [OF assms] mem_report_names [OF distinct_prune [OF assms], of n keep]
    by (auto simp: prune_map_of split: if_splits)
  moreover have "set ?ns = set (take ?k ?ns) \<union> set (drop ?k ?ns)" by (metis append_take_drop_id set_append)
  moreover have "set (take ?k ?ns) \<inter> set (drop ?k ?ns) = {}" using dis unfolding distinct_append by blast
  ultimately show s: "set (report_names (prune keep d)) = set (drop ?k ?ns)" by blast
  have "length (report_names (prune keep d)) = card (set (drop ?k ?ns))"
    using distinct_card [OF distinct_report_names [OF distinct_prune [OF assms]]] s by metis
  also have "\<dots> = min keep (length ?ns)" using dis by (simp add: distinct_card)
  finally show "length (report_names (prune keep d)) = min keep (length ?ns)" .
qed

lemma report_key_inj: "inj_on report_key {name. has_suffix name ''.json''}"
  by (auto simp: inj_on_def report_key_def has_suffix_iff trim_suffix_def)

lemma take_last_iff:
  fixes f :: "'a \<Rightarrow> 'b :: linorder"
  assumes "sorted (map f xs)" "distinct xs" "inj_on f (set xs)" "x \<in> set xs"
  shows "x \<in> set (take (length xs - k) xs) \<longleftrightarrow> k \<le> card {y \<in> set xs. f x < f y}"
proof -
  obtain ys zs where xs: "xs = ys @ x # zs" using assms(4) by (meson split_list)
  have "f x < f z" if "z \<in> set zs" for z
    using assms(1-3) that by (auto simp: xs sorted_append inj_on_def order_less_le)
  moreover have "\<not> f x < f y" if "y \<in> set ys" for y using assms(1) that by (force simp: xs sorted_append)
  ultimately have "{y \<in> set xs. f x < f y} = set zs" using xs by auto
  moreover have "card (set zs) = length zs" using assms(2) by (simp add: xs distinct_card)
  moreover have "x \<in> set (take (length xs - k) xs) \<longleftrightarrow> k \<le> length zs"
  proof -
    let ?m = "length xs - k"
    have "x \<notin> set (take ?m ys)" using assms(2) set_take_subset [of ?m ys] by (auto simp: xs)
    moreover have "x \<notin> set zs" using assms(2) by (simp add: xs)
    ultimately have "x \<in> set (take ?m xs) \<longleftrightarrow> 0 < ?m - length ys"
      using set_take_subset [of "?m - length ys - 1" zs] by (cases "?m - length ys") (auto simp: xs)
    then show ?thesis by (auto simp: xs)
  qed
  ultimately show ?thesis by simp
qed

lemma set_report_names_map: "distinct (map fst d) \<Longrightarrow> set (report_names d) = reports_in (map_of d)"
  by (auto simp: reports_in_def mem_report_names)

lemma sorted_report_names: "sorted (map report_key (report_names d))"
  by (simp add: report_names_sort report_key_def [abs_def])

lemma prune_keeping:
  assumes "distinct (map fst d)"
  shows "map_of (prune keep d) = keeping keep (map_of d)"
proof
  fix n
  have "n \<in> set (take (length (report_names d) - keep) (report_names d))
      \<longleftrightarrow> n \<in> reports_in (map_of d) \<and> keep \<le> card {y \<in> reports_in (map_of d). report_key n < report_key y}"
  proof (cases "n \<in> set (report_names d)")
    case True
    have "inj_on report_key (set (report_names d))"
      by (rule inj_on_subset [OF report_key_inj]) (auto simp: set_report_names)
    from take_last_iff [OF sorted_report_names distinct_report_names [OF assms] this True] True show ?thesis
      by (simp add: set_report_names_map [OF assms])
  next
    case False
    then show ?thesis using set_report_names_map [OF assms] by (auto dest: in_set_takeD)
  qed
  then show "map_of (prune keep d) n = keeping keep (map_of d) n"
    by (auto simp: prune_map_of keeping_def)
qed

lemma last_greatest:
  fixes f :: "'a \<Rightarrow> 'b :: linorder"
  assumes "sorted (map f xs)" "x \<in> set xs" "\<forall>y \<in> set xs. y \<noteq> x \<longrightarrow> f y < f x"
  shows "last xs = x"
proof (rule ccontr)
  assume n: "last xs \<noteq> x"
  have "xs \<noteq> []" using assms(2) by auto
  then obtain ys z where xs: "xs = ys @ [z]" by (metis rev_exhaust)
  then have "f x \<le> f (last xs)" using assms(1,2) by (auto simp: sorted_append)
  with n assms(3) \<open>xs \<noteq> []\<close> show False by (meson last_in_set leD)
qed

text \<open>The latest report is the one with the greatest name.\<close>

lemma latest_report_greatest:
  assumes "distinct (map fst d)" "n \<in> reports_in (map_of d)" "map_of d n = Some (Some body)"
    and "\<forall>m \<in> reports_in (map_of d). m \<noteq> n \<longrightarrow> report_key m < report_key n"
  shows "latest_report decode d = map_option Some (decode body)"
proof -
  have "last (report_names d) = n"
    using assms(2,4) by (intro last_greatest [OF sorted_report_names]) (simp_all add: set_report_names_map [OF assms(1)])
  moreover have "report_names d \<noteq> []" using assms(2) set_report_names_map [OF assms(1)] by force
  ultimately show ?thesis using assms(3) by (simp add: latest_report_def Let_def)
qed

lemma finite_reports: "distinct (map fst d) \<Longrightarrow> finite (reports_in (map_of d))"
  using set_report_names_map by (metis List.finite_set)

text \<open>Pruning keeps the greatest, so the latest report is the same.\<close>

lemma latest_report_prune:
  assumes d: "distinct (map fst d)" and n: "n \<in> reports_in (map_of d)" "0 < keep"
    and greatest: "\<forall>m \<in> reports_in (map_of d). m \<noteq> n \<longrightarrow> report_key m < report_key n"
  shows "latest_report decode (prune keep d) = latest_report decode d"
proof -
  obtain body where body: "map_of d n = Some (Some body)" using n(1) by (auto simp: reports_in_def)
  have none: "{m \<in> reports_in (map_of d). report_key n < report_key m} = {}" using greatest by force
  have n': "map_of (prune keep d) n = Some (Some body)"
    unfolding prune_keeping [OF d] keeping_def none using n(2) body by simp
  moreover have "reports_in (map_of (prune keep d)) \<subseteq> reports_in (map_of d)"
    by (auto simp: prune_keeping [OF d] keeping_def reports_in_def split: if_splits)
  moreover have "n \<in> reports_in (map_of (prune keep d))" using n(1) n' by (simp add: reports_in_def)
  ultimately have "latest_report decode (prune keep d) = map_option Some (decode body)"
    using greatest by (intro latest_report_greatest [OF distinct_prune [OF d]]) auto
  then show ?thesis using latest_report_greatest [OF d n(1) body greatest] by simp
qed

text \<open>A report that is added is the latest if its name is the greatest, and otherwise the latest stays.\<close>

lemma latest_report_add:
  assumes d: "distinct (map fst (d @ [(name, Some body)]))" and name: "has_suffix name ''.json''" and keep: "0 < keep"
  shows "latest_report decode (prune keep (d @ [(name, Some body)]))
    = (if \<forall>n \<in> reports_in (map_of d). report_key n < report_key name then map_option Some (decode body)
       else latest_report decode d)"
proof -
  let ?d = "d @ [(name, Some body)]"
  have d': "distinct (map fst d)" and new: "map_of d name = None" using d by (auto simp: map_of_eq_None_iff)
  have all: "reports_in (map_of ?d) = insert name (reports_in (map_of d))"
    using name new by (auto simp: reports_in_def map_add_def split: option.splits if_splits)
  have in_all: "name \<in> reports_in (map_of ?d)" using all by simp
  show ?thesis
  proof (cases "\<forall>n \<in> reports_in (map_of d). report_key n < report_key name")
    case True
    with all have g: "\<forall>m \<in> reports_in (map_of ?d). m \<noteq> name \<longrightarrow> report_key m < report_key name" by auto
    have "map_of ?d name = Some (Some body)" using new by (simp add: map_add_def)
    from latest_report_greatest [OF d in_all this g] show ?thesis
      using True by (simp add: latest_report_prune [OF d in_all keep g])
  next
    case False
    then obtain n where n: "n \<in> reports_in (map_of d)" "\<not> report_key n < report_key name" by blast
    obtain top where top: "top \<in> reports_in (map_of d)" "\<forall>m \<in> reports_in (map_of d). report_key m \<le> report_key top"
      using finite_reports [OF d'] n(1) obtains_MAX by (metis Max_ge empty_iff finite_imageI image_eqI)
    have neq: "report_key m \<noteq> report_key top" if "m \<in> reports_in (map_of ?d)" "m \<noteq> top" for m
      using inj_onD [OF report_key_inj, of m top] that top(1) all by (auto simp: reports_in_def)
    have "report_key name \<le> report_key top" using n top(2) by (meson leI order_trans)
    with top neq all have g: "\<forall>m \<in> reports_in (map_of ?d). m \<noteq> top \<longrightarrow> report_key m < report_key top"
      by (auto simp: order_less_le)
    obtain b where b: "map_of d top = Some (Some b)" using top(1) by (auto simp: reports_in_def)
    then have "map_of ?d top = Some (Some b)" by simp
    from latest_report_greatest [OF d _ this g] latest_report_greatest [OF d' top(1) b] g top(1) all
    have "latest_report decode ?d = latest_report decode d" by auto
    then show ?thesis using False latest_report_prune [OF d _ keep g] top(1) all by auto
  qed
qed

section \<open>Properties\<close>

text \<open>
  C32: a report is kept and comes back. Writing takes a name nothing has and leaves exactly
  this directory: the new file with the encoded report, and every entry that was there as it
  was, except that a report with as many later reports as the limit is gone; an entry that is
  no report is never touched, and no more reports are left than the limit. Under the condition
  that its name sorts after those of the reports already there, which the time in the name
  gives while the clock does not step back, the report is the one read back as the latest;
  otherwise the latest report is the one that was the latest before.
\<close>

theorem report_written:
  assumes d: "distinct (map fst d)" and w: "write_report format_time encode d r = (Some name, d')"
  shows "name \<notin> fst ` set d
    \<and> map_of d' = keeping keep_reports ((map_of d)(name \<mapsto> Some (encode r @ [CHR 0x0A])))
    \<and> length (report_names d') \<le> keep_reports
    \<and> latest_report decode d'
      = (if \<forall>n \<in> reports_in (map_of d). report_key n < report_key name
         then map_option Some (decode (encode r @ [CHR 0x0A])) else latest_report decode d)"
proof -
  let ?body = "Some (encode r @ [CHR 0x0A])"
  from w obtain stem seq where name: "name = sequence_name stem seq" "name \<notin> fst ` set d"
    and d': "d' = prune keep_reports (d @ [(name, ?body)])"
    by (auto simp: write_report_def Let_def dest: link_free_name split: option.splits)
  have dis: "distinct (map fst (d @ [(name, ?body)]))" using d name(2) by simp
  have suf: "has_suffix name ''.json''" by (auto simp: name(1) sequence_name_def has_suffix_iff)
  have "map_of d name = None" using name(2) by (simp add: map_of_eq_None_iff)
  then have "map_of (d @ [(name, ?body)]) = (map_of d)(name \<mapsto> ?body)"
    by (simp add: fun_eq_iff map_add_def split: option.split)
  with prune_keeping [OF dis, of keep_reports]
  have "map_of d' = keeping keep_reports ((map_of d)(name \<mapsto> ?body))" by (simp only: d')
  moreover have "length (report_names d') \<le> keep_reports"
    using report_names_prune(2) [OF dis, of keep_reports] by (simp add: d')
  ultimately show ?thesis
    using latest_report_add [OF dis suf, of keep_reports decode] name(2) by (simp add: d' keep_reports_def)
qed

definition example_report :: report where
  "example_report = \<lparr>rp_host = ''h'', rp_attempted = [], rp_applied = [], rp_last_good = [], rp_manifest = [], rp_error = [],
     rp_outcome = ''converged'', rp_host_state = ''converged'', rp_mode = ''enforce'', rp_started = 0, rp_finished = 5,
     rp_duration_ms = 0, rp_counts = tally [], rp_resources = []\<rparr>"

theorem report_written_witness:
  "latest_report (\<lambda>_. Some example_report) (snd (write_report (\<lambda>_. ''t'') (\<lambda>_. ''x'') [] example_report))
     = Some (Some example_report)"
proof -
  let ?w = "write_report (\<lambda>_. ''t'') (\<lambda>_. ''x'') [] example_report"
  have "fst ?w = Some ''t-000005-00000000000000000000.json''" by code_simp
  then have w: "?w = (Some ''t-000005-00000000000000000000.json'', snd ?w)" by (metis prod.collapse)
  show ?thesis using report_written [OF _ w, of "\<lambda>_. Some example_report"] by (simp add: reports_in_def)
qed

end
