(* ===== verification/Metrics.thy ===== *)
theory Metrics
  imports Report
begin

text \<open>
  Package \<open>internal/metrics\<close>: what the agent has seen, and the exposition text rendered from it.
  The lock of the registry is left out, since every operation holds it throughout. Times are
  nanoseconds, \<open>None\<close> the zero time; how a fraction of seconds is printed is a parameter.
\<close>

section \<open>Definitions\<close>

definition host_states :: "string list" where
  "host_states = [''converged'', ''drifted'', ''degraded'', ''failed'', ''awaiting-reboot'', ''unknown'']"

definition resource_states :: "string list" where
  "resource_states = [''converged'', ''drifted'', ''failed'', ''blocked'', ''skipped'']"

record registry =
  rg_cfg :: config
  rg_offset :: int
  rg_latest :: "report option"
  rg_last_error :: string
  rg_passes :: "(string \<times> nat) list"
  rg_failures :: nat
  rg_revisions_refused :: "(string \<times> nat) list"
  rg_resources_refused :: "(string \<times> nat) list"
  rg_last_attempt :: "int option"
  rg_last_success :: "int option"
  rg_duration :: int
  rg_reboot :: bool
  rg_signers :: "string list"
  rg_baseline :: bool

definition new_registry :: "config \<Rightarrow> registry" where
  "new_registry cfg = \<lparr>rg_cfg = cfg, rg_offset = 0, rg_latest = None, rg_last_error = [], rg_passes = [],
     rg_failures = 0, rg_revisions_refused = [], rg_resources_refused = [], rg_last_attempt = None,
     rg_last_success = None, rg_duration = 0, rg_reboot = False, rg_signers = [], rg_baseline = False\<rparr>"

definition count_of :: "(string \<times> nat) list \<Rightarrow> string \<Rightarrow> nat" where
  "count_of m k = (case map_of m k of Some n \<Rightarrow> n | None \<Rightarrow> 0)"

definition bump :: "string \<Rightarrow> (string \<times> nat) list \<Rightarrow> (string \<times> nat) list" where
  "bump k m = AList.update k (count_of m k + 1) m"

definition set_offset :: "int \<Rightarrow> registry \<Rightarrow> registry" where
  "set_offset offset r = r\<lparr>rg_offset := offset\<rparr>"

definition set_trust :: "string list \<Rightarrow> bool \<Rightarrow> registry \<Rightarrow> registry" where
  "set_trust keys baseline r = r\<lparr>rg_signers := keys, rg_baseline := baseline\<rparr>"

definition registry_pass :: "report \<Rightarrow> nat \<Rightarrow> registry \<Rightarrow> registry" where
  "registry_pass rep fs r =
     r\<lparr>rg_latest := Some rep, rg_last_error := rp_error rep, rg_failures := fs,
       rg_last_attempt := Some (rp_started rep), rg_duration := rp_duration_ms rep * 1000000,
       rg_passes := bump (rp_outcome rep) (rg_passes r),
       rg_last_success := (if rp_outcome rep \<noteq> outcome_string OutcomeFailed then Some (rp_finished rep)
                           else rg_last_success r),
       rg_reboot := (rp_host_state rep = ''awaiting-reboot'')\<rparr>"

definition registry_attempt :: "int \<Rightarrow> registry \<Rightarrow> registry" where
  "registry_attempt at r = r\<lparr>rg_last_attempt := Some at\<rparr>"

definition registry_failure :: "string \<Rightarrow> nat \<Rightarrow> registry \<Rightarrow> registry" where
  "registry_failure reason fs r =
     r\<lparr>rg_passes := bump (outcome_string OutcomeFailed) (rg_passes r), rg_failures := fs, rg_last_error := reason\<rparr>"

definition refuse_revision :: "string \<Rightarrow> registry \<Rightarrow> registry" where
  "refuse_revision reason r = r\<lparr>rg_revisions_refused := bump reason (rg_revisions_refused r)\<rparr>"

definition refuse_resource :: "string \<Rightarrow> registry \<Rightarrow> registry" where
  "refuse_resource reason r = r\<lparr>rg_resources_refused := bump reason (rg_resources_refused r)\<rparr>"

subsection \<open>The exposition text\<close>

record writer =
  wr_text :: string
  wr_seen :: "string list"

definition escape_char :: "char \<Rightarrow> string" where
  "escape_char c =
     (if c = CHR 0x5C then [CHR 0x5C, CHR 0x5C]
      else if c = CHR 0x22 then [CHR 0x5C, CHR 0x22]
      else if c = CHR 0x0A then [CHR 0x5C, CHR ''n'']
      else [c])"

definition escape :: "string \<Rightarrow> string" where
  "escape value = concat (map escape_char value)"

definition write_help :: "string \<Rightarrow> string \<Rightarrow> string \<Rightarrow> writer \<Rightarrow> writer" where
  "write_help name kind help w =
     (if name \<in> set (wr_seen w) then w
      else w\<lparr>wr_seen := name # wr_seen w,
             wr_text := wr_text w @ ''# HELP '' @ name @ '' '' @ help @ ''.'' @ [CHR 0x0A]
               @ ''# TYPE '' @ name @ '' '' @ kind @ [CHR 0x0A]\<rparr>)"

definition label_text :: "string \<times> string \<Rightarrow> string" where
  "label_text l = fst l @ ''='' @ [CHR 0x22] @ escape (snd l) @ [CHR 0x22]"

definition write_sample :: "string \<Rightarrow> (string \<times> string) list \<Rightarrow> string \<Rightarrow> writer \<Rightarrow> writer" where
  "write_sample name ls value w =
     w\<lparr>wr_text := wr_text w @
         (if ls = [] then name @ '' '' @ value @ [CHR 0x0A]
          else name @ ''{'' @ join_with '','' (map label_text (go_sort (\<lambda>a b. fst a < fst b) ls)) @ ''} '' @ value @ [CHR 0x0A])\<rparr>"

definition write_gauge :: "string \<Rightarrow> string \<Rightarrow> string \<Rightarrow> writer \<Rightarrow> writer" where
  "write_gauge name help value w = write_sample name [] value (write_help name ''gauge'' help w)"

definition bool_value :: "bool \<Rightarrow> string" where
  "bool_value yes = (if yes then ''1'' else ''0'')"

definition timestamp :: "(int \<Rightarrow> string) \<Rightarrow> int option \<Rightarrow> string" where
  "timestamp unix_text at = (case at of None \<Rightarrow> ''0'' | Some t \<Rightarrow> unix_text t)"

definition count_for :: "report_counts \<Rightarrow> string \<Rightarrow> nat" where
  "count_for c name =
     (if name = ''converged'' then pc_converged c
      else if name = ''drifted'' then pc_drifted c
      else if name = ''failed'' then pc_failed c
      else if name = ''blocked'' then pc_blocked c
      else if name = ''skipped'' then pc_skipped c
      else 0)"

definition require_string :: "require_kind \<Rightarrow> string" where
  "require_string r =
     (case r of RequireSignedCommit \<Rightarrow> ''signed-commit'' | RequireSignedTag \<Rightarrow> ''signed-tag''
      | RequireNone \<Rightarrow> ''none'' | RequireOther q \<Rightarrow> q)"

definition registry_mode :: "registry \<Rightarrow> string" where
  "registry_mode r =
     (case rg_latest r of
        Some rep \<Rightarrow> if rp_mode rep \<noteq> [] then rp_mode rep else rc_mode (cfg_reconciliation (rg_cfg r))
      | None \<Rightarrow> rc_mode (cfg_reconciliation (rg_cfg r)))"

text \<open>One sample for each of a list of label values.\<close>

definition write_each :: "string \<Rightarrow> string \<Rightarrow> string list \<Rightarrow> (string \<Rightarrow> string) \<Rightarrow> writer \<Rightarrow> writer" where
  "write_each name label values value_of w =
     foldl (\<lambda>w v. write_sample name [(label, v)] (value_of v) w) w values"

definition render_revisions :: "(int \<Rightarrow> string) \<Rightarrow> registry \<Rightarrow> writer \<Rightarrow> writer" where
  "render_revisions unix_text r w =
     (let attempted = (case rg_latest r of Some rep \<Rightarrow> rp_attempted rep | None \<Rightarrow> []);
          applied = (case rg_latest r of Some rep \<Rightarrow> rp_applied rep | None \<Rightarrow> []);
          last_good = (case rg_latest r of Some rep \<Rightarrow> rp_last_good rep | None \<Rightarrow> []);
          manifest = (case rg_latest r of Some rep \<Rightarrow> rp_manifest rep | None \<Rightarrow> []);
          at = timestamp unix_text (map_option rp_finished (rg_latest r));
          w = write_gauge ''datum_revision_attempted_timestamp_seconds'' ''Unix time the attempted revision was read'' at w;
          w = (if attempted = [] then w
               else write_sample ''datum_revision_attempted_info'' [(''revision'', attempted)] ''1''
                 (write_help ''datum_revision_attempted_info'' ''gauge'' ''The revision last attempted'' w));
          w = write_gauge ''datum_revision_applied_timestamp_seconds'' ''Unix time the applied revision was reconciled'' at w;
          w = (if applied = [] then w
               else write_sample ''datum_revision_applied_info'' [(''revision'', applied), (''manifest'', manifest)] ''1''
                 (write_help ''datum_revision_applied_info'' ''gauge'' ''The revision being reconciled'' w))
      in if last_good = [] then w
         else write_sample ''datum_last_known_good_info'' [(''revision'', last_good)] ''1''
           (write_help ''datum_last_known_good_info'' ''gauge'' ''Newest revision that resolved and validated''
             (write_gauge ''datum_last_known_good_timestamp_seconds''
               ''Unix time the last known good revision was accepted'' at w)))"

definition render_trust :: "registry \<Rightarrow> writer \<Rightarrow> writer" where
  "render_trust r w =
     (let w = write_each ''datum_trust_require'' ''mode'' [''signed-commit'', ''signed-tag'', ''none'']
            (\<lambda>m. bool_value (require_string (tc_require (cfg_trust (rg_cfg r))) = m))
            (write_help ''datum_trust_require'' ''gauge'' ''Configured trust.require, 1 for the active mode'' w);
          w = (if rg_signers r = [] then w
               else write_each ''datum_trust_signer_info'' ''keyid'' (rg_signers r) (\<lambda>_. ''1'')
                 (write_help ''datum_trust_signer_info'' ''gauge'' ''One series per trusted signing key'' w));
          w = write_gauge ''datum_trust_baseline_present'' ''Whether the host started with a baseline revision''
            (bool_value (rg_baseline r)) w;
          w = write_each ''datum_revisions_refused_total'' ''reason''
            [''unsigned'', ''untrusted-signer'', ''ambiguous-tag'', ''not-descendant'', ''unsupported-schema'']
            (\<lambda>reason. format_nat (count_of (rg_revisions_refused r) reason))
            (write_help ''datum_revisions_refused_total'' ''counter'' ''Revisions refused, by control'' w)
      in write_each ''datum_resources_refused_total'' ''reason''
           [''trust-anchor'', ''hard-link'', ''untrusted-path'', ''unsafe-mode'']
           (\<lambda>reason. format_nat (count_of (rg_resources_refused r) reason))
           (write_help ''datum_resources_refused_total'' ''counter'' ''Resources refused, by control'' w))"

text \<open>\<open>seconds_text\<close> prints a duration in seconds, \<open>unix_text\<close> a time.\<close>

definition render_registry :: "(int \<Rightarrow> string) \<Rightarrow> (int \<Rightarrow> string) \<Rightarrow> string \<Rightarrow> string \<Rightarrow> registry \<Rightarrow> string" where
  "render_registry seconds_text unix_text version build_rev r =
     (let w = \<lparr>wr_text = [], wr_seen = []\<rparr>;
          w = write_sample ''datum_agent_info'' [(''version'', version), (''revision'', build_rev)] ''1''
            (write_help ''datum_agent_info'' ''gauge'' ''The agent build running on this host'' w);
          w = write_gauge ''datum_pass_last_attempt_timestamp_seconds'' ''Unix time of the last pass attempt''
            (timestamp unix_text (rg_last_attempt r)) w;
          w = write_gauge ''datum_pass_last_success_timestamp_seconds'' ''Unix time of the last pass that did not fail''
            (timestamp unix_text (rg_last_success r)) w;
          w = write_gauge ''datum_pass_duration_seconds'' ''Duration of the last pass'' (seconds_text (rg_duration r)) w;
          w = write_each ''datum_passes_total'' ''outcome'' (map outcome_string all_outcomes)
            (\<lambda>o'. format_nat (count_of (rg_passes r) o'))
            (write_help ''datum_passes_total'' ''counter'' ''Passes by outcome'' w);
          current = (case rg_latest r of Some rep \<Rightarrow> rp_host_state rep | None \<Rightarrow> []);
          w = write_each ''datum_host_state'' ''state'' host_states (\<lambda>name. bool_value (name = current))
            (write_help ''datum_host_state'' ''gauge'' ''Current host state, 1 for the active state'' w);
          w = write_gauge ''datum_reboot_required'' ''Whether the host is waiting for a reboot'' (bool_value (rg_reboot r)) w;
          w = write_each ''datum_mode'' ''mode'' [''enforce'', ''observe''] (\<lambda>m. bool_value (registry_mode r = m))
            (write_help ''datum_mode'' ''gauge'' ''Active reconciliation mode, 1 for the active mode'' w);
          counts = (case rg_latest r of Some rep \<Rightarrow> rp_counts rep | None \<Rightarrow> tally []);
          w = write_gauge ''datum_resources_total'' ''Resources in the effective manifest'' (format_nat (pc_total counts)) w;
          w = write_each ''datum_resources'' ''state'' resource_states (\<lambda>name. format_nat (count_for counts name))
            (write_help ''datum_resources'' ''gauge'' ''Resources by state after the last pass'' w);
          w = render_trust r (render_revisions unix_text r w);
          w = write_gauge ''datum_pass_consecutive_failures'' ''Consecutive failed passes'' (format_nat (rg_failures r)) w;
          w = write_gauge ''datum_schedule_offset_seconds'' ''This host's offset within the reconciliation interval''
            (seconds_text (rg_offset r)) w
      in wr_text w)"

section \<open>Lemmas\<close>

lemma count_of_bump [simp]: "count_of (bump k m) k' = count_of m k' + (if k' = k then 1 else 0)"
  by (simp add: count_of_def bump_def update_conv')

lemma count_of_Nil [simp]: "count_of [] k = 0"
  by (simp add: count_of_def)

lemma registry_pass_simps [simp]:
  "rg_failures (registry_pass rep n r) = n" "rg_offset (registry_pass rep n r) = rg_offset r"
  "rg_passes (registry_pass rep n r) = bump (rp_outcome rep) (rg_passes r)"
  by (simp_all add: registry_pass_def)

lemma registry_failure_simps [simp]:
  "rg_failures (registry_failure reason n r) = n" "rg_offset (registry_failure reason n r) = rg_offset r"
  "rg_passes (registry_failure reason n r) = bump (outcome_string OutcomeFailed) (rg_passes r)"
  by (simp_all add: registry_failure_def)

text \<open>A label value stays on its line, and its text determines it.\<close>

lemma escape_one_line: "CHR 0x0A \<notin> set (escape v)"
  by (induction v) (auto simp: escape_def escape_char_def)

lemma escape_inj: "escape v = escape w \<Longrightarrow> v = w"
proof (induction v arbitrary: w)
  case Nil
  then show ?case by (cases w) (auto simp: escape_def escape_char_def split: if_splits)
next
  case (Cons c v)
  then obtain d w' where w: "w = d # w'" by (cases w) (auto simp: escape_def escape_char_def split: if_splits)
  with Cons.prems have "c = d \<and> escape v = escape w'"
    by (auto simp: escape_def escape_char_def split: if_splits)
  with Cons.IH w show ?case by blast
qed

end
