(* ===== verification/Agent.thy ===== *)
theory Agent
  imports Metrics Schedule
begin

text \<open>
  Packages \<open>internal/lock\<close> and \<open>internal/agent\<close>: the lock that serialises passes against one
  host, as a step relation over the processes of the host, and the resident agent, which takes
  the lock at every tick, runs a pass and records what came of it. What the kernel, the clock
  and the pass answer is an input of each step; the log and the textfile are left out.
\<close>

section \<open>Definitions\<close>

subsection \<open>The pass lock (lock.go)\<close>

text \<open>
  A process has no lock, has the kernel's lock (the number of the one before it still in the
  file), has emptied the file, or holds the pass lock. The owner is the kernel's; the file has
  the number that can be read from it, if any. A lock that is waited for is taken once it is
  free; closing the file, dying included, drops it.
\<close>

datatype phase = NoLock | Locking | Emptied | HoldsLock

record lock_state =
  lk_phase :: "nat \<Rightarrow> phase"
  lk_owner :: "nat option"
  lk_file :: "nat option"

definition unlocked :: lock_state where
  "unlocked = \<lparr>lk_phase = \<lambda>p. NoLock, lk_owner = None, lk_file = None\<rparr>"

definition enter :: "nat \<Rightarrow> phase \<Rightarrow> lock_state \<Rightarrow> lock_state" where
  "enter p ph s = s\<lparr>lk_phase := (lk_phase s)(p := ph)\<rparr>"

datatype lock_event = Took nat | Refused nat "nat option" | Truncated nat | Recorded nat
  | NotRecorded nat | Released nat | Died nat

inductive lock_step :: "lock_state \<Rightarrow> lock_event \<Rightarrow> lock_state \<Rightarrow> bool" where
  took: "lk_phase s p = NoLock \<Longrightarrow> lk_owner s = None \<Longrightarrow>
    lock_step s (Took p) (enter p Locking s\<lparr>lk_owner := Some p\<rparr>)"
| refused: "lk_phase s p = NoLock \<Longrightarrow> lk_owner s = Some q \<Longrightarrow> lock_step s (Refused p (lk_file s)) s"
| truncated: "lk_phase s p = Locking \<Longrightarrow> lock_step s (Truncated p) (enter p Emptied s\<lparr>lk_file := None\<rparr>)"
| recorded: "lk_phase s p = Emptied \<Longrightarrow> lock_step s (Recorded p) (enter p HoldsLock s\<lparr>lk_file := Some p\<rparr>)"
| not_truncated: "lk_phase s p = Locking \<Longrightarrow> lock_step s (NotRecorded p) (enter p NoLock s\<lparr>lk_owner := None\<rparr>)"
| not_recorded: "lk_phase s p = Emptied \<Longrightarrow>
    lock_step s (NotRecorded p) (enter p NoLock s\<lparr>lk_owner := None, lk_file := partly\<rparr>)"
| released: "lk_phase s p = HoldsLock \<Longrightarrow> lock_step s (Released p) (enter p NoLock s\<lparr>lk_owner := None\<rparr>)"
| died: "lk_phase s p \<noteq> NoLock \<Longrightarrow> lock_step s (Died p) (enter p NoLock s\<lparr>lk_owner := None\<rparr>)"

inductive lock_run :: "lock_state \<Rightarrow> lock_event list \<Rightarrow> lock_state \<Rightarrow> bool" where
  lock_start: "lock_run s [] s"
| lock_more: "lock_run s es s' \<Longrightarrow> lock_step s' e s'' \<Longrightarrow> lock_run s (es @ [e]) s''"


subsection \<open>The agent (agent.go)\<close>

record agent =
  ag_cfg :: config
  ag_schedule :: schedule
  ag_registry :: registry
  ag_failures :: nat

text \<open>\<open>latest\<close> is the report on disk, if one could be read.\<close>

definition new_agent :: "(string \<Rightarrow> 64 word) \<Rightarrow> config \<Rightarrow> registry \<Rightarrow> report option \<Rightarrow> agent" where
  "new_agent host_hash cfg reg latest =
     (let s = new_schedule host_hash (cfg_host cfg) (word_of_int (rc_interval (cfg_reconciliation cfg)))
                (word_of_int (splay_or (cfg_reconciliation cfg)));
          reg = set_offset (sint (sd_offset s)) reg;
          reg = (case latest of None \<Rightarrow> reg | Some rep \<Rightarrow> registry_pass rep 0 reg)
      in \<lparr>ag_cfg = cfg, ag_schedule = s, ag_registry = reg, ag_failures = 0\<rparr>)"

definition agent_pass :: "report \<Rightarrow> failure \<Rightarrow> agent \<Rightarrow> agent" where
  "agent_pass rep f a =
     (let n = (if f = NoFailure then 0 else ag_failures a + 1)
      in a\<lparr>ag_failures := n, ag_schedule := record_pass f (ag_schedule a),
           ag_registry := registry_pass rep n (ag_registry a)\<rparr>)"

definition agent_failure :: "failure \<Rightarrow> string \<Rightarrow> agent \<Rightarrow> agent" where
  "agent_failure f reason a =
     (let f = (if f = NoFailure then Local else f)
      in a\<lparr>ag_failures := ag_failures a + 1, ag_schedule := record_pass f (ag_schedule a),
           ag_registry := registry_failure reason (ag_failures a + 1) (ag_registry a)\<rparr>)"

text \<open>
  A tick: the lock is held by another, cannot be taken for another reason, or is taken at a
  time and the pass ends with a report or an error, the contexts of the agent and of the pass
  having ended or not. On its way the pass notes in the registry what it refused and trusts.
\<close>

datatype lock_attempt = LockHeld | LockFailed string | LockTaken int

datatype pass_end = PassReport report failure | PassError failure string

datatype pass_note = RevisionRefused string | TrustSet "string list" bool

definition note_registry :: "pass_note \<Rightarrow> registry \<Rightarrow> registry" where
  "note_registry n r =
     (case n of RevisionRefused reason \<Rightarrow> refuse_revision reason r | TrustSet keys baseline \<Rightarrow> set_trust keys baseline r)"

record tick =
  tk_lock :: lock_attempt
  tk_notes :: "pass_note list"
  tk_pass :: pass_end
  tk_stopping :: bool
  tk_timed_out :: bool

definition run_once :: "(int \<Rightarrow> string) \<Rightarrow> tick \<Rightarrow> agent \<Rightarrow> agent" where
  "run_once seconds_text t a =
     (case tk_lock t of
        LockHeld \<Rightarrow> a
      | LockFailed err \<Rightarrow> agent_failure Local err a
      | LockTaken at \<Rightarrow>
          (let a = a\<lparr>ag_registry := fold note_registry (tk_notes t) (registry_attempt at (ag_registry a))\<rparr>
           in case tk_pass t of
                PassError f err \<Rightarrow>
                  if tk_stopping t then a
                  else if tk_timed_out t
                    then agent_failure f (''the pass did not finish within ''
                           @ duration_string seconds_text (rc_timeout (cfg_reconciliation (ag_cfg a)))) a
                  else agent_failure f err a
              | PassReport rep f \<Rightarrow> agent_pass rep f a))"

section \<open>Specification\<close>

text \<open>What a tick counts as, if it counts.\<close>

definition tick_result :: "tick \<Rightarrow> failure option" where
  "tick_result t =
     (case tk_lock t of
        LockHeld \<Rightarrow> None
      | LockFailed _ \<Rightarrow> Some Local
      | LockTaken _ \<Rightarrow>
          (case tk_pass t of
             PassReport rep f \<Rightarrow> Some f
           | PassError f _ \<Rightarrow> if tk_stopping t then None else Some (if f = NoFailure then Local else f)))"

definition tick_outcome :: "tick \<Rightarrow> string option" where
  "tick_outcome t =
     (case tk_lock t of
        LockHeld \<Rightarrow> None
      | LockFailed _ \<Rightarrow> Some ''failed''
      | LockTaken _ \<Rightarrow>
          (case tk_pass t of
             PassReport rep f \<Rightarrow> Some (rp_outcome rep)
           | PassError f _ \<Rightarrow> if tk_stopping t then None else Some ''failed''))"

definition failed_in_a_row :: "failure list \<Rightarrow> nat" where
  "failed_in_a_row fs = length (takeWhile (\<lambda>f. f \<noteq> NoFailure) (rev fs))"

section \<open>Lemmas\<close>

definition lock_inv :: "lock_state \<Rightarrow> bool" where
  "lock_inv s \<longleftrightarrow>
     (case lk_owner s of
        None \<Rightarrow> \<forall>p. lk_phase s p = NoLock
      | Some p \<Rightarrow> lk_phase s p \<noteq> NoLock \<and> (\<forall>q. q \<noteq> p \<longrightarrow> lk_phase s q = NoLock)
          \<and> (lk_phase s p = HoldsLock \<longrightarrow> lk_file s = Some p) \<and> (lk_phase s p = Emptied \<longrightarrow> lk_file s = None))"

lemma lock_inv_owner: "lock_inv s \<Longrightarrow> lk_phase s p \<noteq> NoLock \<Longrightarrow> lk_owner s = Some p"
  by (cases "lk_owner s") (auto simp: lock_inv_def elim!: allE [where x = p])

lemma lock_inv_step:
  assumes "lock_step s e s'" "lock_inv s"
  shows "lock_inv s'"
proof -
  have own: "lk_owner s = Some p" if "lk_phase s p \<in> {Locking, Emptied, HoldsLock}" for p
    using lock_inv_owner [OF assms(2), of p] that by auto
  from assms(1) show ?thesis
  proof (cases rule: lock_step.cases)
    case (died p)
    then show ?thesis using assms(2) lock_inv_owner [OF assms(2), of p] by (simp add: lock_inv_def enter_def)
  qed (use assms(2) own in \<open>force simp: lock_inv_def enter_def\<close>)+
qed

lemma lock_inv_run: "lock_run s es s' \<Longrightarrow> lock_inv s \<Longrightarrow> lock_inv s'"
  by (induction rule: lock_run.induct) (auto dest: lock_inv_step)

lemma lock_inv_unlocked [simp]: "lock_inv unlocked"
  by (simp add: lock_inv_def unlocked_def)

text \<open>What a pass notes leaves the counts of passes alone.\<close>

lemma notes_keep [simp]:
  "rg_passes (fold note_registry ns r) = rg_passes r" "rg_failures (fold note_registry ns r) = rg_failures r"
  "rg_offset (fold note_registry ns r) = rg_offset r"
  by (induction ns arbitrary: r) (auto simp: note_registry_def refuse_revision_def set_trust_def split: pass_note.split)

definition agent_inv :: "agent \<Rightarrow> (string \<Rightarrow> nat) \<Rightarrow> schedule \<Rightarrow> tick list \<Rightarrow> bool" where
  "agent_inv a seed s ts \<longleftrightarrow>
     ag_schedule a = foldl (\<lambda>s f. record_pass f s) s (List.map_filter tick_result ts)
     \<and> ag_failures a = failed_in_a_row (List.map_filter tick_result ts)
     \<and> rg_failures (ag_registry a) = ag_failures a
     \<and> rg_offset (ag_registry a) = sint (sd_offset s)
     \<and> (\<forall>o'. count_of (rg_passes (ag_registry a)) o'
          = seed o' + count_list (List.map_filter tick_outcome ts) o')"

lemma map_filter_snoc: "List.map_filter f (xs @ [x]) = List.map_filter f xs @ (case f x of None \<Rightarrow> [] | Some y \<Rightarrow> [y])"
  by (simp add: List.map_filter_def split: option.split)

lemma failed_in_a_row_snoc [simp]:
  "failed_in_a_row [] = 0" "failed_in_a_row (fs @ [f]) = (if f = NoFailure then 0 else failed_in_a_row fs + 1)"
  by (simp_all add: failed_in_a_row_def)

lemma agent_inv_tick: "agent_inv a seed s ts \<Longrightarrow> agent_inv (run_once tx t a) seed s (ts @ [t])"
  by (cases "tk_lock t"; cases "tk_pass t")
    (auto simp: agent_inv_def run_once_def tick_result_def tick_outcome_def map_filter_snoc agent_pass_def
       agent_failure_def registry_attempt_def Let_def outcome_string_def)

lemma agent_inv_run: "agent_inv a seed s [] \<Longrightarrow> agent_inv (foldl (\<lambda>a t. run_once tx t a) a ts) seed s ts"
  by (induction ts rule: rev_induct) (simp_all add: agent_inv_tick)

section \<open>Properties\<close>

text \<open>
  Passes exclude each other. However processes take, are refused, give back and die with
  the lock, from a state where nobody has it, at most one process has it at any time, and while
  a process is in its pass the file names that process, so whoever is refused then is told who
  is in the way.
\<close>

theorem lock_exclusive:
  assumes "lock_run unlocked es s"
  shows "(lk_phase s p \<noteq> NoLock \<and> lk_phase s q \<noteq> NoLock \<longrightarrow> p = q)
    \<and> (lk_phase s p = HoldsLock \<and> lock_step s e s' \<longrightarrow>
         (\<forall>q. e \<noteq> Took q) \<and> (\<forall>q told. e = Refused q told \<longrightarrow> told = Some p))"
proof -
  have inv: "lock_inv s" using lock_inv_run [OF assms] by simp
  moreover have "(\<forall>q. e \<noteq> Took q) \<and> (\<forall>q told. e = Refused q told \<longrightarrow> told = Some p)"
    if h: "lk_phase s p = HoldsLock" and st: "lock_step s e s'"
  proof -
    have o: "lk_owner s = Some p" using lock_inv_owner [OF inv, of p] h by simp
    then have f: "lk_file s = Some p" using inv h by (simp add: lock_inv_def)
    from st show ?thesis by (cases rule: lock_step.cases) (use o f in auto)
  qed
  ultimately show ?thesis using lock_inv_owner [OF inv] by (metis option.inject)
qed

lemma example_lock_run:
  "lock_run unlocked [Took 7, Truncated 7, Recorded 7]
     (enter 7 HoldsLock (enter 7 Emptied (enter 7 Locking unlocked\<lparr>lk_owner := Some 7\<rparr>)\<lparr>lk_file := None\<rparr>)\<lparr>lk_file := Some 7\<rparr>)"
proof -
  let ?a = "enter 7 Locking unlocked\<lparr>lk_owner := Some 7\<rparr>" and ?e = "[] :: lock_event list"
  let ?b = "enter 7 Emptied ?a\<lparr>lk_file := None\<rparr>" and ?c = "enter 7 HoldsLock"
  have "lock_run unlocked (?e @ [Took 7]) ?a"
    by (rule lock_more [OF lock_start took]) (simp_all add: unlocked_def)
  then have "lock_run unlocked ((?e @ [Took 7]) @ [Truncated 7]) ?b"
    by (rule lock_more [OF _ truncated]) (simp add: enter_def)
  then have "lock_run unlocked (((?e @ [Took 7]) @ [Truncated 7]) @ [Recorded 7]) (?c ?b\<lparr>lk_file := Some 7\<rparr>)"
    by (rule lock_more [OF _ recorded]) (simp add: enter_def)
  then show ?thesis by simp
qed

theorem lock_exclusive_witness:
  "lk_phase (enter 7 HoldsLock (enter 7 Emptied (enter 7 Locking unlocked\<lparr>lk_owner := Some 7\<rparr>)\<lparr>lk_file := None\<rparr>)\<lparr>lk_file := Some 7\<rparr>) 8
     = NoLock"
  using lock_exclusive [OF example_lock_run, of 7 8] by (auto simp: enter_def)

text \<open>
  C31: the history of the agent. Whatever ticks came, the schedule has recorded the failure of
  every pass that counts, in order, the gauge is the number of failed passes since the last one
  that did not fail, the offset exported is the one scheduled by, and the counter of an outcome
  is the number of passes that ended so, and one more if the report of a pass before the start
  of the agent was read: that pass is counted again by every agent that starts after it.
\<close>

theorem agent_history:
  fixes ts cfg latest host_hash seconds_text
  defines "fs \<equiv> List.map_filter tick_result ts"
  defines "a \<equiv> foldl (\<lambda>a t. run_once seconds_text t a) (new_agent host_hash cfg (new_registry cfg) latest) ts"
  defines "s \<equiv> new_schedule host_hash (cfg_host cfg) (word_of_int (rc_interval (cfg_reconciliation cfg)))
                 (word_of_int (splay_or (cfg_reconciliation cfg)))"
  shows "ag_schedule a = foldl (\<lambda>s f. record_pass f s) s fs
    \<and> sd_upstream_failures (ag_schedule a) = min 3 (int (trailing_failures fs))
    \<and> rg_failures (ag_registry a) = failed_in_a_row fs
    \<and> rg_offset (ag_registry a) = sint (sd_offset (ag_schedule a))
    \<and> count_of (rg_passes (ag_registry a)) o'
        = count_list (List.map_filter tick_outcome ts) o' + (if map_option rp_outcome latest = Some o' then 1 else 0)"
proof -
  let ?seed = "\<lambda>o'. if map_option rp_outcome latest = Some o' then 1 else 0"
  have "agent_inv (new_agent host_hash cfg (new_registry cfg) latest) ?seed s []"
    by (auto simp: agent_inv_def new_agent_def s_def Let_def new_registry_def set_offset_def List.map_filter_def
        split: option.splits)
  then have inv: "agent_inv a ?seed s ts" unfolding a_def by (rule agent_inv_run)
  have "valid_schedule s" "sd_upstream_failures s = 0" using new_schedule_valid unfolding s_def by blast+
  with record_passes [of s fs] inv show ?thesis by (simp add: agent_inv_def fs_def)
qed

end
