(* ===== verification/Parse.thy ===== *)
theory Parse
  imports Canonical Match Paths
begin

text \<open>
  Reading documents (\<open>internal/document/parse.go\<close> and \<open>mapping.go\<close>): a file is a stream of
  YAML nodes, each of which declares its schema version, its type and its name and becomes a
  Fleet, a Host, a Layer or a resource. The decoder is a library: a stream is what it yields,
  the nodes before the end of the file or before its error. Every problem is added to the
  error list and reading goes on.
\<close>

section \<open>Definitions\<close>

subsection \<open>YAML nodes and mappings (mapping.go)\<close>

datatype node_kind = NoKind | DocumentNode | SequenceNode | MappingNode | ScalarNode | AliasNode

text \<open>The style is a set of bits, as in the library: 1 tagged, 2 double quoted, 4 single quoted.\<close>

datatype yaml_node =
  Node (n_kind: node_kind) (n_style: nat) (n_tag: string) (n_value: string) (n_line: int)
    (n_content: "yaml_node list")

record yaml_stream =
  ys_nodes :: "yaml_node list"
  ys_error :: "string option"

fun pairs :: "'a list \<Rightarrow> ('a \<times> 'a) list" where
  "pairs (k # v # rest) = (k, v) # pairs rest"
| "pairs _ = []"

record mapping =
  mp_file :: string
  mp_root :: yaml_node
  mp_keys :: "(string \<times> yaml_node) list"

definition new_mapping :: "string \<Rightarrow> yaml_node \<Rightarrow> mapping" where
  "new_mapping file node =
     \<lparr>mp_file = file, mp_root = node,
      mp_keys = foldl (\<lambda>m (key, v). if n_kind key = ScalarNode then AList.update (n_value key) v m else m)
        [] (pairs (n_content node))\<rparr>"

definition node_position :: "string \<Rightarrow> yaml_node \<Rightarrow> position" where
  "node_position file node = \<lparr>pos_file = file, pos_line = n_line node\<rparr>"

definition parse_error :: "errors \<Rightarrow> string \<Rightarrow> yaml_node \<Rightarrow> parse_msg \<Rightarrow> errors" where
  "parse_error errs file node m = add_error errs (node_position file node) (ParseMsg m)"

definition mapping_node :: "mapping \<Rightarrow> string \<Rightarrow> yaml_node option" where
  "mapping_node m key = map_of (mp_keys m) key"

definition mapping_text :: "mapping \<Rightarrow> string \<Rightarrow> string option" where
  "mapping_text m key =
     (case map_of (mp_keys m) key of
        Some v \<Rightarrow> if n_kind v = ScalarNode then Some (n_value v) else None
      | None \<Rightarrow> None)"

fun sequence_items :: "string \<Rightarrow> string \<Rightarrow> yaml_node list \<Rightarrow> errors \<Rightarrow> yaml_node list \<times> errors" where
  "sequence_items file key [] errs = ([], errs)"
| "sequence_items file key (item # items) errs =
     (if n_kind item \<noteq> ScalarNode
      then sequence_items file key items (parse_error errs file item (EntriesNotStrings key))
      else let (rest, errs) = sequence_items file key items errs in (item # rest, errs))"

definition mapping_sequence :: "mapping \<Rightarrow> string \<Rightarrow> errors \<Rightarrow> yaml_node list \<times> errors" where
  "mapping_sequence m key errs =
     (case map_of (mp_keys m) key of
        None \<Rightarrow> ([], errs)
      | Some v \<Rightarrow>
          if n_kind v \<noteq> SequenceNode then ([], parse_error errs (mp_file m) v (NotAList key))
          else sequence_items (mp_file m) key (n_content v) errs)"

definition mapping_reject :: "mapping \<Rightarrow> string \<Rightarrow> string list \<Rightarrow> errors \<Rightarrow> errors" where
  "mapping_reject m doc_type allowed_keys errs =
     foldl (\<lambda>errs (key, _).
       if n_kind key \<noteq> ScalarNode \<or> n_value key \<in> set allowed_keys then errs
       else parse_error errs (mp_file m) key (UnknownField doc_type (n_value key)))
       errs (pairs (n_content (mp_root m)))"

subsection \<open>Values (readValue, readReferences, readStringMap, readStringListMap)\<close>

definition quoted_style :: "yaml_node \<Rightarrow> bool" where
  "quoted_style node \<longleftrightarrow> n_style node = 4 \<or> n_style node = 2"

fun read_value :: "string \<Rightarrow> yaml_node \<Rightarrow> errors \<Rightarrow> val \<times> errors"
  and read_items :: "string \<Rightarrow> yaml_node list \<Rightarrow> errors \<Rightarrow> val list \<times> errors"
  and read_fields :: "string \<Rightarrow> yaml_node list \<Rightarrow> (string \<times> val) list \<Rightarrow> errors
    \<Rightarrow> (string \<times> val) list \<times> errors" where
  "read_value file (Node k style tag text line content) errs =
     (case k of
        ScalarNode \<Rightarrow>
          (Value KindScalar text (quoted_style (Node k style tag text line content)) [] [] [] [],
           case safe_text text of
             None \<Rightarrow> errs
           | Some e \<Rightarrow> parse_error errs file (Node k style tag text line content) (UnsafeValue e))
      | SequenceNode \<Rightarrow> let (vs, errs) = read_items file content errs in (list_val vs, errs)
      | MappingNode \<Rightarrow> let (m, errs) = read_fields file content [] errs in (map_val m, errs)
      | AliasNode \<Rightarrow> (zero_val, parse_error errs file (Node k style tag text line content) AliasNotSupported)
      | _ \<Rightarrow> (zero_val, errs))"
| "read_items file [] errs = ([], errs)"
| "read_items file (item # items) errs =
     (let (v, errs) = read_value file item errs;
          (vs, errs) = read_items file items errs
      in (v # vs, errs))"
| "read_fields file (key # field # rest) out errs =
     (if n_kind key \<noteq> ScalarNode
      then read_fields file rest out (parse_error errs file key FieldNameNotString)
      else if \<not> valid_name (n_value key)
      then read_fields file rest out (parse_error errs file key (FieldNameNotAllowed (n_value key)))
      else let (v, errs) = read_value file field errs
           in read_fields file rest (AList.update (n_value key) v out) errs)"
| "read_fields file [_] out errs = (out, errs)"
| "read_fields file [] out errs = (out, errs)"

fun read_reference_items :: "string \<Rightarrow> string \<Rightarrow> yaml_node list \<Rightarrow> errors \<Rightarrow> reference list \<times> errors" where
  "read_reference_items file key [] errs = ([], errs)"
| "read_reference_items file key (item # items) errs =
     (case parse_reference (n_value item) of
        None \<Rightarrow> read_reference_items file key items (parse_error errs file item (NotAReference key (n_value item)))
      | Some ref \<Rightarrow> let (refs, errs) = read_reference_items file key items errs in (ref # refs, errs))"

definition read_references :: "string \<Rightarrow> mapping \<Rightarrow> string \<Rightarrow> errors \<Rightarrow> reference list \<times> errors" where
  "read_references file m key errs =
     (let (items, errs) = mapping_sequence m key errs in read_reference_items file key items errs)"

definition read_string_map :: "string \<Rightarrow> yaml_node \<Rightarrow> errors \<Rightarrow> (string \<times> string) list \<times> errors" where
  "read_string_map file node errs =
     (if n_kind node \<noteq> MappingNode then ([], parse_error errs file node ExpectedLabelMap)
      else foldl (\<lambda>(out, errs) (key, v).
        if \<not> valid_label_key (n_value key) then (out, parse_error errs file key (LabelKeyNotAllowed (n_value key)))
        else if n_kind v \<noteq> ScalarNode then (out, parse_error errs file key (LabelNotString (n_value key)))
        else (AList.update (n_value key) (n_value v) out, errs)) ([], errs) (pairs (n_content node)))"

definition read_string_list_map :: "string \<Rightarrow> yaml_node \<Rightarrow> errors \<Rightarrow> (string \<times> string list) list \<times> errors" where
  "read_string_list_map file node errs =
     (if n_kind node \<noteq> MappingNode then ([], parse_error errs file node ExpectedLabelListMap)
      else foldl (\<lambda>(out, errs) (key, v).
        if \<not> valid_label_key (n_value key) then (out, parse_error errs file key (LabelKeyNotAllowed (n_value key)))
        else if n_kind v \<noteq> SequenceNode then (out, parse_error errs file key (LabelNotList (n_value key)))
        else (AList.update (n_value key) (map n_value (n_content v)) out, errs)) ([], errs) (pairs (n_content node)))"

subsection \<open>Documents (parse.go)\<close>

record parsed =
  pa_fleets :: "fleet list"
  pa_hosts :: "host list"
  pa_layers :: "layer list"
  pa_resources :: "resource list"

definition parse_fleet :: "string \<Rightarrow> position \<Rightarrow> mapping \<Rightarrow> string \<Rightarrow> errors \<Rightarrow> fleet \<times> errors" where
  "parse_fleet name pos m version errs =
     (let errs = mapping_reject m ''Fleet'' [''datum'', ''type'', ''name'', ''exclude''] errs;
          (items, errs) = mapping_sequence m ''exclude'' errs
      in (\<lparr>fleet_name = name, fleet_exclude = map n_value items, fleet_position = pos, fleet_schema = version\<rparr>, errs))"

definition is_reserved_label :: "string \<Rightarrow> bool" where
  "is_reserved_label key \<longleftrightarrow>
     length key > length reserved_label_prefix \<and> take (length reserved_label_prefix) key = reserved_label_prefix"

definition host_label_step ::
    "string \<Rightarrow> (string \<times> string) list \<times> errors \<Rightarrow> yaml_node \<times> yaml_node \<Rightarrow> (string \<times> string) list \<times> errors" where
  "host_label_step file acc kv =
     (let (labels, errs) = acc; (key, v) = kv
      in if \<not> valid_label_key (n_value key)
           then (labels, parse_error errs file key (LabelKeyNotAllowed (n_value key)))
         else if is_reserved_label (n_value key)
           then (labels, parse_error errs file key (LabelKeyReserved (n_value key)))
         else if n_kind v \<noteq> ScalarNode then (labels, parse_error errs file key (LabelNotString (n_value key)))
         else if \<not> valid_name (n_value v) then (labels, parse_error errs file key (LabelValueNotAllowed (n_value v)))
         else (AList.update (n_value key) (n_value v) labels, errs))"

definition parse_host :: "string \<Rightarrow> position \<Rightarrow> mapping \<Rightarrow> string \<Rightarrow> errors \<Rightarrow> host \<times> errors" where
  "parse_host name pos m version errs =
     (let errs = mapping_reject m ''Host'' [''datum'', ''type'', ''name'', ''labels''] errs;
          (labels, errs) =
            (case mapping_node m ''labels'' of
               None \<Rightarrow> ([], errs)
             | Some node \<Rightarrow>
                 if n_kind node \<noteq> MappingNode then ([], parse_error errs (pos_file pos) node LabelsNotMapping)
                 else foldl (host_label_step (pos_file pos)) ([], errs) (pairs (n_content node)))
      in (\<lparr>host_name = name, host_labels = labels, host_position = pos, host_schema = version\<rparr>, errs))"

definition empty_matcher :: matcher where
  "empty_matcher = \<lparr>m_labels = [], m_oneOf = [], m_noneOf = [], m_has = [], m_missing = []\<rparr>"

definition parse_matcher :: "string \<Rightarrow> yaml_node \<Rightarrow> errors \<Rightarrow> matcher \<times> errors" where
  "parse_matcher file node errs =
     (if n_kind node \<noteq> MappingNode then (empty_matcher, parse_error errs file node MatchNotMapping)
      else
        let inner = new_mapping file node;
            errs = mapping_reject inner ''match'' [''labels'', ''oneOf'', ''noneOf'', ''has'', ''missing''] errs;
            (ls, errs) = (case mapping_node inner ''labels'' of
               None \<Rightarrow> ([], errs) | Some n \<Rightarrow> read_string_map file n errs);
            (one, errs) = (case mapping_node inner ''oneOf'' of
               None \<Rightarrow> ([], errs) | Some n \<Rightarrow> read_string_list_map file n errs);
            (none, errs) = (case mapping_node inner ''noneOf'' of
               None \<Rightarrow> ([], errs) | Some n \<Rightarrow> read_string_list_map file n errs);
            (has, errs) = mapping_sequence inner ''has'' errs;
            (miss, errs) = mapping_sequence inner ''missing'' errs
        in (\<lparr>m_labels = ls, m_oneOf = one, m_noneOf = none, m_has = map n_value has, m_missing = map n_value miss\<rparr>, errs))"

definition read_precedence :: "mapping \<Rightarrow> errors \<Rightarrow> int \<times> errors" where
  "read_precedence m errs =
     (case mapping_node m ''precedence'' of
        None \<Rightarrow> (0, errs)
      | Some node \<Rightarrow>
          if n_tag node \<noteq> ''!!int'' then (0, parse_error errs (mp_file m) node PrecedenceNotInteger)
          else case atoi (n_value node) of
            None \<Rightarrow> (0, parse_error errs (mp_file m) node (NotAnInteger (n_value node)))
          | Some n \<Rightarrow> (n, errs))"

definition parse_layer :: "string \<Rightarrow> position \<Rightarrow> mapping \<Rightarrow> string \<Rightarrow> errors \<Rightarrow> layer \<times> errors" where
  "parse_layer name pos m version errs =
     (let errs = mapping_reject m ''Layer'' [''datum'', ''type'', ''name'', ''precedence'', ''match''] errs;
          (precedence, errs) = read_precedence m errs;
          (matches, errs) = (case mapping_node m ''match'' of
             None \<Rightarrow> (empty_matcher, errs) | Some node \<Rightarrow> parse_matcher (pos_file pos) node errs)
      in (\<lparr>layer_name = name, layer_precedence = precedence, layer_match = matches, layer_position = pos,
           layer_schema = version, layer_dir = []\<rparr>, errs))"

definition parse_resource ::
    "string \<Rightarrow> string \<Rightarrow> position \<Rightarrow> mapping \<Rightarrow> string \<Rightarrow> errors \<Rightarrow> resource \<times> errors" where
  "parse_resource doc_type name pos m version errs =
     (let errs = mapping_reject m doc_type
            [''datum'', ''type'', ''name'', ''requires'', ''restartOn'', ''reloadOn'', ''desired''] errs;
          (req, errs) = read_references (pos_file pos) m ''requires'' errs;
          (restart, errs) = read_references (pos_file pos) m ''restartOn'' errs;
          (reload, errs) = read_references (pos_file pos) m ''reloadOn'' errs;
          errs = (if restart \<noteq> [] \<and> reload \<noteq> [] then add_error errs pos (ParseMsg BothTriggers) else errs);
          (desired, errs) = (case mapping_node m ''desired'' of
             None \<Rightarrow> (zero_val, add_error errs pos (ParseMsg MissingDesired))
           | Some node \<Rightarrow> read_value (pos_file pos) node errs)
      in (\<lparr>res_type = doc_type, res_name = name, res_requires = req, res_restartOn = restart,
           res_reloadOn = reload, res_desired = desired, res_position = pos, res_schema = version,
           res_layer = [], res_layerDir = []\<rparr>, errs))"

text \<open>The body of a document, once it is known to be a mapping.\<close>

definition parse_body :: "string \<Rightarrow> yaml_node \<Rightarrow> parsed \<Rightarrow> errors \<Rightarrow> parsed \<times> errors" where
  "parse_body file body out errs =
     (let m = new_mapping file body;
          pos = node_position file body;
          problem = (\<lambda>p. (out, add_error errs pos (ParseMsg p)))
      in case mapping_text m ''datum'' of
        None \<Rightarrow> problem MissingDatum
      | Some version \<Rightarrow>
          if \<not> supports_schema version then problem (UnsupportedSchema version)
          else case mapping_text m ''type'' of
            None \<Rightarrow> problem MissingType
          | Some doc_type \<Rightarrow>
              (case mapping_text m ''name'' of
                 None \<Rightarrow> problem MissingName
               | Some name \<Rightarrow>
                   if \<not> valid_name name then problem (DocumentName name)
                   else if doc_type = ''Fleet'' then
                     let (d, errs) = parse_fleet name pos m version errs
                     in (out\<lparr>pa_fleets := pa_fleets out @ [d]\<rparr>, errs)
                   else if doc_type = ''Host'' then
                     let (d, errs) = parse_host name pos m version errs
                     in (out\<lparr>pa_hosts := pa_hosts out @ [d]\<rparr>, errs)
                   else if doc_type = ''Layer'' then
                     let (d, errs) = parse_layer name pos m version errs
                     in (out\<lparr>pa_layers := pa_layers out @ [d]\<rparr>, errs)
                   else if doc_type \<notin> set resource_types then problem (UnrecognisedType doc_type)
                   else
                     let (d, errs) = parse_resource doc_type name pos m version errs
                     in (out\<lparr>pa_resources := pa_resources out @ [d]\<rparr>, errs)))"

definition parse_document :: "string \<Rightarrow> yaml_node \<Rightarrow> parsed \<Rightarrow> errors \<Rightarrow> parsed \<times> errors" where
  "parse_document file root out errs =
     (case (if n_kind root = DocumentNode then (case n_content root of [] \<Rightarrow> None | b # _ \<Rightarrow> Some b) else Some root) of
        None \<Rightarrow> (out, errs)
      | Some body \<Rightarrow>
          if n_kind body \<noteq> MappingNode
          then (out, parse_error errs file body DocumentNotMapping)
          else parse_body file body out errs)"

definition nothing_parsed :: parsed where
  "nothing_parsed = \<lparr>pa_fleets = [], pa_hosts = [], pa_layers = [], pa_resources = []\<rparr>"

definition parse_file :: "string \<Rightarrow> yaml_stream \<Rightarrow> parsed \<times> errors" where
  "parse_file file ys =
     (let (out, errs) = foldl (\<lambda>(out, errs) root.
            if n_kind root = NoKind then (out, errs) else parse_document file root out errs)
          (nothing_parsed, []) (ys_nodes ys)
      in case ys_error ys of
           None \<Rightarrow> (out, errs)
         | Some e \<Rightarrow> (out, add_error errs \<lparr>pos_file = file, pos_line = 0\<rparr> (ParseMsg (CannotReadYaml e))))"

section \<open>Specification\<close>

text \<open>What the types of the model promise of the values the reader makes.\<close>

definition good_ref :: "reference \<Rightarrow> bool" where
  "good_ref r \<longleftrightarrow> ref_type r \<in> set resource_types \<and> valid_name (ref_name r)"

fun safe_val :: "val \<Rightarrow> bool" where
  "safe_val (Value k s q l m fr d) \<longleftrightarrow>
     (case k of
        KindScalar \<Rightarrow> safe_text s = None
      | KindList \<Rightarrow> list_all id (map safe_val l)
      | KindMap \<Rightarrow> list_all id (map (\<lambda>(key, field). valid_name key \<and> safe_val field) m))"

definition good_host :: "host \<Rightarrow> bool" where
  "good_host h \<longleftrightarrow> valid_name (host_name h) \<and> supports_schema (host_schema h) \<and> wf_map (host_labels h)
     \<and> (\<forall>(key, v) \<in> set (host_labels h). valid_label_key key \<and> \<not> has_prefix key reserved_label_prefix \<and> valid_name v)"

definition good_fleet :: "fleet \<Rightarrow> bool" where
  "good_fleet f \<longleftrightarrow> valid_name (fleet_name f) \<and> supports_schema (fleet_schema f)"

definition good_layer :: "layer \<Rightarrow> bool" where
  "good_layer l \<longleftrightarrow> valid_name (layer_name l) \<and> supports_schema (layer_schema l) \<and> wf_matcher (layer_match l)
     \<and> - (2 ^ 63) \<le> layer_precedence l \<and> layer_precedence l < 2 ^ 63"

definition good_resource :: "resource \<Rightarrow> bool" where
  "good_resource r \<longleftrightarrow> good_ref (res_ref r) \<and> supports_schema (res_schema r) \<and> wf_val (res_desired r)
     \<and> list_all good_ref (res_requires r @ res_restartOn r @ res_reloadOn r)"

definition sound_resource :: "resource \<Rightarrow> bool" where
  "sound_resource r \<longleftrightarrow> safe_val (res_desired r) \<and> (res_restartOn r = [] \<or> res_reloadOn r = [])"

definition typed :: "parsed \<Rightarrow> bool" where
  "typed out \<longleftrightarrow> list_all good_fleet (pa_fleets out) \<and> list_all good_host (pa_hosts out)
     \<and> list_all good_layer (pa_layers out) \<and> list_all good_resource (pa_resources out)"

section \<open>Lemmas\<close>

lemma add_error_Nil [simp]: "add_error errs pos m \<noteq> []" "parse_error errs file node p \<noteq> []"
  by (simp_all add: add_error_def parse_error_def)

lemma atoi_bounds: "atoi s = Some n \<Longrightarrow> - (2 ^ 63) \<le> n \<and> n < 2 ^ 63"
  by (auto simp: atoi_def parse_int_def Let_def split: if_splits option.splits)

subsection \<open>Values\<close>

lemma read_items_simps [simp]:
  "read_items f (n # ns) errs =
     (fst (read_value f n errs) # fst (read_items f ns (snd (read_value f n errs))),
      snd (read_items f ns (snd (read_value f n errs))))"
  by (simp add: Let_def case_prod_beta)

lemma read_fields_simps [simp]:
  "read_fields f (key # field # rest) out errs =
     (if n_kind key \<noteq> ScalarNode then read_fields f rest out (parse_error errs f key FieldNameNotString)
      else if \<not> valid_name (n_value key)
      then read_fields f rest out (parse_error errs f key (FieldNameNotAllowed (n_value key)))
      else read_fields f rest (AList.update (n_value key) (fst (read_value f field errs)) out)
             (snd (read_value f field errs)))"
  by (simp add: Let_def case_prod_beta)

declare read_items.simps(2) [simp del]
declare read_fields.simps(1) [simp del]

lemma read_value_seq [simp]:
  "read_value f (Node k style tag s line content) errs =
     (case k of
        ScalarNode \<Rightarrow>
          (Value KindScalar s (quoted_style (Node k style tag s line content)) [] [] [] [],
           case safe_text s of
             None \<Rightarrow> errs
           | Some e \<Rightarrow> parse_error errs f (Node k style tag s line content) (UnsafeValue e))
      | SequenceNode \<Rightarrow> (list_val (fst (read_items f content errs)), snd (read_items f content errs))
      | MappingNode \<Rightarrow> (map_val (fst (read_fields f content [] errs)), snd (read_fields f content [] errs))
      | AliasNode \<Rightarrow> (zero_val, parse_error errs f (Node k style tag s line content) AliasNotSupported)
      | _ \<Rightarrow> (zero_val, errs))"
  by (cases k) (auto simp: Let_def case_prod_beta split: option.split)

declare read_value.simps [simp del]

text \<open>What holds of every value made, whatever its place.\<close>

lemma read_value_wf:
  "wf_val (fst (read_value f n errs))"
  "list_all wf_val (fst (read_items f ns errs))"
  "wf_map out \<Longrightarrow> (\<forall>(k, v) \<in> set out. wf_val v) \<Longrightarrow>
     wf_map (fst (read_fields f ns out errs)) \<and> (\<forall>(k, v) \<in> set (fst (read_fields f ns out errs)). wf_val v)"
proof (induction f n errs and f ns errs and f ns out errs
    rule: read_value_read_items_read_fields.induct)
  case (1 f k style tag s line content errs)
  then show ?case by (cases k) (auto simp: list_all_iff)
next
  case (3 f item items errs)
  show ?case using 3(1) 3(2) [OF refl prod.collapse] by simp
next
  case (4 f key field rest out errs)
  show ?case
  proof (cases "n_kind key = ScalarNode \<and> valid_name (n_value key)")
    case True
    then have v: "wf_val (fst (read_value f field errs))" using 4(3) by simp
    let ?out = "AList.update (n_value key) (fst (read_value f field errs)) out"
    have "\<forall>(k, v) \<in> set ?out. wf_val v" using update_entries [of out "\<lambda>k. wf_val"] 4(6) v by blast
    then show ?thesis using 4(4) [OF _ _ refl prod.collapse] True 4(5) by simp
  qed (use 4(1,2,5,6) in auto)
qed auto

text \<open>What holds when no problem was added.\<close>

lemma safe_empty [simp]: "safe_text [] = None"
  by (simp add: safe_text_def valid_utf8_def runes_def)

lemma read_fields_grow:
  "errs \<noteq> [] \<Longrightarrow> snd (read_value f n errs) \<noteq> []"
  "errs \<noteq> [] \<Longrightarrow> snd (read_items f ns errs) \<noteq> []"
  "errs \<noteq> [] \<Longrightarrow> snd (read_fields f ns out errs) \<noteq> []"
proof (induction f n errs and f ns errs and f ns out errs
    rule: read_value_read_items_read_fields.induct)
  case (1 f k style tag s line content errs)
  then show ?case by (cases k) (auto split: option.splits)
next
  case (3 f item items errs)
  show ?case using 3(1) 3(2) [OF refl prod.collapse] 3(3) by simp
next
  case (4 f key field rest out errs)
  show ?case using 4(1-3) 4(4) [OF _ _ refl prod.collapse] 4(5) by simp
qed auto

lemma read_value_safe:
  "snd (read_value f n errs) = [] \<Longrightarrow> errs = [] \<and> safe_val (fst (read_value f n errs))"
  "snd (read_items f ns errs) = [] \<Longrightarrow> errs = [] \<and> list_all safe_val (fst (read_items f ns errs))"
  "snd (read_fields f ns out errs) = [] \<Longrightarrow> (\<forall>(k, v) \<in> set out. valid_name k \<and> safe_val v) \<Longrightarrow>
     errs = [] \<and> (\<forall>(k, v) \<in> set (fst (read_fields f ns out errs)). valid_name k \<and> safe_val v)"
proof (induction f n errs and f ns errs and f ns out errs
    rule: read_value_read_items_read_fields.induct)
  case (1 f k style tag s line content errs)
  then show ?case by (cases k) (auto simp: list_all_iff split: option.splits)
next
  case (3 f item items errs)
  show ?case using 3(1) 3(2) [OF refl prod.collapse] 3(3) by auto
next
  case (4 f key field rest out errs)
  show ?case
  proof (cases "n_kind key = ScalarNode \<and> valid_name (n_value key)")
    case True
    let ?v = "read_value f field errs"
    let ?out = "AList.update (n_value key) (fst ?v) out"
    have r: "snd (read_fields f rest ?out (snd ?v)) = []" using 4(5) True by simp
    then have "snd ?v = []" using read_fields_grow(3) by blast
    with 4(3) True have v: "errs = []" "safe_val (fst ?v)" by blast+
    have "\<forall>(k, v) \<in> set ?out. valid_name k \<and> safe_val v"
      using update_entries [of out "\<lambda>k v. valid_name k \<and> safe_val v"] 4(6) True v(2) by blast
    with 4(4) [OF _ _ refl prod.collapse r] True
    have "\<forall>(k, v) \<in> set (fst (read_fields f rest ?out (snd ?v))). valid_name k \<and> safe_val v" by blast
    with v(1) True show ?thesis by simp
  qed (use 4(1,2,5,6) in auto)
qed auto

subsection \<open>Documents\<close>

lemma parse_reference_good: "parse_reference s = Some r \<Longrightarrow> good_ref r"
  by (auto simp: parse_reference_def good_ref_def Let_def split: option.splits if_splits)

lemma read_reference_items_good: "list_all good_ref (fst (read_reference_items f key items errs))"
  by (induction f key items errs rule: read_reference_items.induct)
    (auto simp: case_prod_beta parse_reference_good split: option.splits)

lemma read_references_good: "list_all good_ref (fst (read_references f m key errs))"
  by (simp add: read_references_def case_prod_beta read_reference_items_good)

text \<open>A fold that only updates the map, or leaves it, keeps keys distinct and what every entry satisfies.\<close>

lemma fold_updates:
  assumes step: "\<And>out errs kv. fst (step (out, errs) kv) = out
      \<or> (\<exists>k v. P k v \<and> fst (step (out, errs) kv) = AList.update k v out)"
    and "wf_map (fst acc)" "\<forall>(k, v) \<in> set (fst acc). P k v"
  shows "wf_map (fst (foldl step acc kvs)) \<and> (\<forall>(k, v) \<in> set (fst (foldl step acc kvs)). P k v)"
  using assms(2,3)
proof (induction kvs arbitrary: acc)
  case (Cons kv kvs)
  from step [of "fst acc" "snd acc" kv]
  have "wf_map (fst (step acc kv)) \<and> (\<forall>(k, v) \<in> set (fst (step acc kv)). P k v)"
  proof (elim disjE exE conjE)
    fix k v assume kv: "P k v" "fst (step (fst acc, snd acc) kv) = AList.update k v (fst acc)"
    then show ?thesis using Cons.prems(1) update_entries [OF Cons.prems(2) kv(1)] by simp
  qed (use Cons.prems in simp)
  from Cons.IH [OF conjunct1 [OF this] conjunct2 [OF this]] show ?case by simp
qed simp

lemma read_string_map_wf: "wf_map (fst (read_string_map f n errs))"
  unfolding read_string_map_def
  by (auto intro!: conjunct1 [OF fold_updates [where P = "\<lambda>k v. True"]]; blast)

lemma read_string_list_map_wf: "wf_map (fst (read_string_list_map f n errs))"
  unfolding read_string_list_map_def
  by (auto intro!: conjunct1 [OF fold_updates [where P = "\<lambda>k v. True"]]; blast)

lemma parse_matcher_wf: "wf_matcher (fst (parse_matcher f n errs))"
  by (auto simp: parse_matcher_def wf_matcher_def empty_matcher_def case_prod_beta Let_def read_string_map_wf
      read_string_list_map_wf split: option.split)

lemma reserved_prefix: "is_reserved_label key \<longleftrightarrow> has_prefix key reserved_label_prefix \<and> key \<noteq> reserved_label_prefix"
  by (cases "length key \<le> length reserved_label_prefix") (auto simp: is_reserved_label_def has_prefix_def)

lemma reserved_alone: "\<not> valid_label_key reserved_label_prefix"
  by (simp add: valid_label_key_def reserved_label_prefix_def valid_name_def)

lemma parse_host_good:
  assumes "valid_name name" "supports_schema version"
  shows "good_host (fst (parse_host name pos m version errs))"
proof -
  let ?P = "\<lambda>k v. valid_label_key k \<and> \<not> has_prefix k reserved_label_prefix \<and> valid_name v"
  have "wf_map (fst (foldl (host_label_step f) ([], e) kvs)) \<and> (\<forall>(k, v) \<in> set (fst (foldl (host_label_step f) ([], e) kvs)). ?P k v)" for f e kvs
    by (rule fold_updates; use reserved_alone in \<open>auto simp: host_label_step_def Let_def reserved_prefix\<close>; blast)
  then show ?thesis using assms
    by (auto simp: parse_host_def good_host_def Let_def case_prod_beta split: option.split)
qed

lemma read_precedence_bounds: "- (2 ^ 63) \<le> fst (read_precedence m errs) \<and> fst (read_precedence m errs) < 2 ^ 63"
  using atoi_bounds by (auto simp: read_precedence_def split: option.split)

lemma parse_fleet_good:
  "valid_name name \<Longrightarrow> supports_schema version \<Longrightarrow> good_fleet (fst (parse_fleet name pos m version errs))"
  by (simp add: parse_fleet_def good_fleet_def Let_def case_prod_beta)

lemma parse_layer_good:
  "valid_name name \<Longrightarrow> supports_schema version \<Longrightarrow> good_layer (fst (parse_layer name pos m version errs))"
  using read_precedence_bounds parse_matcher_wf
  by (auto simp: parse_layer_def good_layer_def Let_def case_prod_beta wf_matcher_def empty_matcher_def split: option.split)

lemma parse_resource_good:
  "valid_name name \<Longrightarrow> supports_schema version \<Longrightarrow> doc_type \<in> set resource_types \<Longrightarrow>
     good_resource (fst (parse_resource doc_type name pos m version errs))"
  using read_references_good read_value_wf(1)
  by (auto simp: parse_resource_def good_resource_def good_ref_def res_ref_def Let_def case_prod_beta split: option.split)

lemma parse_resource_sound:
  assumes "snd (parse_resource doc_type name pos m version errs) = []"
  shows "sound_resource (fst (parse_resource doc_type name pos m version errs))"
proof (cases "mapping_node m ''desired''")
  case None
  then show ?thesis using assms by (simp add: parse_resource_def Let_def case_prod_beta)
next
  case (Some node)
  let ?r = "parse_resource doc_type name pos m version errs"
  obtain errs' where d: "res_desired (fst ?r) = fst (read_value (pos_file pos) node errs')"
      "snd ?r = snd (read_value (pos_file pos) node errs')"
      "errs' = [] \<longrightarrow> res_restartOn (fst ?r) = [] \<or> res_reloadOn (fst ?r) = []"
    using Some by (simp add: parse_resource_def Let_def case_prod_beta)
  with assms show ?thesis using read_value_safe(1) [of "pos_file pos" node errs'] by (auto simp: sound_resource_def)
qed

text \<open>Reading a document keeps what was read well typed, and adds a problem or a sound resource.\<close>

definition step_good :: "parsed \<times> errors \<Rightarrow> bool" where
  "step_good a \<longleftrightarrow> typed (fst a) \<and> (snd a = [] \<longrightarrow> list_all sound_resource (pa_resources (fst a)))"

text \<open>Problems are never forgotten.\<close>

named_theorems problems_stay

lemmas [problems_stay] = read_fields_grow

lemma fold_errors:
  "(\<And>a kv. snd a \<noteq> [] \<Longrightarrow> snd (step a kv) \<noteq> []) \<Longrightarrow> snd a \<noteq> [] \<Longrightarrow> snd (foldl step a kvs) \<noteq> []"
  by (induction kvs arbitrary: a) auto

lemma foldl_errors:
  "(\<And>errs kv. errs \<noteq> [] \<Longrightarrow> step errs kv \<noteq> []) \<Longrightarrow> errs \<noteq> [] \<Longrightarrow> foldl step errs kvs \<noteq> []"
  by (induction kvs arbitrary: errs) auto

lemma reject_stay [problems_stay]: "errs \<noteq> [] \<Longrightarrow> mapping_reject m doc_type ks errs \<noteq> []"
  unfolding mapping_reject_def by (rule foldl_errors) (auto split: if_splits prod.splits)

lemma sequence_items_stay: "errs \<noteq> [] \<Longrightarrow> snd (sequence_items f key items errs) \<noteq> []"
  by (induction f key items errs rule: sequence_items.induct) (auto simp: case_prod_beta)

lemma read_reference_items_stay: "errs \<noteq> [] \<Longrightarrow> snd (read_reference_items f key items errs) \<noteq> []"
  by (induction f key items errs rule: read_reference_items.induct) (auto simp: case_prod_beta split: option.splits)

lemma mapping_sequence_stay [problems_stay]: "errs \<noteq> [] \<Longrightarrow> snd (mapping_sequence m key errs) \<noteq> []"
  by (auto simp: mapping_sequence_def sequence_items_stay split: option.split)

lemma read_references_stay [problems_stay]: "errs \<noteq> [] \<Longrightarrow> snd (read_references f m key errs) \<noteq> []"
  by (simp add: read_references_def case_prod_beta read_reference_items_stay problems_stay)

lemma read_string_map_stay [problems_stay]: "errs \<noteq> [] \<Longrightarrow> snd (read_string_map f n errs) \<noteq> []"
  unfolding read_string_map_def by (simp, intro impI fold_errors) (auto split: prod.splits if_splits)

lemma read_string_list_map_stay [problems_stay]: "errs \<noteq> [] \<Longrightarrow> snd (read_string_list_map f n errs) \<noteq> []"
  unfolding read_string_list_map_def by (simp, intro impI fold_errors) (auto split: prod.splits if_splits)

lemma host_labels_stay [problems_stay]:
  "snd a \<noteq> [] \<Longrightarrow> snd (foldl (host_label_step f) a kvs) \<noteq> []"
  by (rule fold_errors) (auto simp: host_label_step_def Let_def split: prod.splits)

lemma parse_matcher_stay [problems_stay]: "errs \<noteq> [] \<Longrightarrow> snd (parse_matcher f n errs) \<noteq> []"
  by (simp add: parse_matcher_def Let_def case_prod_beta problems_stay split: option.split)

lemma read_precedence_stay [problems_stay]: "errs \<noteq> [] \<Longrightarrow> snd (read_precedence m errs) \<noteq> []"
  by (simp add: read_precedence_def split: option.split)

lemma parse_documents_stay [problems_stay]:
  "errs \<noteq> [] \<Longrightarrow> snd (parse_fleet name pos m version errs) \<noteq> []"
  "errs \<noteq> [] \<Longrightarrow> snd (parse_host name pos m version errs) \<noteq> []"
  "errs \<noteq> [] \<Longrightarrow> snd (parse_layer name pos m version errs) \<noteq> []"
  "errs \<noteq> [] \<Longrightarrow> snd (parse_resource doc_type name pos m version errs) \<noteq> []"
  by (simp_all add: parse_fleet_def parse_host_def parse_layer_def parse_resource_def Let_def case_prod_beta
      problems_stay split: option.split)

lemma step_good_out: "step_good (out, errs) \<Longrightarrow> step_good (out, add_error errs pos m)"
  by (simp add: step_good_def)

lemma parse_body_problem:
  assumes "\<nexists>version doc_type name. supports_schema version \<and> valid_name name
      \<and> mapping_text (new_mapping f body) ''datum'' = Some version
      \<and> mapping_text (new_mapping f body) ''type'' = Some doc_type
      \<and> mapping_text (new_mapping f body) ''name'' = Some name
      \<and> doc_type \<in> {''Fleet'', ''Host'', ''Layer''} \<union> set resource_types"
  shows "\<exists>p. parse_body f body out errs = (out, add_error errs (node_position f body) (ParseMsg p))"
  using assms by (auto simp: parse_body_def Let_def split: option.split)

lemma parse_body_cases:
  obtains pos p where "parse_body f body out errs = (out, add_error errs pos (ParseMsg p))"
  | (fleet) d errs' where "parse_body f body out errs = (out\<lparr>pa_fleets := pa_fleets out @ [d]\<rparr>, errs')"
      "good_fleet d" "errs \<noteq> [] \<longrightarrow> errs' \<noteq> []"
  | (host) d errs' where "parse_body f body out errs = (out\<lparr>pa_hosts := pa_hosts out @ [d]\<rparr>, errs')"
      "good_host d" "errs \<noteq> [] \<longrightarrow> errs' \<noteq> []"
  | (layer) d errs' where "parse_body f body out errs = (out\<lparr>pa_layers := pa_layers out @ [d]\<rparr>, errs')"
      "good_layer d" "errs \<noteq> [] \<longrightarrow> errs' \<noteq> []"
  | (resource) d errs' where "parse_body f body out errs = (out\<lparr>pa_resources := pa_resources out @ [d]\<rparr>, errs')"
      "good_resource d" "errs \<noteq> [] \<longrightarrow> errs' \<noteq> []" "errs' = [] \<longrightarrow> sound_resource d"
proof -
  let ?m = "new_mapping f body" and ?pos = "node_position f body"
  consider p where "parse_body f body out errs = (out, add_error errs ?pos (ParseMsg p))"
    | version doc_type name where "supports_schema version" "valid_name name"
        "mapping_text ?m ''datum'' = Some version" "mapping_text ?m ''type'' = Some doc_type"
        "mapping_text ?m ''name'' = Some name" "doc_type \<in> {''Fleet'', ''Host'', ''Layer''} \<union> set resource_types"
    using parse_body_problem [of f body out errs] by blast
  then show thesis
  proof cases
    case 1
    then show thesis by (rule that(1))
  next
    case (2 version doc_type name)
    then consider "doc_type = ''Fleet''" | "doc_type = ''Host''" | "doc_type = ''Layer''"
      | "doc_type \<in> set resource_types" "doc_type \<notin> {''Fleet'', ''Host'', ''Layer''}" by blast
    then show thesis
    proof cases
      case fl: 1
      let ?d = "parse_fleet name ?pos ?m version errs"
      show thesis
        by (rule that(2) [of "fst ?d" "snd ?d"])
          (use 2 fl parse_fleet_good problems_stay in \<open>simp_all add: parse_body_def case_prod_beta Let_def\<close>)
    next
      case h: 2
      let ?d = "parse_host name ?pos ?m version errs"
      show thesis
        by (rule that(3) [of "fst ?d" "snd ?d"])
          (use 2 h parse_host_good problems_stay in \<open>simp_all add: parse_body_def case_prod_beta Let_def\<close>)
    next
      case l: 3
      let ?d = "parse_layer name ?pos ?m version errs"
      show thesis
        by (rule that(4) [of "fst ?d" "snd ?d"])
          (use 2 l parse_layer_good problems_stay in \<open>simp_all add: parse_body_def case_prod_beta Let_def\<close>)
    next
      case r: 4
      let ?d = "parse_resource doc_type name ?pos ?m version errs"
      show thesis
        by (rule that(5) [of "fst ?d" "snd ?d"])
          (use 2 r parse_resource_good parse_resource_sound problems_stay in \<open>simp_all add: parse_body_def case_prod_beta Let_def\<close>)
    qed
  qed
qed

lemma parse_body_good: "step_good (out, errs) \<Longrightarrow> step_good (parse_body f body out errs)"
  by (cases rule: parse_body_cases [of f body out errs]) (auto simp: step_good_def typed_def)

lemma parse_document_good: "step_good (out, errs) \<Longrightarrow> step_good (parse_document f root out errs)"
  by (auto simp: parse_document_def parse_error_def step_good_out parse_body_good split: list.split)

lemma parse_file_good: "step_good (parse_file f ys)"
proof -
  let ?step = "\<lambda>(out, errs) root. if n_kind root = NoKind then (out, errs) else parse_document f root out errs"
  have step: "step_good a \<Longrightarrow> step_good (?step a n)" for a n by (auto simp: parse_document_good split: prod.split)
  have "step_good a \<Longrightarrow> step_good (foldl ?step a ns)" for a ns
  proof (induction ns arbitrary: a)
    case (Cons n ns)
    from Cons.IH [OF step [OF Cons.prems]] show ?case by simp
  qed simp
  moreover have "step_good (nothing_parsed, [])" by (simp add: step_good_def typed_def nothing_parsed_def)
  ultimately have "step_good (foldl ?step (nothing_parsed, []) (ys_nodes ys))" by blast
  then show ?thesis
    by (auto simp: parse_file_def Let_def case_prod_beta step_good_def split: option.split)
qed

section \<open>Properties\<close>


definition example_scalar :: "string \<Rightarrow> yaml_node" where
  "example_scalar s = Node ScalarNode 0 ''!!str'' s 1 []"

definition example_stream :: yaml_stream where
  "example_stream = \<lparr>ys_nodes = [Node DocumentNode 0 [] [] 1 [Node MappingNode 0 ''!!map'' [] 1
     (map example_scalar [''datum'', ''v1alpha1'', ''type'', ''Host'', ''name'', ''web1'', ''labels'']
        @ [Node MappingNode 0 ''!!map'' [] 2 (map example_scalar [''role'', ''web'', ''datum/host'', ''db1''])])]],
     ys_error = None\<rparr>"

lemma example_parsed:
  "map host_labels (pa_hosts (fst (parse_file ''h.yaml'' example_stream))) = [[(''role'', ''web'')]]"
  "map err_msg (snd (parse_file ''h.yaml'' example_stream)) = [ParseMsg (LabelKeyReserved ''datum/host'')]"
  by code_simp+


end
