(* ===== verification/Glob.thy ===== *)
theory Glob
  imports Canonical
begin

text \<open>
  The patterns of a fleet's exclude list (\<open>internal/discover/glob.go\<close>), over the pattern
  matching of a segment from the standard library. A malformed pattern and a mismatch are both
  no match for this code, so both are \<open>None\<close> here.
\<close>

section \<open>Definitions\<close>

subsection \<open>The segment patterns of the standard library (filepath.Match)\<close>

definition first_rune :: "string \<Rightarrow> nat option \<times> nat" where
  "first_rune s = decode_rune (map of_char s)"

definition after_rune :: "string \<Rightarrow> string" where
  "after_rune s = drop (snd (first_rune s)) s"

definition unescaped :: "string \<Rightarrow> string" where
  "unescaped chunk = (if hd chunk = CHR 0x5C then tl chunk else chunk)"

text \<open>One character of a class, possibly escaped, with what follows, which cannot be nothing.\<close>

definition get_esc :: "string \<Rightarrow> (nat \<times> string) option" where
  "get_esc chunk =
     (if chunk = [] \<or> hd chunk = CHR ''-'' \<or> hd chunk = CHR '']'' \<or> unescaped chunk = [] then None
      else case fst (first_rune (unescaped chunk)) of
        None \<Rightarrow> None
      | Some r \<Rightarrow>
          if after_rune (unescaped chunk) = [] then None else Some (r, after_rune (unescaped chunk)))"

lemma after_rune_shorter: "s \<noteq> [] \<Longrightarrow> length (after_rune s) < length s"
  using decode_rune_width [of "map of_char s"] by (simp add: after_rune_def first_rune_def)

lemma get_esc_shorter:
  assumes "get_esc chunk = Some (r, rest)"
  shows "length rest < length chunk"
proof -
  from assms have "unescaped chunk \<noteq> []" "rest = after_rune (unescaped chunk)"
    unfolding get_esc_def by (auto split: if_splits option.splits simp del: decode_rune.simps)
  moreover have "length (unescaped chunk) \<le> length chunk" by (simp add: unescaped_def)
  ultimately show ?thesis using after_rune_shorter by (metis less_le_trans)
qed

lemma get_esc_range: "get_esc chunk = Some (lo, rest) \<Longrightarrow> get_esc (tl rest) = Some (hi, rest') \<Longrightarrow> length rest' < length chunk"
  using get_esc_shorter [of chunk lo rest] get_esc_shorter [of "tl rest" hi rest'] by simp

text \<open>The ranges of a class after its opening, up to its end.\<close>

function class_ranges :: "nat \<Rightarrow> string \<Rightarrow> bool \<Rightarrow> bool \<Rightarrow> (bool \<times> string) option" where
  "class_ranges r chunk matched any =
     (if any \<and> chunk \<noteq> [] \<and> hd chunk = CHR '']'' then Some (matched, tl chunk)
      else case get_esc chunk of
        None \<Rightarrow> None
      | Some (lo, rest) \<Rightarrow>
          if hd rest = CHR ''-''
          then case get_esc (tl rest) of
              None \<Rightarrow> None
            | Some (hi, rest') \<Rightarrow> class_ranges r rest' (matched \<or> lo \<le> r \<and> r \<le> hi) True
          else class_ranges r rest (matched \<or> r = lo) True)"
  by pat_completeness auto
termination
  by (relation "measure (\<lambda>(r, chunk, m, a). length chunk)") (auto dest: get_esc_shorter get_esc_range)

declare class_ranges.simps [simp del]

lemma class_ranges_shorter: "class_ranges r chunk m a = Some (b, rest) \<Longrightarrow> length rest \<le> length chunk"
proof (induction r chunk m a rule: class_ranges.induct)
  case (1 r chunk m a)
  show ?case
  proof (cases "a \<and> chunk \<noteq> [] \<and> hd chunk = CHR '']''")
    case True
    then show ?thesis using 1(3) by (auto simp: class_ranges.simps [of r chunk])
  next
    case f: False
    then obtain lo s where g: "get_esc chunk = Some (lo, s)"
      using 1(3) by (auto simp: class_ranges.simps [of r chunk] split: option.splits)
    note len = get_esc_shorter [OF g]
    show ?thesis
    proof (cases "hd s = CHR ''-''")
      case True
      then obtain hi s' where h: "get_esc (tl s) = Some (hi, s')"
        using 1(3) f g by (auto simp: class_ranges.simps [of r chunk] split: option.splits)
      have "length rest \<le> length s'"
        using 1(1) [OF f g refl True h refl] 1(3) f g h True by (simp add: class_ranges.simps [of r chunk])
      then show ?thesis using get_esc_range [OF g h] by simp
    next
      case False
      then have "length rest \<le> length s"
        using 1(2) [OF f g refl False] 1(3) f g by (simp add: class_ranges.simps [of r chunk])
      then show ?thesis using len by simp
    qed
  qed
qed

definition class_of :: "string \<Rightarrow> bool \<times> string" where
  "class_of chunk = (if chunk \<noteq> [] \<and> hd chunk = CHR ''^'' then (True, tl chunk) else (False, chunk))"

lemma class_of_shorter: "length (snd (class_of chunk)) \<le> length chunk"
  by (simp add: class_of_def)

lemma class_shorter:
  "class_ranges r (snd (class_of chunk)) False False = Some (b, rest) \<Longrightarrow> length rest < Suc (length chunk)"
  using class_ranges_shorter [of r "snd (class_of chunk)"] class_of_shorter [of chunk] by fastforce

text \<open>
  The name after a chunk without stars, if it matches; a name that is used up matches nothing
  more.
\<close>

function match_chunk :: "string \<Rightarrow> string \<Rightarrow> string option" where
  "match_chunk chunk s =
     (if chunk = [] then Some s
      else if s = [] then None
      else if hd chunk = CHR ''['' then
        (case class_ranges (rune_value (fst (first_rune s))) (snd (class_of (tl chunk))) False False of
           None \<Rightarrow> None
         | Some (found, rest) \<Rightarrow>
             if found = fst (class_of (tl chunk)) then None else match_chunk rest (after_rune s))
      else if hd chunk = CHR ''?'' then
        (if hd s = CHR ''/'' then None else match_chunk (tl chunk) (after_rune s))
      else if hd chunk = CHR 0x5C then
        (if tl chunk = [] \<or> hd (tl chunk) \<noteq> hd s then None else match_chunk (tl (tl chunk)) (tl s))
      else if hd chunk \<noteq> hd s then None
      else match_chunk (tl chunk) (tl s))"
  by pat_completeness auto
termination
  by (relation "measure (\<lambda>(chunk, s). length chunk)") (auto dest: class_shorter simp: neq_Nil_conv)

declare match_chunk.simps [simp del]

text \<open>The first chunk of a pattern: whether stars precede it, up to the next star outside a class.\<close>

fun chunk_length :: "bool \<Rightarrow> string \<Rightarrow> nat" where
  "chunk_length inrange [] = 0"
| "chunk_length inrange (c # p) =
     (if c = CHR 0x5C then (case p of [] \<Rightarrow> 1 | _ # p' \<Rightarrow> 2 + chunk_length inrange p')
      else if c = CHR ''['' then 1 + chunk_length True p
      else if c = CHR '']'' then 1 + chunk_length False p
      else if c = CHR ''*'' \<and> \<not> inrange then 0
      else 1 + chunk_length inrange p)"

definition scan_chunk :: "string \<Rightarrow> bool \<times> string \<times> string" where
  "scan_chunk pattern =
     (let p = dropWhile (\<lambda>c. c = CHR ''*'') pattern
      in (p \<noteq> pattern, take (chunk_length False p) p, drop (chunk_length False p) p))"

text \<open>Where a chunk after a star matches: the first place that is not beyond a separator.\<close>

fun star_match :: "bool \<Rightarrow> string \<Rightarrow> string \<Rightarrow> string option" where
  "star_match last_chunk chunk [] = None"
| "star_match last_chunk chunk (c # name) =
     (if c = CHR ''/'' then None
      else case match_chunk chunk name of
        Some t \<Rightarrow> if last_chunk \<and> t \<noteq> [] then star_match last_chunk chunk name else Some t
      | None \<Rightarrow> star_match last_chunk chunk name)"

lemma chunk_length_positive: "c \<noteq> CHR ''*'' \<Longrightarrow> 0 < chunk_length False (c # q)"
  by (cases q) simp_all

lemma scan_chunk_shorter:
  assumes "pattern \<noteq> []" "scan_chunk pattern = (star, chunk, rest)"
  shows "length rest < length pattern"
proof -
  let ?p = "dropWhile (\<lambda>c. c = CHR ''*'') pattern"
  have rest: "rest = drop (chunk_length False ?p) ?p" using assms(2) by (simp add: scan_chunk_def Let_def)
  have le: "length ?p \<le> length pattern" by (rule length_dropWhile_le)
  show ?thesis
  proof (cases ?p)
    case Nil
    then have "rest = []" using rest by (simp only: drop_Nil)
    then show ?thesis using assms(1) by simp
  next
    case (Cons c q)
    then have "c \<noteq> CHR ''*''" using hd_dropWhile [of "\<lambda>c. c = CHR ''*''" pattern] by simp
    then have "0 < chunk_length False ?p" unfolding Cons by (rule chunk_length_positive)
    moreover have "0 < length ?p" using Cons by simp
    ultimately have "length ?p - chunk_length False ?p < length ?p" by (rule diff_less)
    then have "length rest < length ?p" by (simp only: rest length_drop)
    then show ?thesis using le by (rule less_le_trans)
  qed
qed

function path_match :: "string \<Rightarrow> string \<Rightarrow> bool" where
  "path_match pattern name =
     (if pattern = [] then name = []
      else
        let (star, chunk, rest) = scan_chunk pattern
        in if star \<and> chunk = [] then CHR ''/'' \<notin> set name
           else case (case match_chunk chunk name of
                        Some t \<Rightarrow> if t = [] \<or> rest \<noteq> [] then Some t else None
                      | None \<Rightarrow> None) of
             Some t \<Rightarrow> path_match rest t
           | None \<Rightarrow>
               if star
               then case star_match (rest = []) chunk name of None \<Rightarrow> False | Some t \<Rightarrow> path_match rest t
               else False)"
  by pat_completeness auto
termination
proof (relation "measure (\<lambda>(pattern, name). length pattern)", goal_cases)
  case (2 pattern name x star y chunk rest t)
  then show ?case using scan_chunk_shorter [of pattern star chunk rest] by simp
next
  case (3 pattern name x star y chunk rest t)
  then show ?case using scan_chunk_shorter [of pattern star chunk rest] by simp
qed simp

declare path_match.simps [simp del]

subsection \<open>Patterns of paths (glob.go)\<close>

fun match_segments :: "string list \<Rightarrow> string list \<Rightarrow> bool" where
  "match_segments [] path = (path = [])"
| "match_segments (p # ps) path =
     (if p = ''**'' then list_ex (\<lambda>i. match_segments ps (drop i path)) [0..<length path + 1]
      else case path of
        [] \<Rightarrow> False
      | seg # rest \<Rightarrow> path_match p seg \<and> match_segments ps rest)"

definition match_glob :: "string \<Rightarrow> string \<Rightarrow> bool" where
  "match_glob pattern path = match_segments (split_on CHR ''/'' pattern) (split_on CHR ''/'' path)"

definition excluded :: "string list \<Rightarrow> string \<Rightarrow> bool" where
  "excluded patterns rel =
     (let segments = split_on CHR ''/'' rel
      in list_ex (\<lambda>pattern. list_ex (\<lambda>i. match_glob pattern (join_with ''/'' (take i segments)))
           [1..<length segments + 1]) patterns)"

section \<open>Specification\<close>

text \<open>A pattern of segments matches the concatenation of what its segments match.\<close>

definition segment_parts :: "string \<Rightarrow> string list \<Rightarrow> bool" where
  "segment_parts p part \<longleftrightarrow> p = ''**'' \<or> (\<exists>seg. part = [seg] \<and> path_match p seg)"

definition glob_spec :: "string list \<Rightarrow> string list \<Rightarrow> bool" where
  "glob_spec pattern path \<longleftrightarrow> (\<exists>parts. concat parts = path \<and> list_all2 segment_parts pattern parts)"

text \<open>A path is hidden when a pattern matches it, or a directory above it.\<close>

definition hidden_by :: "string list \<Rightarrow> string \<Rightarrow> bool" where
  "hidden_by patterns rel \<longleftrightarrow>
     (\<exists>pattern \<in> set patterns. \<exists>above below. split_on CHR ''/'' rel = above @ below \<and> above \<noteq> []
        \<and> glob_spec (split_on CHR ''/'' pattern) above)"

section \<open>Lemmas\<close>

lemma glob_spec_Cons: "glob_spec (p # ps) path \<longleftrightarrow> (\<exists>a b. path = a @ b \<and> segment_parts p a \<and> glob_spec ps b)"
proof
  assume "glob_spec (p # ps) path"
  then obtain a as where "concat (a # as) = path" "segment_parts p a" "list_all2 segment_parts ps as"
    by (auto simp: glob_spec_def list_all2_Cons1)
  then show "\<exists>a b. path = a @ b \<and> segment_parts p a \<and> glob_spec ps b" unfolding glob_spec_def by force
next
  assume "\<exists>a b. path = a @ b \<and> segment_parts p a \<and> glob_spec ps b"
  then obtain a as where "concat (a # as) = path" "list_all2 segment_parts (p # ps) (a # as)"
    by (auto simp: glob_spec_def)
  then show "glob_spec (p # ps) path" unfolding glob_spec_def by blast
qed

lemma match_segments_iff: "match_segments ps path \<longleftrightarrow> glob_spec ps path"
proof (induction ps arbitrary: path)
  case Nil
  then show ?case by (auto simp: glob_spec_def)
next
  case (Cons p ps)
  show ?case
  proof (cases "p = ''**''")
    case True
    have "(\<exists>i \<le> length path. glob_spec ps (drop i path)) \<longleftrightarrow> (\<exists>a b. path = a @ b \<and> glob_spec ps b)"
      by (metis append_eq_conv_conj append_take_drop_id le_add1 length_append)
    with True Cons.IH show ?thesis
      by (auto simp: glob_spec_Cons segment_parts_def list_ex_iff atLeast0LessThan less_Suc_eq_le Bex_def simp del: upt_Suc)
  next
    case False
    then have "glob_spec (p # ps) path \<longleftrightarrow> (\<exists>seg rest. path = seg # rest \<and> path_match p seg \<and> glob_spec ps rest)"
      by (auto simp: glob_spec_Cons segment_parts_def) (metis append_Cons append_Nil)
    with False Cons.IH show ?thesis by (auto split: list.split)
  qed
qed

lemma excluded_iff: "excluded patterns rel \<longleftrightarrow> hidden_by patterns rel"
proof -
  let ?s = "split_on CHR ''/'' rel"
  have glob: "match_glob pattern (join_with ''/'' (take i ?s)) \<longleftrightarrow> glob_spec (split_on CHR ''/'' pattern) (take i ?s)"
    if "0 < i" for pattern i
  proof -
    have "take i ?s \<noteq> []" using that by simp
    moreover have "\<forall>w \<in> set (take i ?s). CHR ''/'' \<notin> set w" using split_on_parts by (metis in_set_takeD)
    ultimately show ?thesis by (simp add: match_glob_def match_segments_iff split_on_join_with)
  qed
  have "(\<exists>i \<in> {1..<length ?s + 1}. Q (take i ?s)) \<longleftrightarrow> (\<exists>above below. ?s = above @ below \<and> above \<noteq> [] \<and> Q above)" for Q
  proof
    assume "\<exists>i \<in> {1..<length ?s + 1}. Q (take i ?s)"
    then obtain i where "0 < i" "Q (take i ?s)" by (auto simp: Suc_le_eq)
    then show "\<exists>above below. ?s = above @ below \<and> above \<noteq> [] \<and> Q above"
      by (intro exI [of _ "take i ?s"] exI [of _ "drop i ?s"]) simp
  next
    assume "\<exists>above below. ?s = above @ below \<and> above \<noteq> [] \<and> Q above"
    then obtain above below where *: "?s = above @ below" "above \<noteq> []" "Q above" by blast
    then have "take (length above) ?s = above" "length above \<in> {1..<length ?s + 1}" by (auto simp: Suc_le_eq)
    with *(3) show "\<exists>i \<in> {1..<length ?s + 1}. Q (take i ?s)" by metis
  qed
  from this [of "glob_spec (split_on CHR ''/'' _)"] glob show ?thesis
    by (auto simp: excluded_def hidden_by_def Let_def list_ex_iff simp del: upt_Suc)
qed

end
