(* ===== verification/Discover.thy ===== *)
theory Discover
  imports Resolve Parse Glob "HOL-Library.Product_Lexorder"
begin

text \<open>
  Finding the documents of a repository (\<open>internal/discover/discover.go\<close>): the files below a
  directory, the one Fleet document, whose directory is the root of the fleet, the documents
  below it that are not excluded, and the layer each resource belongs to. A directory is a tree
  in the order the walk meets its entries; paths of files are lists of names below the
  directory walked.
\<close>

section \<open>Definitions\<close>

subsection \<open>Files\<close>

datatype fs_tree =
    FileNode string "string + string"
  | DirNode string "string + fs_tree list"

definition skip_dir :: "string \<Rightarrow> bool" where
  "skip_dir name \<longleftrightarrow>
     name \<in> {''.git'', ''.github'', ''node_modules'', ''site'', ''.venv'', ''.cache'', ''bin''}"

definition yaml_name :: "string \<Rightarrow> bool" where
  "yaml_name name \<longleftrightarrow> has_suffix name ''.yaml'' \<or> has_suffix name ''.yml''"

type_synonym source_file = "string list \<times> (string + string)"

text \<open>The walk: the first error ends it.\<close>

fun walk_tree :: "string list \<Rightarrow> fs_tree \<Rightarrow> string + source_file list"
  and walk_trees :: "string list \<Rightarrow> fs_tree list \<Rightarrow> string + source_file list" where
  "walk_tree path (FileNode name content) =
     Inr (if yaml_name name then [(path @ [name], content)] else [])"
| "walk_tree path (DirNode name entries) =
     (if skip_dir name then Inr []
      else case entries of Inl e \<Rightarrow> Inl e | Inr ts \<Rightarrow> walk_trees (path @ [name]) ts)"
| "walk_trees path [] = Inr []"
| "walk_trees path (t # ts) =
     (case walk_tree path t of
        Inl e \<Rightarrow> Inl e
      | Inr files \<Rightarrow> (case walk_trees path ts of Inl e \<Rightarrow> Inl e | Inr rest \<Rightarrow> Inr (files @ rest)))"

definition slashed :: "string list \<Rightarrow> string" where
  "slashed path = join_with ''/'' path"

definition yaml_files :: "string + fs_tree list \<Rightarrow> string + source_file list" where
  "yaml_files dir =
     (case dir of Inl e \<Rightarrow> Inl e
      | Inr ts \<Rightarrow> (case walk_trees [] ts of Inl e \<Rightarrow> Inl e | Inr files \<Rightarrow> Inr (sort_key (\<lambda>f. slashed (fst f)) files)))"

text \<open>A path relative to the root of the fleet, both below the directory walked.\<close>

fun rel_names :: "string list \<Rightarrow> string list \<Rightarrow> string list" where
  "rel_names (r # root) (p # path) = (if r = p then rel_names root path else replicate (length (r # root)) ''..'' @ p # path)"
| "rel_names root path = replicate (length root) ''..'' @ path"

definition rel_path :: "string list \<Rightarrow> string list \<Rightarrow> string" where
  "rel_path root path = slashed (rel_names root path)"

definition rel_dir :: "string \<Rightarrow> string" where
  "rel_dir dir = (if dir = ''.'' then [] else dir)"

definition dir_of_file :: "string \<Rightarrow> string" where
  "dir_of_file file = rel_dir (path_dir file)"

text \<open>\<open>Files\<close>: the documents below a fleet root that discovery reads.\<close>

definition fleet_files :: "string list \<Rightarrow> string + fs_tree list \<Rightarrow> string + string list" where
  "fleet_files exclude root =
     (case yaml_files root of Inl e \<Rightarrow> Inl e
      | Inr files \<Rightarrow> Inr (filter (\<lambda>rel. \<not> excluded exclude rel) (map (\<lambda>f. rel_path [] (fst f)) files)))"

subsection \<open>Collecting documents\<close>

datatype walk_error = CannotWalk string | NoFleet | ManyFleets "string list"

type_synonym read_file = "string list \<times> parsed \<times> errors"

fun read_files :: "(string \<Rightarrow> yaml_stream) \<Rightarrow> source_file list \<Rightarrow> string + read_file list" where
  "read_files decode [] = Inr []"
| "read_files decode ((path, content) # files) =
     (case content of Inl e \<Rightarrow> Inl e
      | Inr body \<Rightarrow>
          (case read_files decode files of Inl e \<Rightarrow> Inl e
           | Inr rest \<Rightarrow> Inr ((path, parse_file (slashed path) (decode body)) # rest)))"

definition find_fleet_root :: "read_file list \<Rightarrow> walk_error + (string list \<times> fleet)" where
  "find_fleet_root files =
     (case concat (map (\<lambda>(path, out, _). map (Pair path) (pa_fleets out)) files) of
        [] \<Rightarrow> Inl NoFleet
      | [(path, f)] \<Rightarrow> Inr (butlast path, f)
      | all \<Rightarrow> Inl (ManyFleets (map (\<lambda>(path, _). slashed path) (go_sort (\<lambda>a b. slashed (fst a) < slashed (fst b)) all))))"

definition retarget :: "string \<Rightarrow> errors \<Rightarrow> errors" where
  "retarget rel errs = map (\<lambda>e. e\<lparr>err_pos := \<lparr>pos_file = rel, pos_line = pos_line (err_pos e)\<rparr>\<rparr>) (errors_list errs)"

definition at_file :: "string \<Rightarrow> position \<Rightarrow> position" where
  "at_file rel p = p\<lparr>pos_file := rel\<rparr>"

definition collect_file :: "doc_set \<Rightarrow> parsed \<Rightarrow> string \<Rightarrow> doc_set" where
  "collect_file docs out rel =
     docs\<lparr>set_hosts := set_hosts docs @ map (\<lambda>h. h\<lparr>host_position := at_file rel (host_position h)\<rparr>) (pa_hosts out),
          set_layers := set_layers docs @ map (\<lambda>l. l\<lparr>layer_position := at_file rel (layer_position l),
            layer_dir := dir_of_file rel\<rparr>) (pa_layers out),
          set_resources := set_resources docs @ map (\<lambda>r. r\<lparr>res_position := at_file rel (res_position r)\<rparr>) (pa_resources out)\<rparr>"

definition in_fleet :: "fleet \<Rightarrow> string list \<Rightarrow> string list \<Rightarrow> bool" where
  "in_fleet f root path \<longleftrightarrow>
     \<not> has_prefix (rel_path root path) ''../'' \<and> \<not> excluded (fleet_exclude f) (rel_path root path)"

definition collect_all :: "fleet \<Rightarrow> string list \<Rightarrow> read_file list \<Rightarrow> doc_set \<times> errors" where
  "collect_all f root files =
     foldl (\<lambda>(docs, errs) (path, out, file_errs).
         (collect_file docs out (rel_path root path), errs @ retarget (rel_path root path) file_errs))
       (\<lparr>set_fleet = f, set_hosts = [], set_layers = [], set_resources = []\<rparr>, [])
       (filter (\<lambda>(path, _). in_fleet f root path) files)"

definition layer_before :: "layer \<Rightarrow> layer \<Rightarrow> bool" where
  "layer_before a b \<longleftrightarrow>
     (if layer_precedence a \<noteq> layer_precedence b then layer_precedence a < layer_precedence b
      else pos_file (layer_position a) < pos_file (layer_position b))"

definition resource_before :: "resource \<Rightarrow> resource \<Rightarrow> bool" where
  "resource_before a b \<longleftrightarrow> (if res_type a \<noteq> res_type b then res_type a < res_type b else res_name a < res_name b)"

definition sort_set :: "doc_set \<Rightarrow> doc_set" where
  "sort_set docs =
     docs\<lparr>set_hosts := go_sort (\<lambda>a b. host_name a < host_name b) (set_hosts docs),
          set_layers := go_sort layer_before (set_layers docs),
          set_resources := go_sort resource_before (set_resources docs)\<rparr>"

subsection \<open>Layers\<close>

definition up_dir :: "string \<Rightarrow> string" where
  "up_dir dir = rev (tl (dropWhile (\<lambda>c. c \<noteq> CHR ''/'') (rev dir)))"

lemma up_dir_shorter: "dir \<noteq> [] \<Longrightarrow> length (up_dir dir) < length dir"
proof -
  assume "dir \<noteq> []"
  then have "0 < length (rev dir)" by simp
  moreover have "length (up_dir dir) = length (dropWhile (\<lambda>c. c \<noteq> CHR ''/'') (rev dir)) - 1" by (simp add: up_dir_def)
  moreover have "length (dropWhile (\<lambda>c. c \<noteq> CHR ''/'') (rev dir)) \<le> length (rev dir)" by (rule length_dropWhile_le)
  ultimately show ?thesis unfolding length_rev by linarith
qed

function nearest_layer :: "(string \<times> layer) list \<Rightarrow> string \<Rightarrow> layer option" where
  "nearest_layer by_dir dir =
     (case map_of by_dir dir of
        Some l \<Rightarrow> Some l
      | None \<Rightarrow> if dir = [] then None else nearest_layer by_dir (up_dir dir))"
  by pat_completeness auto
termination by (relation "measure (\<lambda>(m, dir). length dir)") (auto simp: up_dir_shorter)

declare nearest_layer.simps [simp del]

fun layers_by_dir :: "layer list \<Rightarrow> (string \<times> layer) list \<Rightarrow> errors \<Rightarrow> (string \<times> layer) list \<times> errors" where
  "layers_by_dir [] by_dir errs = (by_dir, errs)"
| "layers_by_dir (l # ls) by_dir errs =
     (case map_of by_dir (layer_dir l) of
        Some existing \<Rightarrow>
          layers_by_dir ls by_dir (add_error errs (layer_position l)
            (LayerMsg (LayersShareDirectory (layer_name existing) (layer_name l))))
      | None \<Rightarrow> layers_by_dir ls (AList.update (layer_dir l) l by_dir) errs)"

fun assign_each :: "(string \<times> layer) list \<Rightarrow> resource list \<Rightarrow> errors \<Rightarrow> resource list \<times> errors" where
  "assign_each by_dir [] errs = ([], errs)"
| "assign_each by_dir (r # rs) errs =
     (case nearest_layer by_dir (dir_of_file (pos_file (res_position r))) of
        None \<Rightarrow>
          let (rest, errs) = assign_each by_dir rs (add_error errs (res_position r) (LayerMsg (NoLayerAbove (res_ref r))))
          in (r # rest, errs)
      | Some l \<Rightarrow>
          let (rest, errs) = assign_each by_dir rs errs
          in (r\<lparr>res_layer := layer_name l, res_layerDir := layer_dir l\<rparr> # rest, errs))"

definition assign_layers :: "doc_set \<Rightarrow> errors \<Rightarrow> doc_set \<times> errors" where
  "assign_layers docs errs =
     (let (by_dir, errs) = layers_by_dir (set_layers docs) [] errs;
          (rs, errs) = assign_each by_dir (set_resources docs) errs
      in (docs\<lparr>set_resources := rs\<rparr>, errs))"

text \<open>\<open>Walk\<close>: the root, the documents, and the problems, if there are any.\<close>

definition walk :: "(string \<Rightarrow> yaml_stream) \<Rightarrow> string + fs_tree list \<Rightarrow> walk_error + (string list \<times> doc_set \<times> errors option)" where
  "walk decode dir =
     (case yaml_files dir of
        Inl e \<Rightarrow> Inl (CannotWalk e)
      | Inr files \<Rightarrow>
          (case read_files decode files of
             Inl e \<Rightarrow> Inl (CannotWalk e)
           | Inr read \<Rightarrow>
               (case find_fleet_root read of
                  Inl e \<Rightarrow> Inl e
                | Inr (root, f) \<Rightarrow>
                    let (docs, errs) = collect_all f root read;
                        (docs, errs) = assign_layers (sort_set docs) errs
                    in Inr (root, docs, errors_err errs))))"

section \<open>Specification\<close>

text \<open>A directory is another or holds it, at any depth; the root holds every directory.\<close>

definition dir_above :: "string \<Rightarrow> string \<Rightarrow> bool" where
  "dir_above d dir \<longleftrightarrow> d = [] \<or> d = dir \<or> has_prefix dir (d @ ''/'')"

text \<open>The layer a resource belongs to: above it, and below every other layer above it.\<close>

definition belongs :: "layer list \<Rightarrow> resource \<Rightarrow> layer \<Rightarrow> bool" where
  "belongs ls r l \<longleftrightarrow> l \<in> set ls \<and> res_layer r = layer_name l \<and> res_layerDir r = layer_dir l
     \<and> dir_above (layer_dir l) (dir_of_file (pos_file (res_position r)))
     \<and> (\<forall>l' \<in> set ls. dir_above (layer_dir l') (dir_of_file (pos_file (res_position r)))
          \<longrightarrow> dir_above (layer_dir l') (layer_dir l))"

text \<open>
  The files of a fleet, with what was read of them: those below its root that no pattern of the
  exclude list hides. Their documents are placed at the path of their file below the root.
\<close>

definition files_of_fleet :: "fleet \<Rightarrow> string list \<Rightarrow> read_file list \<Rightarrow> (string \<times> parsed) set" where
  "files_of_fleet f root read =
     {(rel, out). \<exists>path errs. (path, out, errs) \<in> set read \<and> rel = rel_path root path
        \<and> \<not> has_prefix rel ''../'' \<and> \<not> hidden_by (fleet_exclude f) rel}"

definition documents_of :: "(string \<Rightarrow> 'a \<Rightarrow> 'a) \<Rightarrow> (parsed \<Rightarrow> 'a list) \<Rightarrow> (string \<times> parsed) set \<Rightarrow> 'a set" where
  "documents_of place of_file files = (\<Union>(rel, out) \<in> files. place rel ` set (of_file out))"

definition place_host :: "string \<Rightarrow> host \<Rightarrow> host" where
  "place_host rel h = h\<lparr>host_position := at_file rel (host_position h)\<rparr>"

definition place_layer :: "string \<Rightarrow> layer \<Rightarrow> layer" where
  "place_layer rel l = l\<lparr>layer_position := at_file rel (layer_position l), layer_dir := dir_of_file rel\<rparr>"

definition place_resource :: "string \<Rightarrow> resource \<Rightarrow> resource" where
  "place_resource rel r = r\<lparr>res_position := at_file rel (res_position r)\<rparr>"

definition without_layer :: "resource \<Rightarrow> resource" where
  "without_layer r = r\<lparr>res_layer := [], res_layerDir := []\<rparr>"

section \<open>Lemmas\<close>

lemma up_dir_split: "CHR ''/'' \<notin> set w \<Longrightarrow> up_dir (u @ CHR ''/'' # w) = u"
proof -
  assume w: "CHR ''/'' \<notin> set w"
  have "dropWhile (\<lambda>c. c \<noteq> CHR ''/'') (rev w @ CHR ''/'' # rev u) = CHR ''/'' # rev u"
    by (subst dropWhile_append2) (use w in auto)
  then show ?thesis by (simp add: up_dir_def)
qed

lemma up_dir_none: "CHR ''/'' \<notin> set dir \<Longrightarrow> up_dir dir = []"
proof -
  assume "CHR ''/'' \<notin> set dir"
  then have d: "dropWhile (\<lambda>c. c \<noteq> CHR ''/'') (rev dir) = []" by (auto simp: dropWhile_eq_Nil_conv)
  show ?thesis unfolding up_dir_def d by simp
qed

lemma dir_above_up: "dir \<noteq> [] \<Longrightarrow> dir_above d dir \<longleftrightarrow> d = dir \<or> dir_above d (up_dir dir)"
proof (cases "CHR ''/'' \<in> set dir")
  case True
  then obtain u w where dir: "dir = u @ CHR ''/'' # w" "CHR ''/'' \<notin> set w" by (meson split_list_last)
  have "has_prefix dir (d @ ''/'') \<longleftrightarrow> d = u \<or> has_prefix u (d @ ''/'')"
    using dir by (auto simp: has_prefix_iff append_eq_append_conv2 Cons_eq_append_conv append_eq_Cons_conv)
  with dir show ?thesis by (auto simp: dir_above_def up_dir_split)
next
  case False
  then have "\<not> has_prefix dir (d @ ''/'')" by (auto simp: has_prefix_iff)
  then show ?thesis using False by (auto simp: dir_above_def up_dir_none has_prefix_iff)
qed

lemma nearest_layer_Some:
  "nearest_layer m dir = Some l \<Longrightarrow>
     \<exists>d. map_of m d = Some l \<and> dir_above d dir \<and> (\<forall>d' \<in> fst ` set m. dir_above d' dir \<longrightarrow> dir_above d' d)"
proof (induction m dir rule: nearest_layer.induct)
  case (1 m dir)
  show ?case
  proof (cases "map_of m dir")
    case None
    then have dir: "dir \<noteq> []" and n: "nearest_layer m (up_dir dir) = Some l"
      using 1(2) by (auto simp: nearest_layer.simps [of m dir] split: if_splits)
    from 1(1) [OF None dir n] obtain d where d: "map_of m d = Some l" "dir_above d (up_dir dir)"
      "\<forall>d' \<in> fst ` set m. dir_above d' (up_dir dir) \<longrightarrow> dir_above d' d" by blast
    moreover have "dir \<notin> fst ` set m" using None by (simp add: map_of_eq_None_iff)
    ultimately have "dir_above d dir" "\<forall>d' \<in> fst ` set m. dir_above d' dir \<longrightarrow> dir_above d' d"
      using dir_above_up [OF dir] by metis+
    with d(1) show ?thesis by (intro exI [of _ d] conjI)
  next
    case (Some k)
    then have "k = l" using 1(2) by (simp add: nearest_layer.simps [of m dir])
    with Some show ?thesis by (intro exI [of _ dir]) (simp add: dir_above_def)
  qed
qed

lemma update_new: "k \<notin> fst ` set al \<Longrightarrow> AList.update k v al = al @ [(k, v)]"
  by (induction al) auto

lemma layers_by_dir_result:
  assumes "layers_by_dir ls m errs = (m', [])" "\<forall>(d, l) \<in> set m. d = layer_dir l" "wf_map m"
  shows "errs = [] \<and> set m' = set m \<union> (\<lambda>l. (layer_dir l, l)) ` set ls \<and> (\<forall>(d, l) \<in> set m'. d = layer_dir l)
    \<and> wf_map m' \<and> distinct (map fst m @ map layer_dir ls)"
  using assms
proof (induction ls m errs rule: layers_by_dir.induct)
  case (2 l ls by_dir errs)
  have stay: "errs \<noteq> [] \<Longrightarrow> snd (layers_by_dir ls m errs) \<noteq> []" for ls m errs
    by (induction ls m errs rule: layers_by_dir.induct) (auto split: option.splits)
  show ?case
  proof (cases "map_of by_dir (layer_dir l)")
    case (Some k)
    let ?e = "add_error errs (layer_position l) (LayerMsg (LayersShareDirectory (layer_name k) (layer_name l)))"
    have "snd (layers_by_dir ls by_dir ?e) = []" using 2(3) Some by simp
    with stay [of ?e] show ?thesis by simp
  next
    case None
    then have n: "layer_dir l \<notin> fst ` set by_dir" by (simp add: map_of_eq_None_iff)
    then have u: "AList.update (layer_dir l) l by_dir = by_dir @ [(layer_dir l, l)]" by (rule update_new)
    from 2(1) [OF None] 2(3) None have
      "errs = [] \<and> set m' = set (by_dir @ [(layer_dir l, l)]) \<union> (\<lambda>l. (layer_dir l, l)) ` set ls
        \<and> (\<forall>(d, l) \<in> set m'. d = layer_dir l) \<and> wf_map m'
        \<and> distinct (map fst (by_dir @ [(layer_dir l, l)]) @ map layer_dir ls)"
      using 2(4,5) n by (simp add: u wf_map_def)
    then show ?thesis by simp
  qed
qed (auto simp: wf_map_def)

lemma assign_each_result:
  "assign_each m rs errs = (rs', []) \<Longrightarrow>
     errs = [] \<and> list_all2 (\<lambda>r r'. \<exists>l. nearest_layer m (dir_of_file (pos_file (res_position r))) = Some l
        \<and> r' = r\<lparr>res_layer := layer_name l, res_layerDir := layer_dir l\<rparr>) rs rs'"
proof (induction m rs errs arbitrary: rs' rule: assign_each.induct)
  case (2 m r rs errs)
  then show ?case by (auto split: option.splits prod.splits)
qed auto

text \<open>What is collected: the documents of the files of the fleet, with the file they are in.\<close>

lemma layer_before_key: "layer_before a b \<longleftrightarrow> (layer_precedence a, pos_file (layer_position a)) < (layer_precedence b, pos_file (layer_position b))"
  by (auto simp: layer_before_def less_prod_def)

lemma sorted_fst: "sorted (ps :: ('a :: linorder \<times> 'b :: linorder) list) \<Longrightarrow> sorted (map fst ps)"
  by (induction ps) (auto simp: less_eq_prod_def)

lemma sorted_layers: "sorted (map layer_precedence (go_sort layer_before ls))"
proof -
  let ?key = "\<lambda>l. (layer_precedence l, pos_file (layer_position l))"
  have e: "layer_before = (\<lambda>a b. ?key a < ?key b)" by (intro ext) (rule layer_before_key)
  have "go_sort layer_before ls = sort_key ?key ls" unfolding e by (rule go_sort_key)
  moreover have "sorted (map fst (map ?key (sort_key ?key ls)))" by (rule sorted_fst) simp
  ultimately show ?thesis by (simp add: comp_def)
qed

definition docs_good :: "doc_set \<Rightarrow> bool" where
  "docs_good docs \<longleftrightarrow> list_all good_host (set_hosts docs) \<and> list_all good_layer (set_layers docs)
     \<and> list_all good_resource (set_resources docs)"

definition collected :: "fleet \<Rightarrow> string list \<Rightarrow> doc_set \<times> errors \<Rightarrow> bool" where
  "collected f root a \<longleftrightarrow> docs_good (fst a) \<and> set_fleet (fst a) = f
     \<and> (snd a = [] \<longrightarrow> list_all sound_resource (set_resources (fst a)))"

lemma good_positions [simp]:
  "good_host (h\<lparr>host_position := p\<rparr>) = good_host h"
  "good_layer (l\<lparr>layer_position := p, layer_dir := d\<rparr>) = good_layer l"
  "good_resource (r\<lparr>res_position := p\<rparr>) = good_resource r"
  "sound_resource (r\<lparr>res_position := p\<rparr>) = sound_resource r"
  "good_resource (r\<lparr>res_layer := a, res_layerDir := b\<rparr>) = good_resource r"
  "sound_resource (r\<lparr>res_layer := a, res_layerDir := b\<rparr>) = sound_resource r"
  by (simp_all add: good_host_def good_layer_def good_resource_def sound_resource_def res_ref_def)

lemma collect_step:
  assumes "collected f root (docs, errs)" "step_good (out, file_errs)" "in_fleet f root path"
  shows "collected f root (collect_file docs out (rel_path root path), errs @ retarget (rel_path root path) file_errs)"
proof -
  have "length (retarget rel file_errs) = length file_errs" for rel by (simp add: retarget_def errors_list_def)
  then have "retarget rel file_errs = [] \<longleftrightarrow> file_errs = []" for rel by (metis length_0_conv)
  with assms show ?thesis
    by (simp add: collected_def docs_good_def collect_file_def step_good_def typed_def list.pred_map comp_def at_file_def
        in_fleet_def ball_Un)
qed

lemma collect_all_collected:
  assumes "\<forall>(path, a) \<in> set files. step_good a"
  shows "collected f root (collect_all f root files)"
proof -
  let ?step = "\<lambda>(docs, errs) (path, out, file_errs).
         (collect_file docs out (rel_path root path), errs @ retarget (rel_path root path) file_errs)"
  have "collected f root a \<Longrightarrow> (\<forall>(path, b) \<in> set fs. step_good b \<and> in_fleet f root path) \<Longrightarrow> collected f root (foldl ?step a fs)" for a fs
  proof (induction fs arbitrary: a)
    case (Cons x fs)
    obtain docs errs where a: "a = (docs, errs)" by (cases a)
    obtain path out file_errs where x: "x = (path, out, file_errs)" by (cases x) auto
    have "collected f root (?step a x)" using Cons.prems collect_step unfolding a x by auto
    from Cons.IH [OF this] Cons.prems(2) show ?case by simp
  qed simp
  moreover have "collected f root (\<lparr>set_fleet = f, set_hosts = [], set_layers = [], set_resources = []\<rparr>, [])"
    by (simp add: collected_def docs_good_def)
  moreover have "\<forall>(path, b) \<in> set (filter (\<lambda>(path, _). in_fleet f root path) files). step_good b \<and> in_fleet f root path"
    using assms by auto
  ultimately show ?thesis unfolding collect_all_def by blast
qed

lemma read_files_good: "read_files decode files = Inr read \<Longrightarrow> \<forall>(path, a) \<in> set read. step_good a"
proof (induction files arbitrary: read)
  case (Cons x files)
  obtain path content where f: "x = (path, content)" by (cases x)
  from Cons.prems obtain body rest where "read_files decode files = Inr rest"
    "read = (path, parse_file (slashed path) (decode body)) # rest" unfolding f by (auto split: sum.splits)
  with Cons.IH [of rest] parse_file_good show ?case by simp
qed simp

lemma docs_sorted: "collected f root (docs, errs) \<Longrightarrow> collected f root (sort_set docs, errs)"
  by (simp add: collected_def docs_good_def sort_set_def list_all_iff)

lemma walk_parts:
  assumes "walk decode dir = Inr (root, docs, None)"
  obtains f docs' by_dir rs where
    "collected f root (docs', [])" "sorted (map layer_precedence (set_layers docs'))"
    "layers_by_dir (set_layers docs') [] [] = (by_dir, [])"
    "assign_each by_dir (set_resources docs') [] = (rs, [])" "docs = docs'\<lparr>set_resources := rs\<rparr>"
proof -
  from assms obtain files read f docs' errs where p: "read_files decode files = Inr read"
    "collect_all f root read = (docs', errs)" "assign_layers (sort_set docs') errs = (docs, [])"
    by (auto simp: walk_def Let_def errors_err_def split: sum.splits prod.splits if_splits)
  have c: "collected f root (sort_set docs', errs)"
    using collect_all_collected [OF read_files_good [OF p(1)], of f root] p(2) docs_sorted by simp
  obtain by_dir errs' where l: "layers_by_dir (set_layers (sort_set docs')) [] errs = (by_dir, errs')" by fastforce
  obtain rs errs'' where r: "assign_each by_dir (set_resources (sort_set docs')) errs' = (rs, errs'')" by fastforce
  from p(3) l r have e: "docs = (sort_set docs')\<lparr>set_resources := rs\<rparr>" "errs'' = []" by (auto simp: assign_layers_def)
  from assign_each_result r e(2) have "errs' = []" by blast
  moreover from layers_by_dir_result [of "set_layers (sort_set docs')" "[]" errs by_dir] l this have "errs = []" by simp
  ultimately show thesis using that [OF _ _ _ _ e(1)] c l r e(2) by (simp add: sort_set_def sorted_layers)
qed

text \<open>The documents collected are those of the files of the fleet, and sorting and layers keep them.\<close>

definition holds_documents :: "(string \<times> parsed) set \<Rightarrow> doc_set \<Rightarrow> bool" where
  "holds_documents files docs \<longleftrightarrow>
     set (set_hosts docs) = documents_of place_host pa_hosts files
     \<and> set (set_layers docs) = documents_of place_layer pa_layers files
     \<and> without_layer ` set (set_resources docs) = without_layer ` documents_of place_resource pa_resources files"

lemma documents_of_insert:
  "documents_of place of_file (insert (rel, out) files) = place rel ` set (of_file out) \<union> documents_of place of_file files"
  by (simp add: documents_of_def)

lemma collect_file_documents:
  "holds_documents files docs \<Longrightarrow> holds_documents (insert (rel, out) files) (collect_file docs out rel)"
  by (simp add: holds_documents_def collect_file_def documents_of_insert place_host_def [abs_def] place_layer_def [abs_def]
      place_resource_def [abs_def] image_Un Un_commute)

lemma collect_all_documents: "holds_documents (files_of_fleet f root read) (fst (collect_all f root read))"
proof -
  let ?step = "\<lambda>(docs, errs) (path, out, file_errs).
         (collect_file docs out (rel_path root path), errs @ retarget (rel_path root path) file_errs)"
  let ?parts = "\<lambda>fs. (\<lambda>(path, out, _ :: errors). (rel_path root path, out)) ` set fs"
  have fold: "holds_documents files (fst a) \<Longrightarrow> holds_documents (?parts fs \<union> files) (fst (foldl ?step a fs))" for files a fs
  proof (induction fs arbitrary: a files)
    case (Cons x fs)
    obtain docs errs where a: "a = (docs, errs)" by (cases a)
    obtain path out file_errs where x: "x = (path, out, file_errs)" by (cases x) auto
    have "holds_documents (insert (rel_path root path, out) files) (fst (?step a x))"
      using Cons.prems collect_file_documents unfolding a x by simp
    from Cons.IH [OF this] show ?case by (simp add: x)
  qed simp
  have "holds_documents {} (fst (\<lparr>set_fleet = f, set_hosts = [], set_layers = [], set_resources = []\<rparr>, []))"
    by (simp add: holds_documents_def documents_of_def)
  from fold [OF this, of "filter (\<lambda>(path, _). in_fleet f root path) read"]
  have "holds_documents (?parts (filter (\<lambda>(path, _). in_fleet f root path) read)) (fst (collect_all f root read))"
    by (simp add: collect_all_def)
  moreover have "?parts (filter (\<lambda>(path, _). in_fleet f root path) read) = files_of_fleet f root read"
    by (force simp: files_of_fleet_def in_fleet_def excluded_iff)
  ultimately show ?thesis by simp
qed

lemma assign_each_documents: "without_layer ` set (fst (assign_each m rs errs)) = without_layer ` set rs"
  by (induction m rs errs rule: assign_each.induct)
    (auto simp: case_prod_beta without_layer_def split: option.split)

lemma holds_documents_layers:
  "holds_documents files docs \<Longrightarrow> holds_documents files (fst (assign_layers (sort_set docs) errs))"
  by (simp add: holds_documents_def assign_layers_def sort_set_def Let_def case_prod_beta assign_each_documents)

text \<open>What a walk without problems read, and that its documents are those of the files of the fleet.\<close>

lemma walk_documents:
  assumes "walk decode dir = Inr (root, docs, errs)"
  obtains files read where "yaml_files dir = Inr files" "read_files decode files = Inr read"
    "find_fleet_root read = Inr (root, set_fleet docs)" "holds_documents (files_of_fleet (set_fleet docs) root read) docs"
proof -
  from assms obtain files read f where p: "yaml_files dir = Inr files" "read_files decode files = Inr read"
    "find_fleet_root read = Inr (root, f)"
    "docs = fst (assign_layers (sort_set (fst (collect_all f root read))) (snd (collect_all f root read)))"
    by (auto simp: walk_def Let_def case_prod_beta split: sum.splits)
  have "set_fleet (fst (assign_layers (sort_set d) e)) = set_fleet d" for d e
    by (simp add: assign_layers_def sort_set_def Let_def case_prod_beta)
  moreover have "set_fleet (fst (foldl (\<lambda>(docs, errs) (path, out, file_errs).
         (collect_file docs out (rel_path root path), errs @ retarget (rel_path root path) file_errs)) a fs)) = set_fleet (fst a)" for a fs
    by (induction fs arbitrary: a) (simp_all add: case_prod_beta collect_file_def)
  ultimately have "set_fleet docs = f" by (simp add: p(4) collect_all_def)
  with that [OF p(1,2)] p(3) holds_documents_layers [OF collect_all_documents] p(4) show thesis by metis
qed

lemma visible_positions:
  assumes "holds_documents (files_of_fleet f root read) docs"
  shows "\<forall>h \<in> set (set_hosts docs). \<not> hidden_by (fleet_exclude f) (pos_file (host_position h))"
    and "\<forall>l \<in> set (set_layers docs). \<not> hidden_by (fleet_exclude f) (pos_file (layer_position l))"
    and "\<forall>r \<in> set (set_resources docs). \<not> hidden_by (fleet_exclude f) (pos_file (res_position r))"
proof -
  show "\<forall>h \<in> set (set_hosts docs). \<not> hidden_by (fleet_exclude f) (pos_file (host_position h))"
    "\<forall>l \<in> set (set_layers docs). \<not> hidden_by (fleet_exclude f) (pos_file (layer_position l))"
    using assms by (auto simp: holds_documents_def documents_of_def files_of_fleet_def place_host_def place_layer_def at_file_def)
  show "\<forall>r \<in> set (set_resources docs). \<not> hidden_by (fleet_exclude f) (pos_file (res_position r))"
  proof
    fix r assume "r \<in> set (set_resources docs)"
    then have "without_layer r \<in> without_layer ` documents_of place_resource pa_resources (files_of_fleet f root read)"
      using assms by (auto simp: holds_documents_def)
    then obtain r0 where "r0 \<in> documents_of place_resource pa_resources (files_of_fleet f root read)"
      "without_layer r = without_layer r0" by blast
    moreover have "res_position (without_layer r) = res_position r" for r by (simp add: without_layer_def)
    ultimately have "res_position r = res_position r0" by metis
    with \<open>r0 \<in> _\<close> show "\<not> hidden_by (fleet_exclude f) (pos_file (res_position r))"
      by (auto simp: documents_of_def files_of_fleet_def place_resource_def at_file_def)
  qed
qed

section \<open>Properties\<close>

text \<open>
  C19: a repository that is read without problems is in order. Its hosts, layers and resources
  are exactly the documents of the files below the root of its one fleet that the exclude list
  does not hide, each with the path of its file; so none of the three comes from a file that a
  pattern hides, itself or through a directory above it. Every resource has the layer in the
  nearest directory at or above its file, no two layers share a directory, layers come in order
  of precedence, and everything is well typed, so that what resolution and the graph rely on
  holds of it.
\<close>

theorem walk_in_order:
  assumes "walk decode dir = Inr (root, docs, None)"
  shows "(\<exists>files read. yaml_files dir = Inr files \<and> read_files decode files = Inr read
        \<and> find_fleet_root read = Inr (root, set_fleet docs)
        \<and> set (set_hosts docs) = documents_of place_host pa_hosts (files_of_fleet (set_fleet docs) root read)
        \<and> set (set_layers docs) = documents_of place_layer pa_layers (files_of_fleet (set_fleet docs) root read)
        \<and> without_layer ` set (set_resources docs)
          = without_layer ` documents_of place_resource pa_resources (files_of_fleet (set_fleet docs) root read))
    \<and> (\<forall>h \<in> set (set_hosts docs). \<not> hidden_by (fleet_exclude (set_fleet docs)) (pos_file (host_position h)))
    \<and> (\<forall>l \<in> set (set_layers docs). \<not> hidden_by (fleet_exclude (set_fleet docs)) (pos_file (layer_position l)))
    \<and> (\<forall>r \<in> set (set_resources docs). \<exists>l. belongs (set_layers docs) r l)
    \<and> distinct (map layer_dir (set_layers docs)) \<and> sorted (map layer_precedence (set_layers docs))
    \<and> (\<forall>r \<in> set (set_resources docs). \<not> hidden_by (fleet_exclude (set_fleet docs)) (pos_file (res_position r))
         \<and> good_resource r \<and> sound_resource r)
    \<and> list_all good_host (set_hosts docs) \<and> list_all good_layer (set_layers docs)"
proof -
  obtain f docs' by_dir rs where p: "collected f root (docs', [])" "sorted (map layer_precedence (set_layers docs'))"
    "layers_by_dir (set_layers docs') [] [] = (by_dir, [])"
    "assign_each by_dir (set_resources docs') [] = (rs, [])" "docs = docs'\<lparr>set_resources := rs\<rparr>"
    by (rule walk_parts [OF assms])
  have l: "set by_dir = (\<lambda>l. (layer_dir l, l)) ` set (set_layers docs')" "wf_map by_dir"
    "distinct (map layer_dir (set_layers docs'))"
    using layers_by_dir_result [OF p(3)] by auto
  have r: "\<exists>r0 \<in> set (set_resources docs'). \<exists>l. nearest_layer by_dir (dir_of_file (pos_file (res_position r0))) = Some l
      \<and> r = r0\<lparr>res_layer := layer_name l, res_layerDir := layer_dir l\<rparr>" if "r \<in> set rs" for r
    using assign_each_result [OF p(4)] that by (auto simp: list_all2_conv_all_nth in_set_conv_nth) (metis nth_mem)
  have "\<exists>l. belongs (set_layers docs) r l" if "r \<in> set rs" for r
  proof -
    from r [OF that] obtain r0 l where n: "nearest_layer by_dir (dir_of_file (pos_file (res_position r0))) = Some l"
      "r = r0\<lparr>res_layer := layer_name l, res_layerDir := layer_dir l\<rparr>" by blast
    from nearest_layer_Some [OF n(1)] obtain d where d: "map_of by_dir d = Some l"
      "dir_above d (dir_of_file (pos_file (res_position r0)))"
      "\<forall>d' \<in> fst ` set by_dir. dir_above d' (dir_of_file (pos_file (res_position r0))) \<longrightarrow> dir_above d' d" by blast
    from map_of_SomeD [OF d(1)] l(1) have "d = layer_dir l" "l \<in> set (set_layers docs')" by auto
    with d n(2) l(1) show ?thesis by (auto simp: belongs_def p(5) image_image)
  qed
  moreover have "good_resource r \<and> sound_resource r" if "r \<in> set rs" for r
    using r [OF that] p(1) by (auto simp: collected_def docs_good_def list_all_iff)
  moreover obtain files read where w: "yaml_files dir = Inr files" "read_files decode files = Inr read"
    "find_fleet_root read = Inr (root, set_fleet docs)" "holds_documents (files_of_fleet (set_fleet docs) root read) docs"
    by (rule walk_documents [OF assms])
  moreover note visible_positions [OF w(4)] w(4) [unfolded holds_documents_def]
  ultimately show ?thesis using p(1,2) l(3) unfolding p(5) collected_def docs_good_def by simp
qed

definition leaf :: "string \<Rightarrow> yaml_node" where
  "leaf s = Node ScalarNode 0 ''!!str'' s 1 []"

definition obj :: "(string \<times> yaml_node) list \<Rightarrow> yaml_node" where
  "obj kvs = Node MappingNode 0 ''!!map'' [] 1 (concat (map (\<lambda>(k, v). [leaf k, v]) kvs))"

definition doc :: "string \<Rightarrow> string \<Rightarrow> (string \<times> yaml_node) list \<Rightarrow> yaml_node" where
  "doc doc_type name kvs = obj ([(''datum'', leaf ''v1alpha1''), (''type'', leaf doc_type), (''name'', leaf name)] @ kvs)"

definition role :: "string \<Rightarrow> string \<times> yaml_node" where
  "role r = (''labels'', obj [(''role'', leaf r)])"

text \<open>A repository with two layers of one name, for different hosts.\<close>

definition twin_streams :: "string \<Rightarrow> yaml_stream" where
  "twin_streams body =
     \<lparr>ys_nodes =
        (if body = ''fleet'' then [doc ''Fleet'' ''f'' [], doc ''Host'' ''h'' [role ''web'']]
         else if body = ''web'' then
           [doc ''Layer'' ''base'' [(''match'', obj [role ''web''])],
            doc ''Sysctl'' ''a'' [(''desired'', obj [(''value'', leaf ''1'')])]]
         else
           [doc ''Layer'' ''base'' [(''match'', obj [role ''db''])],
            doc ''Sysctl'' ''b'' [(''desired'', obj [(''value'', leaf ''1'')])]]),
      ys_error = None\<rparr>"

definition twin_tree :: "string + fs_tree list" where
  "twin_tree = Inr [DirNode ''db'' (Inr [FileNode ''db.yaml'' (Inr ''db'')]), FileNode ''fleet.yaml'' (Inr ''fleet''),
     DirNode ''web'' (Inr [FileNode ''web.yaml'' (Inr ''web'')])]"

definition twin_docs :: doc_set where
  "twin_docs = (case walk twin_streams twin_tree of Inr (_, docs, None) \<Rightarrow> docs
     | _ \<Rightarrow> \<lparr>set_fleet = \<lparr>fleet_name = [], fleet_exclude = [], fleet_position = no_position, fleet_schema = []\<rparr>,
             set_hosts = [], set_layers = [], set_resources = []\<rparr>)"

lemma twin_walk: "walk twin_streams twin_tree = Inr ([], twin_docs, None)"
  by code_simp

lemma twin_resources:
  "map (\<lambda>r. (res_name r, res_layer r, res_layerDir r)) (set_resources twin_docs) = [(''a'', ''base'', ''web''), (''b'', ''base'', ''db'')]"
  by code_simp

theorem walk_in_order_witness: "distinct (map layer_dir (set_layers twin_docs)) \<and> sorted (map layer_precedence (set_layers twin_docs))"
  using walk_in_order [OF twin_walk] by blast

lemma resolve_host_found: "find_host docs name = Some h \<Longrightarrow> \<exists>m e. resolve_host docs name revision = Inr (m, e)"
  by (simp add: resolve_host_def Let_def case_prod_beta)

text \<open>
  Layers that share a name share their hosts. The names of Layer documents are not checked
  to be unique, and resources are looked up by the name of their layer, so a resource that
  belongs to one layer is in the manifest of every host that another layer of that name
  selects, whether or not its own layer does.
\<close>

theorem layers_of_one_name_share:
  assumes "resolve_host docs name revision = Inr (m, e)" "find_host docs name = Some h"
    and "list_all good_layer (set_layers docs)" "r \<in> set (set_resources docs)" "belongs (set_layers docs) r own"
    and "other \<in> set (set_layers docs)" "layer_name other = layer_name own"
    and "selects (layer_match other) (map_of (host_labels_of h))"
  shows "res_ref r \<in> rv_ref ` set (mf_resources m)"
proof -
  have wf: "\<forall>l \<in> set (set_layers docs). wf_matcher (layer_match l)"
    using assms(3) by (auto simp: good_layer_def list_all_iff)
  have "layer_name own \<in> layer_name ` {l \<in> set (set_layers docs). selects (layer_match l) (map_of (host_labels_of h))}"
    using assms(6-8) by (metis (mono_tags, lifting) imageI mem_Collect_eq)
  moreover from arg_cong [OF matched_layer_names [OF wf], of set "host_labels_of h"]
  have "ml_name ` set (matched_layers (set_layers docs) (host_labels_of h))
      = layer_name ` {l \<in> set (set_layers docs). selects (layer_match l) (map_of (host_labels_of h))}" by simp
  ultimately have "res_layer r \<in> ml_name ` set (matched_layers (set_layers docs) (host_labels_of h))"
    using assms(5) by (simp add: belongs_def)
  then have "r \<in> snd ` set (all_contributions docs h)" using snd_contributions assms(4) by blast
  with manifest_resources [OF assms(1)] assms(2) show ?thesis by (auto simp: image_comp)
qed

lemma twin_layers: "map (\<lambda>l. (layer_name l, layer_dir l, layer_match l)) (set_layers twin_docs) =
    [(''base'', ''db'', empty_matcher\<lparr>m_labels := [(''role'', ''db'')]\<rparr>), (''base'', ''web'', empty_matcher\<lparr>m_labels := [(''role'', ''web'')]\<rparr>)]"
  by code_simp

lemma twin_hosts: "map (\<lambda>h. (host_name h, host_labels h)) (set_hosts twin_docs) = [(''h'', [(''role'', ''web'')])]"
  by code_simp

lemma twin_files: "map (\<lambda>r. dir_of_file (pos_file (res_position r))) (set_resources twin_docs) = [''web'', ''db'']"
  by code_simp

theorem layers_of_one_name_share_witness:
  "\<exists>h own r m e. find_host twin_docs ''h'' = Some h \<and> belongs (set_layers twin_docs) r own
     \<and> \<not> selects (layer_match own) (map_of (host_labels_of h))
     \<and> resolve_host twin_docs ''h'' [] = Inr (m, e) \<and> res_ref r \<in> rv_ref ` set (mf_resources m)"
proof -
  obtain ra rb where r: "set_resources twin_docs = [ra, rb]" "res_layer rb = ''base''" "res_layerDir rb = ''db''"
      "dir_of_file (pos_file (res_position rb)) = ''db''"
    using twin_resources twin_files by (auto simp: map_eq_Cons_conv)
  obtain db web where l: "set_layers twin_docs = [db, web]" "layer_name db = ''base''" "layer_name web = ''base''"
      "layer_dir db = ''db''" "layer_dir web = ''web''"
      "layer_match db = empty_matcher\<lparr>m_labels := [(''role'', ''db'')]\<rparr>"
      "layer_match web = empty_matcher\<lparr>m_labels := [(''role'', ''web'')]\<rparr>"
    using twin_layers by (auto simp: map_eq_Cons_conv)
  obtain h where h: "set_hosts twin_docs = [h]" "host_name h = ''h''" "host_labels h = [(''role'', ''web'')]"
    using twin_hosts by (auto simp: map_eq_Cons_conv)
  have f: "find_host twin_docs ''h'' = Some h" by (simp add: find_host_def h)
  from resolve_host_found [OF f] obtain m e where m: "resolve_host twin_docs ''h'' [] = Inr (m, e)" by blast
  have b: "belongs (set_layers twin_docs) rb db"
    by (simp add: belongs_def r l dir_above_def has_prefix_def)
  have g: "list_all good_layer (set_layers twin_docs)" using walk_parts [OF twin_walk]
    by (metis (no_types, lifting) collected_def docs_good_def doc_set.select_convs(3) doc_set.update_convs(4) fst_conv doc_set.surjective)
  have labels: "map_of (host_labels_of h) ''role'' = Some ''web''"
    by (simp add: host_labels_of_def h host_label_def)
  have s: "selects (layer_match web) (map_of (host_labels_of h))" "\<not> selects (layer_match db) (map_of (host_labels_of h))"
    by (simp_all add: selects_def l labels empty_matcher_def)
  have "res_ref rb \<in> rv_ref ` set (mf_resources m)"
    by (rule layers_of_one_name_share [OF m f g _ b _ _ s(1)]) (simp_all add: r l)
  with f b s(2) m show ?thesis by blast
qed

end
