(* ===== verification/Words.thy ===== *)
theory Words
  imports Datum_Prelude
begin

text \<open>
  Two readers of text from the standard library that several packages use: the fields of a
  text between white space (strings.Fields) and the lines of a file as a scanner yields them,
  which stops without a word at a line beyond its buffer.
\<close>

section \<open>Definitions\<close>

definition space_at :: "string \<Rightarrow> string option" where
  "space_at s = find (has_prefix s) space_encodings"

lemma space_encodings_not_Nil: "e \<in> set space_encodings \<Longrightarrow> e \<noteq> []"
  by (auto simp: space_encodings_def bytes_def)

lemma space_at_Some: "space_at s = Some e \<Longrightarrow> e \<in> set space_encodings \<and> has_prefix s e"
  by (auto simp: space_at_def find_Some_iff)

function fields_acc :: "string \<Rightarrow> string \<Rightarrow> string list" where
  "fields_acc s word =
     (if s = [] then (if word = [] then [] else [word])
      else case space_at s of
        Some e \<Rightarrow> (if word = [] then [] else [word]) @ fields_acc (drop (length e) s) []
      | None \<Rightarrow> fields_acc (tl s) (word @ [hd s]))"
  by pat_completeness auto

termination
  by (relation "measure (\<lambda>(s, w). length s)") (auto dest!: space_at_Some space_encodings_not_Nil)

declare fields_acc.simps [simp del]

definition fields_of :: "string \<Rightarrow> string list" where
  "fields_of s = fields_acc s []"

definition max_token :: nat where "max_token = 65536"

definition drop_cr :: "string \<Rightarrow> string" where
  "drop_cr line = (if line \<noteq> [] \<and> last line = CHR 0x0D then butlast line else line)"

definition scan_lines :: "string \<Rightarrow> string list" where
  "scan_lines s =
     (let parts = split_on (CHR 0x0A) s;
          complete = (if last parts = [] then butlast parts else parts)
      in map drop_cr (takeWhile (\<lambda>line. length line < max_token) complete))"

section \<open>Lemmas\<close>

lemma scan_lines_code [code]:
  "scan_lines s =
     (let parts = split_on (CHR 0x0A) s;
          complete = (if last parts = [] then butlast parts else parts)
      in map drop_cr (takeWhile (\<lambda>line. int (length line) < 65536) complete))"
proof -
  have "length line < max_token \<longleftrightarrow> int (length line) < 65536" for line :: string
    unfolding max_token_def by linarith
  then show ?thesis unfolding scan_lines_def by presburger
qed

text \<open>Encodings of white space share no bytes but their first with the start of another.\<close>

definition lead_byte :: "char \<Rightarrow> bool" where
  "lead_byte c \<longleftrightarrow> (of_char c :: nat) < 128 \<or> 194 \<le> (of_char c :: nat)"

lemma space_encoding_bytes: "e \<in> set space_encodings \<Longrightarrow> lead_byte (hd e) \<and> (\<forall>c \<in> set (tl e). \<not> lead_byte c)"
  by (auto simp: space_encodings_def bytes_def lead_byte_def)

lemma space_prefix_free:
  "e \<in> set space_encodings \<Longrightarrow> e' \<in> set space_encodings \<Longrightarrow> has_prefix e e' \<Longrightarrow> e = e'"
proof -
  have "list_all (\<lambda>e. list_all (\<lambda>e'. has_prefix e e' \<longrightarrow> e = e') space_encodings) space_encodings" by code_simp
  then show "e \<in> set space_encodings \<Longrightarrow> e' \<in> set space_encodings \<Longrightarrow> has_prefix e e' \<Longrightarrow> e = e'"
    unfolding list_all_iff by blast
qed

lemma space_at_append: "space_at s = Some e \<Longrightarrow> space_at (s @ t) = Some e"
proof -
  assume "space_at s = Some e"
  then have e: "e \<in> set space_encodings" "has_prefix s e" using space_at_Some by blast+
  then have "has_prefix (s @ t) e" by (auto simp: has_prefix_iff)
  moreover have "e' = e" if "e' \<in> set space_encodings" "has_prefix (s @ t) e'" for e'
  proof -
    have "has_prefix e e' \<or> has_prefix e' e"
      using that(2) \<open>has_prefix (s @ t) e\<close> by (auto simp: has_prefix_iff append_eq_append_conv2)
    then show ?thesis using space_prefix_free e(1) that(1) by metis
  qed
  ultimately show ?thesis using e(1) unfolding space_at_def
    by (metis find_None_iff find_Some_iff nth_mem option.exhaust)
qed

lemma space_at_none_append:
  assumes "space_at s = None" "s \<noteq> []" "e \<in> set space_encodings"
  shows "space_at (s @ e) = None"
proof -
  have "\<not> has_prefix (s @ e) e'" if e': "e' \<in> set space_encodings" for e'
  proof
    assume "has_prefix (s @ e) e'"
    then obtain t where t: "s @ e = e' @ t" by (auto simp: has_prefix_iff)
    show False
    proof (cases "length e' \<le> length s")
      case True
      then have "has_prefix s e'" using t by (auto simp: has_prefix_iff append_eq_append_conv2)
      with assms(1) e' show False by (auto simp: space_at_def find_None_iff)
    next
      case False
      then obtain u where u: "e' = s @ u" "u \<noteq> []" "e = u @ t" using t by (auto simp: append_eq_append_conv2)
      then have "hd u \<in> set (tl e')" using assms(2) by (cases s) auto
      moreover have "hd u = hd e" using u by (cases u) auto
      ultimately show False using space_encoding_bytes e' assms(3) by metis
    qed
  qed
  then show ?thesis by (auto simp: space_at_def find_None_iff)
qed

lemma fields_acc_append_space:
  "e \<in> set space_encodings \<Longrightarrow> fields_acc (s @ e) word = fields_acc s word"
proof (induction s word rule: fields_acc.induct)
  case (1 s word)
  show ?case
  proof (cases "s = []")
    case True
    have "e \<noteq> []" using 1(3) by (rule space_encodings_not_Nil)
    moreover have "space_at e = Some e"
      using space_prefix_free [OF 1(3)] 1(3) unfolding space_at_def
      by (metis append_Nil2 find_None_iff find_Some_iff has_prefix_append nth_mem option.exhaust)
    ultimately show ?thesis using True
      by (simp add: fields_acc.simps [of e] fields_acc.simps [of "[]"])
  next
    case False
    show ?thesis
    proof (cases "space_at s")
      case None
      then show ?thesis using 1(1) [OF False None 1(3)] False space_at_none_append [OF None False 1(3)]
        by (simp add: fields_acc.simps [of "s @ e"] fields_acc.simps [of s])
    next
      case (Some e')
      then have "length e' \<le> length s" using space_at_Some [OF Some] by (auto simp: has_prefix_iff)
      then show ?thesis using 1(2) [OF False Some 1(3)] False space_at_append [OF Some, of e] Some
        by (simp add: fields_acc.simps [of "s @ e"] fields_acc.simps [of s])
    qed
  qed
qed

lemma fields_of_strip: "fields_of (rev (strip_from (map rev space_encodings) n (rev s))) = fields_of s"
proof (induction n arbitrary: s)
  case (Suc n)
  show ?case
  proof (cases "find (has_prefix (rev s)) (map rev space_encodings)")
      case (Some r)
      then obtain e where e: "e \<in> set space_encodings" "r = rev e" "has_prefix (rev s) r"
        by (auto simp: find_Some_iff) (metis nth_map nth_mem)
      then obtain t where "rev s = rev e @ t" by (auto simp: has_prefix_iff)
      then have s: "s = rev t @ e" by (metis rev_append rev_rev_ident)
      have "strip_from (map rev space_encodings) (Suc n) (rev s) = strip_from (map rev space_encodings) n (rev (rev t))"
        using Some e(2) s by simp
      then show ?thesis using Suc.IH [of "rev t"] fields_acc_append_space [OF e(1), of "rev t"] s
        by (simp add: fields_of_def)
  qed simp
qed simp

lemma fields_of_trim_right: "fields_of (trim_right s) = fields_of s"
  by (simp add: trim_right_def fields_of_strip)

lemma strip_from_stop:
  "\<forall>e \<in> set es. c \<notin> set e \<Longrightarrow> strip_from es n (b @ c # a) = strip_from es n b @ c # a"
proof (induction n arbitrary: b)
  case (Suc n)
  have p: "has_prefix (b @ c # a) e \<longleftrightarrow> has_prefix b e" if "e \<in> set es" for e
    using Suc.prems that by (auto simp: has_prefix_iff append_eq_append_conv2 Cons_eq_append_conv)
  have f: "find (has_prefix (b @ c # a)) es = find (has_prefix b) es" by (rule find_cong [OF refl p])
  show ?case
  proof (cases "find (has_prefix b) es")
    case (Some e)
    then have "has_prefix b e" by (auto simp: find_Some_iff)
    then have "drop (length e) (b @ c # a) = drop (length e) b @ c # a" by (auto simp: has_prefix_iff)
    with Suc.IH [OF Suc.prems] Some f show ?thesis by simp
  qed (simp add: f)
qed simp

end
