(* ===== verification/Footprint.thy ===== *)
theory Footprint
  imports Provider
begin

text \<open>
  What a provider reads and what it writes (\<open>internal/provider\<close>). The engine applies one resource
  after another and takes an earlier verification for true at the end; that is sound of providers
  whose observation of a resource reads nothing another resource's apply writes. The interface
  states both as sets of locations of a host, and what follows of two requests that share none.
\<close>

text \<open>
  A host \<open>h\<close> satisfies the laws of its operating system. Where two worlds look the same at
  everything a request reads, the observation is the same, and an apply changes nothing outside of
  what its request writes, however it ends.
\<close>

locale footprint =
  fixes laws :: "'h \<Rightarrow> bool"
    and observe :: "'h \<Rightarrow> 'w \<Rightarrow> request \<Rightarrow> string + observation"
    and applied :: "'h \<Rightarrow> request \<Rightarrow> action \<Rightarrow> 'w \<Rightarrow> 'w"
    and reads :: "'h \<Rightarrow> request \<Rightarrow> 'l set"
    and writes :: "'h \<Rightarrow> request \<Rightarrow> 'l set"
    and look :: "'h \<Rightarrow> 'l \<Rightarrow> 'w \<Rightarrow> 'v"
  assumes observe_reads: "(\<And>l. l \<in> reads h rq \<Longrightarrow> look h l w = look h l w') \<Longrightarrow> observe h w rq = observe h w' rq"
    and apply_writes: "laws h \<Longrightarrow> l \<notin> writes h rq \<Longrightarrow> look h l (applied h rq act w) = look h l w"
begin

lemma apart:
  assumes "laws h" "reads h rq' \<inter> writes h rq = {}"
  shows "observe h (applied h rq act w) rq' = observe h w rq'"
proof (rule observe_reads)
  fix l assume "l \<in> reads h rq'"
  then show "look h l (applied h rq act w) = look h l w" using assms by (blast intro: apply_writes)
qed

text \<open>So does a whole sequence of applies, each of a request apart from it.\<close>

lemma all_apart:
  assumes "laws h" "\<forall>(rq, act) \<in> set todo. reads h rq' \<inter> writes h rq = {}"
  shows "observe h (fold (\<lambda>(rq, act). applied h rq act) todo w) rq' = observe h w rq'"
  using assms(2)
proof (induction todo arbitrary: w)
  case (Cons x todo)
  obtain rq act where x: "x = (rq, act)" by fastforce
  then show ?case using Cons apart [OF assms(1), of rq' rq act w] by simp
qed simp

end

end
