(* ===== verification/Procsys.thy ===== *)
theory Procsys
  imports Words Plan Effects Footprint
begin

text \<open>
  Package \<open>internal/provider/procsys\<close>: kernel parameters. A parameter has a value in the running
  kernel and a value in a file of the provider's own, read at boot; both are observed and both
  are written. The files of the host are functions on an abstract world.
\<close>

section \<open>Definitions\<close>

text \<open>What opening a parameter for writing and writing its value comes to.\<close>

datatype set_end = SetMissing | SetDenied string | SetFailed string | SetRefused string | SetDone

record 'w sysctl_os =
  so_os :: "'w os"
  so_denied :: "string \<Rightarrow> 'w \<Rightarrow> bool"
  so_set :: "string \<Rightarrow> string \<Rightarrow> 'w \<Rightarrow> set_end \<times> 'w"
  so_chmod :: "string \<Rightarrow> nat \<Rightarrow> 'w \<Rightarrow> string option \<times> 'w"
  so_write :: "string \<Rightarrow> string \<Rightarrow> 'w \<Rightarrow> string option \<times> 'w"
  so_close :: "string \<Rightarrow> 'w \<Rightarrow> string option \<times> 'w"
  so_can_write :: "string \<Rightarrow> 'w \<Rightarrow> bool"

record sysctl_roots =
  sr_proc :: string
  sr_conf :: string

definition sysctl_prefix :: string where
  "sysctl_prefix = ''70-datum-''"

definition default_roots :: sysctl_roots where
  "default_roots = \<lparr>sr_proc = ''/proc/sys'', sr_conf = ''/etc/sysctl.d''\<rparr>"

definition normalise :: "string \<Rightarrow> string" where
  "normalise s = join_with '' '' (fields_of s)"

definition bool_text :: "bool \<Rightarrow> string" where
  "bool_text v = (if v then ''true'' else ''false'')"

definition key_char :: "char \<Rightarrow> bool" where
  "key_char c \<longleftrightarrow>
     (let n = of_char c :: nat
      in 97 \<le> n \<and> n \<le> 122 \<or> 65 \<le> n \<and> n \<le> 90 \<or> 48 \<le> n \<and> n \<le> 57
         \<or> c = CHR ''.'' \<or> c = CHR ''-'' \<or> c = CHR ''_'')"

definition valid_key :: "string \<Rightarrow> string option" where
  "valid_key key =
     (if key = [] then Some ''procsys: empty parameter key''
      else if has_prefix key ''.'' \<or> has_suffix key ''.'' \<or> str_contains key ''..'' \<or> \<not> list_all key_char key
      then Some (''procsys: '' @ quote_key key @ '' is not a parameter key'')
      else None)"

definition valid_value :: "string \<Rightarrow> string option" where
  "valid_value v =
     (if v = [] then Some ''procsys: empty value''
      else if CHR 0x0A \<in> set v \<or> CHR 0x0D \<in> set v then Some ''procsys: a value cannot span lines''
      else None)"

definition proc_path :: "sysctl_roots \<Rightarrow> string \<Rightarrow> string" where
  "proc_path roots key = join_path [sr_proc roots, map (\<lambda>c. if c = CHR ''.'' then CHR ''/'' else c) key]"

definition conf_path :: "sysctl_roots \<Rightarrow> string \<Rightarrow> string" where
  "conf_path roots key = join_path [sr_conf roots, sysctl_prefix @ key @ ''.conf'']"

subsection \<open>Observing\<close>

text \<open>The running value, and whether there is one.\<close>

definition running_value :: "'w sysctl_os \<Rightarrow> sysctl_roots \<Rightarrow> string \<Rightarrow> 'w \<Rightarrow> string + (string \<times> bool)" where
  "running_value so roots key w =
     (case os_read_file (so_os so) (proc_path roots key) w of
        FsOk body \<Rightarrow> Inr (normalise body, True)
      | NotExist _ \<Rightarrow> Inr ([], False)
      | FsError err \<Rightarrow>
          if so_denied so (proc_path roots key) w
          then Inl (''procsys: cannot read '' @ key @ '', which usually means /proc/sys is not available here: '' @ err)
          else Inl err)"

fun stored_lines :: "string \<Rightarrow> string list \<Rightarrow> string option" where
  "stored_lines key [] = None"
| "stored_lines key (l # ls) =
     (let line = trim_space l
      in if line = [] \<or> has_prefix line ''#'' \<or> has_prefix line '';'' then stored_lines key ls
         else case cut_at (CHR ''='') line of
           None \<Rightarrow> stored_lines key ls
         | Some (name, v) \<Rightarrow> if trim_space name \<noteq> key then stored_lines key ls else Some (normalise v))"

definition stored_value :: "'w sysctl_os \<Rightarrow> sysctl_roots \<Rightarrow> string \<Rightarrow> 'w \<Rightarrow> string + string option" where
  "stored_value so roots key w =
     (case os_read_file (so_os so) (conf_path roots key) w of
        NotExist _ \<Rightarrow> Inr None
      | FsError err \<Rightarrow> Inl err
      | FsOk body \<Rightarrow> Inr (stored_lines key (split_on (CHR 0x0A) body)))"

definition sysctl_observe :: "'w sysctl_os \<Rightarrow> sysctl_roots \<Rightarrow> 'w \<Rightarrow> request \<Rightarrow> string + observation" where
  "sysctl_observe so roots w rq =
     (let key = rq_target rq
      in case valid_key key of
        Some err \<Rightarrow> Inl err
      | None \<Rightarrow>
          (case running_value so roots key w of
             Inl err \<Rightarrow> Inl err
           | Inr (running, readable) \<Rightarrow>
               (case stored_value so roots key w of
                  Inl err \<Rightarrow> Inl err
                | Inr stored \<Rightarrow>
                    let want = field_or rq ''value'' [];
                        persisted = (stored = Some want)
                    in Inr \<lparr>ob_exists = stored \<noteq> None,
                            ob_found = (if readable then [] else ''no such kernel parameter''),
                            ob_fields = [(''value'', scalar_val running), (''persisted'', scalar_val (bool_text persisted))],
                            ob_unobservable = (if readable then [] else [''value'']),
                            ob_uncorrectable = [],
                            ob_desired = (if request_present rq
                              then map_val [(''value'', scalar_val want), (''persisted'', scalar_val ''true'')]
                              else zero_val)\<rparr>)))"

subsection \<open>Applying\<close>

definition set_running :: "'w sysctl_os \<Rightarrow> sysctl_roots \<Rightarrow> string \<Rightarrow> string \<Rightarrow> ('w, unit) io" where
  "set_running so roots key v w =
     (case so_set so (proc_path roots key) (v @ [CHR 0x0A]) w of
        (SetMissing, w') \<Rightarrow> fail (''procsys: this kernel has no parameter '' @ key) w'
      | (SetDenied _, w') \<Rightarrow> fail (''procsys: cannot set '' @ key @ '', which usually means /proc/sys is read only here'') w'
      | (SetFailed err, w') \<Rightarrow> fail err w'
      | (SetRefused err, w') \<Rightarrow> fail (''procsys: the kernel refused '' @ v @ '' for '' @ key @ '': '' @ err) w'
      | (SetDone, w') \<Rightarrow> pure () w')"

definition create_temp :: "'w sysctl_os \<Rightarrow> string \<Rightarrow> string \<Rightarrow> ('w, string) io" where
  "create_temp so dir pattern w =
     (case os_create_temp (so_os so) dir pattern w of
        (Inl err, w') \<Rightarrow> (Inl (plain_error err), w') | (Inr temp, w') \<Rightarrow> (Inr temp, w'))"

text \<open>The temporary file is removed at the end, whatever happened; after the rename there is none.\<close>

definition fill_temp :: "'w sysctl_os \<Rightarrow> string \<Rightarrow> string \<Rightarrow> string \<Rightarrow> nat \<Rightarrow> ('w, unit) io" where
  "fill_temp so temp path body mode =
     after (effect (so_chmod so temp mode)) (\<lambda>_.
     after (effect (so_write so temp body)) (\<lambda>_.
     after (effect (so_close so temp)) (\<lambda>_.
     effect (os_rename (so_os so) temp path))))"

definition write_file_atomic :: "'w sysctl_os \<Rightarrow> string \<Rightarrow> string \<Rightarrow> nat \<Rightarrow> ('w, unit) io" where
  "write_file_atomic so path body mode =
     after (create_temp so (path_dir path) ''.datum-sysctl-'') (\<lambda>temp w.
       case fill_temp so temp path body mode w of
         (r, w') \<Rightarrow> (r, snd (os_remove (so_os so) temp w')))"

definition conf_body :: "string \<Rightarrow> string \<Rightarrow> string" where
  "conf_body key v =
     ''# Managed by Datum. Edits are overwritten.'' @ [CHR 0x0A] @ key @ '' = '' @ v @ [CHR 0x0A]"

definition persist :: "'w sysctl_os \<Rightarrow> sysctl_roots \<Rightarrow> string \<Rightarrow> string \<Rightarrow> ('w, unit) io" where
  "persist so roots key v =
     after (effect (os_mkdir_all (so_os so) (sr_conf roots) 493)) (\<lambda>_.
     write_file_atomic so (conf_path roots key) (conf_body key v) 420)"

definition unpersist :: "'w sysctl_os \<Rightarrow> sysctl_roots \<Rightarrow> string \<Rightarrow> ('w, unit) io" where
  "unpersist so roots key w =
     (case os_remove (so_os so) (conf_path roots key) w of
        (FsError err, w') \<Rightarrow> (Inl (plain_error err), w') | (_, w') \<Rightarrow> (Inr (), w'))"

definition sysctl_apply :: "'w sysctl_os \<Rightarrow> sysctl_roots \<Rightarrow> request \<Rightarrow> action \<Rightarrow> ('w, unit) io" where
  "sysctl_apply so roots rq act =
     (let key = rq_target rq
      in case valid_key key of
        Some err \<Rightarrow> fail err
      | None \<Rightarrow>
          (case act of
             Remove \<Rightarrow> unpersist so roots key
           | NoAction \<Rightarrow> pure ()
           | Skip \<Rightarrow> pure ()
           | _ \<Rightarrow>
               (case request_field rq ''value'' of
                  None \<Rightarrow> fail (''procsys: '' @ ref_string (rq_ref rq) @ '' has no desired.value'')
                | Some v \<Rightarrow>
                    (case valid_value v of
                       Some err \<Rightarrow> fail err
                     | None \<Rightarrow> after (set_running so roots key v) (\<lambda>_. persist so roots key v)))))"

text \<open>
  The provider. Neither operation looks at its context; \<open>ended\<close> says whether that of an action
  had ended when it returned.
\<close>

definition sysctl_provider :: "'w sysctl_os \<Rightarrow> ('w \<Rightarrow> bool) \<Rightarrow> 'w provider" where
  "sysctl_provider so ended =
     \<lparr>p_name = ''proc-sys'', p_types = [''Sysctl''], p_observe = sysctl_observe so default_roots,
      p_apply = (\<lambda>w rq act. case sysctl_apply so default_roots rq act w of
        (Inr _, w') \<Rightarrow> (Applied, w') | (Inl e, w') \<Rightarrow> (ApplyFailed (ge_text e) (ended w'), w'))\<rparr>"

definition sysctl_detect :: "'w sysctl_os \<Rightarrow> 'w \<Rightarrow> bool" where
  "sysctl_detect so w =
     (case os_stat (so_os so) ''/proc/sys'' w of
        FsOk info \<Rightarrow> fst_is_dir info \<and> so_can_write so ''/proc/sys/kernel/hostname'' w
      | _ \<Rightarrow> False)"

section \<open>Specification\<close>

text \<open>
  What the operating system promises of files. The paths of \<open>linkless\<close> are those no link leads to
  or from, so that each names a file of its own; an operation on one path leaves what is read
  at every other of them as it was, whether it succeeds or not. Setting a parameter may change
  whatever the kernel shows below \<open>/proc\<close>, what is read of the parameter included: nothing is
  assumed of it. A temporary file is new and empty, and what is written to it is what it holds;
  to rename a file moves it; removing makes no file.
\<close>

definition file_at :: "'w sysctl_os \<Rightarrow> string \<Rightarrow> 'w \<Rightarrow> string option" where
  "file_at so q w = (case os_read_file (so_os so) q w of FsOk c \<Rightarrow> Some c | _ \<Rightarrow> None)"

definition look_at :: "'w sysctl_os \<Rightarrow> string \<Rightarrow> 'w \<Rightarrow> string fs_result \<times> bool" where
  "look_at so q w = (os_read_file (so_os so) q w, so_denied so q w)"

definition same_at :: "'w sysctl_os \<Rightarrow> string \<Rightarrow> 'w \<Rightarrow> 'w \<Rightarrow> bool" where
  "same_at so q w w' \<longleftrightarrow> look_at so q w' = look_at so q w"

definition in_proc :: "string \<Rightarrow> bool" where
  "in_proc q \<longleftrightarrow> has_prefix q ''/proc/''"

definition others_same :: "'w sysctl_os \<Rightarrow> string set \<Rightarrow> bool" where
  "others_same so linkless \<longleftrightarrow>
     (\<forall>q \<in> linkless. \<forall>w.
        (\<forall>p body. in_proc p \<and> \<not> in_proc q \<longrightarrow> same_at so q w (snd (so_set so p body w)))
        \<and> (\<forall>d m. \<not> within_root q d \<longrightarrow> same_at so q w (snd (os_mkdir_all (so_os so) d m w)))
        \<and> (\<forall>d pat. fst (os_create_temp (so_os so) d pat w) \<noteq> Inr q \<longrightarrow>
             same_at so q w (snd (os_create_temp (so_os so) d pat w)))
        \<and> (\<forall>p m. p \<noteq> q \<longrightarrow> same_at so q w (snd (so_chmod so p m w)))
        \<and> (\<forall>p body. p \<noteq> q \<longrightarrow> same_at so q w (snd (so_write so p body w)))
        \<and> (\<forall>p. p \<noteq> q \<longrightarrow> same_at so q w (snd (so_close so p w)))
        \<and> (\<forall>a b. q \<notin> {a, b} \<and> file_at so a w \<noteq> None \<longrightarrow> same_at so q w (snd (os_rename (so_os so) a b w)))
        \<and> (\<forall>p. p \<noteq> q \<longrightarrow> same_at so q w (snd (os_remove (so_os so) p w))))"

text \<open>The mode of the files written is one their owner can read; no directory changes a file's content.\<close>

definition file_laws :: "'w sysctl_os \<Rightarrow> string set \<Rightarrow> bool" where
  "file_laws so linkless \<longleftrightarrow> others_same so linkless
     \<and> (\<forall>q \<in> linkless. \<forall>w d m. file_at so q (snd (os_mkdir_all (so_os so) d m w)) = file_at so q w)
     \<and> (\<forall>w d pat temp w'. os_create_temp (so_os so) d pat w = (Inr temp, w') \<longrightarrow>
          has_prefix (snd (split_path temp)) pat \<and> file_at so temp w = None \<and> file_at so temp w' = Some [])
     \<and> (\<forall>w p w'. so_chmod so p 420 w = (None, w') \<longrightarrow> file_at so p w' = file_at so p w)
     \<and> (\<forall>w p body w'. so_write so p body w = (None, w') \<longrightarrow> file_at so p w = Some [] \<longrightarrow> file_at so p w' = Some body)
     \<and> (\<forall>w p w'. so_close so p w = (None, w') \<longrightarrow> file_at so p w' = file_at so p w)
     \<and> (\<forall>w a b w' c. os_rename (so_os so) a b w = (None, w') \<longrightarrow> file_at so a w = Some c \<longrightarrow> a \<noteq> b \<longrightarrow>
          file_at so b w' = Some c \<and> file_at so a w' = None)
     \<and> (\<forall>w p. file_at so p w = None \<longrightarrow> file_at so p (snd (os_remove (so_os so) p w)) = None)"

text \<open>Kernels have parameters that move with another; this is the case where none does.\<close>

definition independent_parameters :: "'w sysctl_os \<Rightarrow> bool" where
  "independent_parameters so \<longleftrightarrow> (\<forall>w p body q. p \<noteq> q \<longrightarrow> same_at so q w (snd (so_set so p body w)))"

text \<open>
  What a parameter is read from, and what it may be written to: its two files, a temporary file,
  the directories above the one of its file, and what links lead to.
\<close>

definition temp_named :: "string \<Rightarrow> bool" where
  "temp_named q \<longleftrightarrow> has_prefix (snd (split_path q)) ''.datum-sysctl-''"

definition parameter_reads :: "sysctl_roots \<Rightarrow> request \<Rightarrow> string set" where
  "parameter_reads roots rq =
     (if valid_key (rq_target rq) = None then {proc_path roots (rq_target rq), conf_path roots (rq_target rq)} else {})"

definition parameter_writes :: "string set \<Rightarrow> sysctl_roots \<Rightarrow> request \<Rightarrow> string set" where
  "parameter_writes linkless roots rq =
     parameter_reads roots rq \<union> {q. temp_named q} \<union> {q. within_root q (sr_conf roots)} \<union> - linkless"

section \<open>Lemmas\<close>

subsection \<open>The file that survives a reboot\<close>

lemma key_char_visible: "key_char c \<Longrightarrow> visible c \<and> c \<noteq> CHR ''='' \<and> c \<noteq> CHR 0x0A \<and> c \<noteq> CHR ''#'' \<and> c \<noteq> CHR '';'' \<and> c \<noteq> CHR ''/''"
  by (auto simp: key_char_def visible_def Let_def)

lemma valid_key_None: "valid_key key = None \<Longrightarrow> key \<noteq> [] \<and> list_all key_char key"
  by (auto simp: valid_key_def split: if_splits)

lemma key_ends:
  assumes "valid_key key = None"
  shows "visible (hd key)" "visible (last key)" "key \<noteq> []"
  using valid_key_None [OF assms] key_char_visible by (auto simp: list_all_iff)

lemma no_space_prefix:
  "t \<noteq> [] \<Longrightarrow> visible (hd t) \<Longrightarrow> list_all (\<lambda>e. e \<noteq> [] \<and> \<not> visible (hd e)) es \<Longrightarrow> find (has_prefix t) es = None"
  by (auto simp: find_None_iff list_all_iff has_prefix_iff)

lemma no_space_start: "s \<noteq> [] \<Longrightarrow> visible (hd s) \<Longrightarrow> find (has_prefix s) space_encodings = None"
  using space_heads by (intro no_space_prefix) (auto simp: list_all_iff)

lemma no_space_end: "s \<noteq> [] \<Longrightarrow> visible (hd s) \<Longrightarrow> find (has_prefix s) (map rev space_encodings) = None"
  using space_heads by (intro no_space_prefix) (auto simp: list_all_iff hd_rev)

lemma space_first: "space_encodings = '' '' # tl space_encodings"
proof -
  have "bytes [32] = '' ''" by code_simp
  then show ?thesis by (simp add: space_encodings_def)
qed

lemma find_space:
  "find (has_prefix (CHR '' '' # s)) space_encodings = Some '' ''"
  "find (has_prefix (CHR '' '' # s)) (map rev space_encodings) = Some '' ''"
  by (subst space_first, simp add: has_prefix_def)+

lemma trim_left_visible: "s \<noteq> [] \<Longrightarrow> visible (hd s) \<Longrightarrow> trim_left s = s"
  by (simp add: trim_left_def strip_from_id no_space_start)

lemma equals_no_space: "\<forall>e \<in> set (map rev space_encodings). CHR ''='' \<notin> set e"
proof -
  have "list_all (\<lambda>e. CHR ''='' \<notin> set e) (map rev space_encodings)" by code_simp
  then show ?thesis by (simp add: list_all_iff)
qed

lemma trim_key_space:
  assumes "valid_key key = None"
  shows "trim_space (key @ '' '') = key"
proof -
  note k = key_ends [OF assms]
  have "trim_right (key @ '' '') = rev (strip_from (map rev space_encodings) (length key) (rev key))"
    by (simp add: trim_right_def find_space)
  also have "\<dots> = key" using k by (simp add: strip_from_id no_space_end hd_rev)
  finally show ?thesis using k by (simp add: trim_space_def trim_left_visible)
qed

lemma trim_setting:
  assumes "valid_key key = None"
  shows "\<exists>rest. trim_space (key @ '' = '' @ v) = key @ '' ='' @ rest \<and> fields_of rest = fields_of v"
proof -
  note k = key_ends [OF assms]
  let ?n = "length (key @ '' = '' @ v)"
  let ?rest = "rev (strip_from (map rev space_encodings) ?n (rev ('' '' @ v)))"
  have "trim_right (key @ '' = '' @ v)
      = rev (strip_from (map rev space_encodings) ?n (rev ('' '' @ v) @ CHR ''='' # rev (key @ '' '')))"
    by (simp add: trim_right_def)
  also have "\<dots> = key @ '' ='' @ ?rest" unfolding strip_from_stop [OF equals_no_space] by simp
  finally have "trim_space (key @ '' = '' @ v) = key @ '' ='' @ ?rest"
    using k by (simp add: trim_space_def trim_left_visible)
  moreover have "fields_of ?rest = fields_of v"
  proof -
    have "fields_of ?rest = fields_of ('' '' @ v)" by (rule fields_of_strip)
    also have "\<dots> = fields_of v"
      by (simp add: fields_of_def fields_acc.simps [of "CHR '' '' # v"] space_at_def find_space)
    finally show ?thesis .
  qed
  ultimately show ?thesis by blast
qed

lemma cut_at_append: "c \<notin> set a \<Longrightarrow> cut_at c (a @ c # b) = Some (a, b)"
  by (induction a) auto

lemma stored_conf_body:
  assumes "valid_key key = None" "CHR 0x0A \<notin> set v"
  shows "stored_lines key (split_on (CHR 0x0A) (conf_body key v)) = Some (normalise v)"
proof -
  note k = key_ends [OF assms(1)]
  have kc: "list_all key_char key" using valid_key_None [OF assms(1)] by blast
  let ?c = "''# Managed by Datum. Edits are overwritten.''"
  have nl: "CHR 0x0A \<notin> set (key @ '' = '' @ v)" using assms(2) kc key_char_visible by (auto simp: list_all_iff)
  have "split_on (CHR 0x0A) (conf_body key v) = [?c, key @ '' = '' @ v, []]"
    unfolding conf_body_def
    using split_on_append_sep [of "CHR 0x0A" ?c "key @ '' = '' @ v @ [CHR 0x0A]"]
      split_on_append_sep [of "CHR 0x0A" "key @ '' = '' @ v" "[]"] split_on_no_sep [OF nl]
    by simp
  moreover have "trim_space ?c = ?c" by (rule trim_space_visible) (simp_all add: visible_def)
  moreover obtain rest where r: "trim_space (key @ '' = '' @ v) = key @ '' ='' @ rest" "fields_of rest = fields_of v"
    using trim_setting [OF assms(1)] by blast
  moreover have "\<not> has_prefix (key @ '' ='' @ rest) ''#''" "\<not> has_prefix (key @ '' ='' @ rest) '';''"
    using k(3) kc key_char_visible by (cases key; auto simp: has_prefix_def)+
  moreover have "cut_at (CHR ''='') (key @ '' ='' @ rest) = Some (key @ '' '', rest)"
    using cut_at_append [of "CHR ''=''" "key @ '' ''" rest] kc key_char_visible by (auto simp: list_all_iff)
  ultimately show ?thesis using trim_key_space [OF assms(1)]
    by (simp add: normalise_def has_prefix_def)
qed

subsection \<open>Files through an apply\<close>

lemma same_refl [simp]: "same_at so q w w"
  by (simp add: same_at_def)

lemma same_trans: "same_at so q w w' \<Longrightarrow> same_at so q w' w'' \<Longrightarrow> same_at so q w w''"
  by (simp add: same_at_def)

lemma same_file_at: "same_at so q w w' \<Longrightarrow> file_at so q w' = file_at so q w"
  by (simp add: same_at_def look_at_def file_at_def)

lemma effect_Inr: "effect f w = (Inr u, w') \<longleftrightarrow> f w = (None, w')"
  by (auto simp: effect_def split: prod.splits option.splits)

lemma snd_effect [simp]: "snd (effect f w) = snd (f w)"
  by (simp add: effect_def split: prod.split option.split)

lemma laws_others: "file_laws so linkless \<Longrightarrow> others_same so linkless"
  by (simp add: file_laws_def)

text \<open>What each operation does elsewhere, and to its own file.\<close>

lemma other_ops:
  assumes "file_laws so linkless" "q \<in> linkless"
  shows "in_proc p \<Longrightarrow> \<not> in_proc q \<Longrightarrow> same_at so q w (snd (so_set so p body w))"
    and "\<not> within_root q d \<Longrightarrow> same_at so q w (snd (os_mkdir_all (so_os so) d m w))"
    and "fst (os_create_temp (so_os so) d pat w) \<noteq> Inr q \<Longrightarrow> same_at so q w (snd (os_create_temp (so_os so) d pat w))"
    and "p \<noteq> q \<Longrightarrow> same_at so q w (snd (so_chmod so p m w))"
    and "p \<noteq> q \<Longrightarrow> same_at so q w (snd (so_write so p body w))"
    and "p \<noteq> q \<Longrightarrow> same_at so q w (snd (so_close so p w))"
    and "q \<noteq> p \<Longrightarrow> q \<noteq> b \<Longrightarrow> file_at so p w \<noteq> None \<Longrightarrow> same_at so q w (snd (os_rename (so_os so) p b w))"
    and "p \<noteq> q \<Longrightarrow> same_at so q w (snd (os_remove (so_os so) p w))"
  using laws_others [OF assms(1)] assms(2) by (simp_all add: others_same_def)

lemmas laws_own = file_laws_def [THEN iffD1, THEN conjunct2]
lemmas laws_temp = laws_own [THEN conjunct2, THEN conjunct2]

lemmas own_ops = laws_own [THEN conjunct1, rule_format] laws_own [THEN conjunct2, THEN conjunct1, rule_format]
  laws_temp [THEN conjunct1, rule_format] laws_temp [THEN conjunct2, THEN conjunct1, rule_format]
  laws_temp [THEN conjunct2, THEN conjunct2, THEN conjunct1, rule_format]
  laws_temp [THEN conjunct2, THEN conjunct2, THEN conjunct2, THEN conjunct1, rule_format]
  laws_temp [THEN conjunct2, THEN conjunct2, THEN conjunct2, THEN conjunct2, rule_format]

lemma after_effect:
  "after (effect f) g w = (case f w of (Some err, w') \<Rightarrow> (Inl (plain_error err), w') | (None, w') \<Rightarrow> g () w')"
  by (simp add: after_def effect_def split: prod.split option.split)

lemma split_path_append: "CHR ''/'' \<notin> set name \<Longrightarrow> snd (split_path (dir @ CHR ''/'' # name)) = name"
proof -
  assume "CHR ''/'' \<notin> set name"
  then have "takeWhile (\<lambda>c. c \<noteq> CHR ''/'') (rev name) = rev name" by (auto simp: takeWhile_eq_all_conv)
  moreover have "takeWhile (\<lambda>c. c \<noteq> CHR ''/'') (rev name @ CHR ''/'' # rev dir) = takeWhile (\<lambda>c. c \<noteq> CHR ''/'') (rev name)"
    by (rule takeWhile_tail) simp
  ultimately have t: "takeWhile (\<lambda>c. c \<noteq> CHR ''/'') (rev (dir @ CHR ''/'' # name)) = rev name"
    unfolding rev_append rev.simps append_assoc append.simps by (rule trans [rotated])
  show ?thesis unfolding split_path_def t by simp
qed

lemma conf_path_default:
  assumes "valid_key key = None"
  shows "conf_path default_roots key = ''/etc/sysctl.d/'' @ sysctl_prefix @ key @ ''.conf''"
proof -
  have kc: "CHR ''/'' \<notin> set key" using valid_key_None [OF assms] key_char_visible by (auto simp: list_all_iff)
  let ?cs = "[''etc'', ''sysctl.d'', sysctl_prefix @ key @ ''.conf'']"
  have "clean (abs_path ?cs) = abs_path ?cs"
    by (rule clean_abs_path) (use kc in \<open>auto simp: sysctl_prefix_def normal_component_def\<close>)
  then show ?thesis by (simp add: conf_path_def join_path_def default_roots_def abs_path_def Let_def sysctl_prefix_def)
qed

text \<open>A valid key names a file below the root of the parameters: none of its parts is empty.\<close>

lemma empty_part: "[] \<in> set (tl (split_on c s)) \<Longrightarrow> last s = c \<or> str_contains s [c, c]"
proof (induction s)
  case (Cons x s)
  obtain p ps where p: "split_on c s = p # ps" by (meson neq_Nil_conv split_on_not_Nil)
  show ?case
  proof (cases "x = c")
    case True
    show ?thesis
    proof (cases "[] \<in> set ps")
      case True
      then have "s \<noteq> []" "last s = c \<or> str_contains s [c, c]" using Cons.IH p by auto
      then show ?thesis by (auto simp: str_contains_def)
    next
      case False
      then have "p = []" using Cons.prems p \<open>x = c\<close> by simp
      then show ?thesis using p \<open>x = c\<close> by (cases s) (auto simp: str_contains_def has_prefix_def split: if_splits list.splits)
    qed
  next
    case False
    then have "[] \<in> set (tl (split_on c s))" using Cons.prems p by simp
    then have "s \<noteq> []" "last s = c \<or> str_contains s [c, c]" using Cons.IH by auto
    then show ?thesis by (auto simp: str_contains_def)
  qed
qed simp

lemma join_map_split:
  "join_with [d] (split_on c s) = map (\<lambda>x. if x = c then d else x) s"
proof (induction s)
  case (Cons x s)
  obtain p ps where p: "split_on c s = p # ps" by (meson neq_Nil_conv split_on_not_Nil)
  with Cons.IH show ?case by (cases ps) auto
qed simp

lemma proc_path_default:
  assumes "valid_key key = None"
  shows "proc_path default_roots key = ''/proc/sys/'' @ map (\<lambda>c. if c = CHR ''.'' then CHR ''/'' else c) key"
proof -
  have kc: "list_all key_char key" "key \<noteq> []" and d: "\<not> has_prefix key ''.''" "\<not> has_suffix key ''.''" "\<not> str_contains key ''..''"
    using assms by (auto simp: valid_key_def split: if_splits)
  let ?cs = "split_on CHR ''.'' key"
  have "w \<noteq> []" if "w \<in> set ?cs" for w
  proof
    assume "w = []"
    obtain p ps where p: "?cs = p # ps" by (meson neq_Nil_conv split_on_not_Nil)
    have "p \<noteq> []" using p d(1) kc(2) by (cases key) (auto simp: has_prefix_def split: if_splits list.splits)
    then have "[] \<in> set (tl ?cs)" using that \<open>w = []\<close> p by auto
    from empty_part [OF this] have "last key = CHR ''.''" using d(3) by blast
    then have "has_suffix key ''.''" using kc(2) by (metis append_butlast_last_id has_suffix_iff)
    then show False using d(2) by blast
  qed
  moreover have "CHR ''/'' \<notin> set w \<and> w \<noteq> ''.'' \<and> w \<noteq> ''..''" if "w \<in> set ?cs" for w
  proof -
    have "CHR ''/'' \<notin> set key" using kc(1) key_char_visible by (auto simp: list_all_iff)
    then have "CHR ''/'' \<notin> set (join_with ''.'' ?cs)" by (simp add: join_with_split_on)
    moreover have "set w \<subseteq> set (join_with ''.'' ws)" if "w \<in> set ws" for ws
      using that by (induction "''.''" ws rule: join_with.induct) auto
    moreover have "CHR ''.'' \<notin> set w" using that by (rule split_on_parts)
    ultimately show ?thesis using that by auto
  qed
  ultimately have "list_all normal_component ([''proc'', ''sys''] @ ?cs)"
    by (auto simp: list_all_iff normal_component_def)
  from clean_abs_path [OF this] have "clean (''/proc/sys/'' @ join_with ''/'' ?cs) = ''/proc/sys/'' @ join_with ''/'' ?cs"
    by (cases ?cs) (auto simp: abs_path_def)
  then show ?thesis using kc(2) unfolding join_map_split
    by (simp add: proc_path_def join_path_def default_roots_def Let_def)
qed

text \<open>Filling the temporary file and moving it, however far that gets.\<close>

lemma fill_temp_same:
  assumes laws: "file_laws so linkless" and q: "q \<in> linkless" "q \<noteq> temp" "q \<noteq> path" and t: "file_at so temp w = Some []"
  shows "same_at so q w (snd (fill_temp so temp path body 420 w))"
proof -
  obtain e1 w1 e2 w2 e3 w3 where s: "so_chmod so temp 420 w = (e1, w1)" "so_write so temp body w1 = (e2, w2)"
    "so_close so temp w2 = (e3, w3)" by (metis surj_pair)
  note ops = other_ops [OF laws q(1)]
  have k: "same_at so q w w1" "same_at so q w1 w2" "same_at so q w2 w3"
    using ops(4) [of temp w 420] ops(5) [of temp w1 body] ops(6) [of temp w2] q(2) s by simp_all
  from same_trans [OF k(1,2)] have k2: "same_at so q w w2" .
  from same_trans [OF this k(3)] have k3: "same_at so q w w3" .
  have r: "same_at so q w (snd (os_rename (so_os so) temp path w3))" if "e1 = None" "e2 = None" "e3 = None"
  proof -
    have "file_at so temp w3 = Some body"
      using own_ops(3) [OF laws, of temp w w1] own_ops(4) [OF laws, of temp body w1 w2] own_ops(5) [OF laws, of temp w2 w3] s t that by simp
    then show ?thesis using ops(7) [of temp path w3] q(2,3) by (intro same_trans [OF k3]) simp
  qed
  show ?thesis
    using k(1) k2 k3 r by (cases e1; cases e2; cases e3) (simp_all add: fill_temp_def after_effect s)
qed

lemma fill_temp_moves:
  assumes laws: "file_laws so linkless" and t: "file_at so temp w = Some []" "temp \<noteq> path"
    and ok: "fill_temp so temp path body 420 w = (Inr u, w')"
  shows "file_at so path w' = Some body" "file_at so temp w' = None"
proof -
  from ok obtain w1 w2 w3 where s: "so_chmod so temp 420 w = (None, w1)" "so_write so temp body w1 = (None, w2)"
    "so_close so temp w2 = (None, w3)" "os_rename (so_os so) temp path w3 = (None, w')"
    by (auto simp: fill_temp_def after_Inr effect_Inr)
  note ops = own_ops [OF laws]
  have "file_at so temp w3 = Some body" using ops(3) [OF s(1)] ops(4) [OF s(2)] ops(5) [OF s(3)] t(1) by simp
  from ops(6) [OF s(4) this t(2)] show "file_at so path w' = Some body" "file_at so temp w' = None" by blast+
qed

lemma write_file_atomic_same:
  assumes laws: "file_laws so linkless" and q: "q \<in> linkless" "\<not> temp_named q" "q \<noteq> path"
  shows "same_at so q w (snd (write_file_atomic so path body 420 w))"
proof -
  obtain r w1 where c: "os_create_temp (so_os so) (path_dir path) ''.datum-sysctl-'' w = (r, w1)" by fastforce
  show ?thesis
  proof (cases r)
    case (Inl err)
    with c other_ops(3) [OF laws q(1), of "path_dir path" "''.datum-sysctl-''" w] show ?thesis
      by (simp add: write_file_atomic_def create_temp_def after_def)
  next
    case (Inr temp)
    note t = own_ops(2) [OF laws c [unfolded Inr]]
    with q(2) have nt: "q \<noteq> temp" by (auto simp: temp_named_def)
    let ?w2 = "snd (fill_temp so temp path body 420 w1)"
    have "same_at so q w w1" using other_ops(3) [OF laws q(1), of "path_dir path" "''.datum-sysctl-''" w] c Inr nt by simp
    moreover have "same_at so q w1 ?w2" using t nt q by (intro fill_temp_same [OF laws]) simp_all
    moreover have "same_at so q ?w2 (snd (os_remove (so_os so) temp ?w2))" using other_ops(8) [OF laws q(1)] nt by simp
    ultimately have "same_at so q w (snd (os_remove (so_os so) temp ?w2))" by (blast intro: same_trans)
    then show ?thesis using c Inr by (simp add: write_file_atomic_def create_temp_def after_def case_prod_beta)
  qed
qed

text \<open>When it succeeds the file holds what was written, every other file what it held, and no temporary file is left.\<close>

lemma write_file_atomic_done:
  assumes laws: "file_laws so linkless" and ok: "write_file_atomic so path body 420 w = (Inr u, w')"
    and path: "\<not> temp_named path" "path \<in> linkless"
  shows "file_at so path w' = Some body" "q \<in> linkless \<Longrightarrow> q \<noteq> path \<Longrightarrow> file_at so q w' = file_at so q w"
proof -
  from ok obtain temp w1 w2 where c: "os_create_temp (so_os so) (path_dir path) ''.datum-sysctl-'' w = (Inr temp, w1)"
    and f: "fill_temp so temp path body 420 w1 = (Inr u, w2)" and w': "w' = snd (os_remove (so_os so) temp w2)"
    by (auto simp: write_file_atomic_def create_temp_def after_def split: prod.splits sum.splits)
  note t = own_ops(2) [OF laws c]
  with path have np: "temp \<noteq> path" by (auto simp: temp_named_def)
  note m = fill_temp_moves [OF laws _ np f] and rm = other_ops(8) [OF laws, of _ temp w2]
  show "file_at so path w' = Some body" using m(1) t same_file_at [OF rm [OF path(2) np]] by (simp add: w')
  show "file_at so q w' = file_at so q w" if q: "q \<in> linkless" "q \<noteq> path"
  proof (cases "q = temp")
    case True
    then show ?thesis using own_ops(7) [OF laws, of temp w2] m(2) t by (simp add: w')
  next
    case False
    have "same_at so q w w1" using other_ops(3) [OF laws q(1), of "path_dir path" "''.datum-sysctl-''" w] c False by simp
    moreover have "same_at so q w1 w2" using fill_temp_same [OF laws q(1) False q(2)] t f by (metis snd_conv)
    ultimately show ?thesis using same_file_at same_trans [of so q] rm [OF q(1)] False unfolding w' by metis
  qed
qed

lemma conf_not_temp: "valid_key key = None \<Longrightarrow> \<not> temp_named (conf_path default_roots key)"
proof -
  assume v: "valid_key key = None"
  have kc: "CHR ''/'' \<notin> set key" using valid_key_None [OF v] key_char_visible by (auto simp: list_all_iff)
  have conf: "conf_path default_roots key = ''/etc/sysctl.d'' @ CHR ''/'' # (sysctl_prefix @ key @ ''.conf'')"
    by (simp add: conf_path_default [OF v])
  show ?thesis
    unfolding conf temp_named_def by (subst split_path_append) (use kc in \<open>auto simp: sysctl_prefix_def has_prefix_def\<close>)
qed

lemma proc_in_proc: "valid_key key = None \<Longrightarrow> in_proc (proc_path default_roots key)"
  by (simp add: proc_path_default in_proc_def has_prefix_def)

lemma conf_not_in_proc: "valid_key key = None \<Longrightarrow> \<not> in_proc (conf_path default_roots key)"
  by (simp add: conf_path_default in_proc_def has_prefix_def)

text \<open>An apply without error: the file is there with its setting, and other files are as they were.\<close>

lemma sysctl_apply_done:
  assumes laws: "file_laws so linkless" and v: "valid_key (rq_target rq) = None" "request_field rq ''value'' = Some v"
    and act: "act \<in> {Create, Update}" and ok: "sysctl_apply so default_roots rq act w = (Inr u, w')"
    and linkless: "conf_path default_roots (rq_target rq) \<in> linkless"
  shows "CHR 0x0A \<notin> set v"
    and "file_at so (conf_path default_roots (rq_target rq)) w' = Some (conf_body (rq_target rq) v)"
    and "q \<in> linkless \<Longrightarrow> \<not> in_proc q \<Longrightarrow> q \<noteq> conf_path default_roots (rq_target rq) \<Longrightarrow> file_at so q w' = file_at so q w"
proof -
  let ?key = "rq_target rq"
  let ?proc = "proc_path default_roots ?key" and ?conf = "conf_path default_roots ?key"
  from ok v act have vv: "valid_value v = None"
    by (auto simp: sysctl_apply_def Let_def split: option.splits)
  then show "CHR 0x0A \<notin> set v" by (auto simp: valid_value_def split: if_splits)
  from ok v act vv obtain w1 where "set_running so default_roots ?key v w = (Inr (), w1)"
    and p: "persist so default_roots ?key v w1 = (Inr u, w')"
    by (auto simp: sysctl_apply_def Let_def after_Inr)
  then have s: "so_set so ?proc (v @ [CHR 0x0A]) w = (SetDone, w1)"
    by (auto simp: set_running_def split: prod.splits set_end.splits)
  from p obtain w2 where m: "os_mkdir_all (so_os so) (sr_conf default_roots) 493 w1 = (None, w2)"
    and a: "write_file_atomic so ?conf (conf_body ?key v) 420 w2 = (Inr u, w')"
    by (auto simp: persist_def after_Inr effect_Inr)
  note wrote = write_file_atomic_done [OF laws a conf_not_temp [OF v(1)] linkless]
  show "file_at so ?conf w' = Some (conf_body ?key v)" by (rule wrote(1))
  show "file_at so q w' = file_at so q w" if q: "q \<in> linkless" "\<not> in_proc q" "q \<noteq> ?conf"
  proof -
    have "file_at so q w1 = file_at so q w"
      using same_file_at [OF other_ops(1) [OF laws q(1) proc_in_proc [OF v(1)] q(2), of w "v @ [CHR 0x0A]"]] s by simp
    moreover have "file_at so q w2 = file_at so q w1"
      using own_ops(1) [OF laws q(1), of "sr_conf default_roots" 493 w1] m by simp
    ultimately show ?thesis using wrote(2) [OF q(1,3)] by simp
  qed
qed

lemma fields_of_newline: "fields_of (v @ [CHR 0x0A]) = fields_of v"
proof -
  have "[CHR 0x0A] = bytes [10]" by code_simp
  then have "[CHR 0x0A] \<in> set space_encodings" by (simp add: space_encodings_def)
  then show ?thesis unfolding fields_of_def by (rule fields_acc_append_space)
qed

subsection \<open>What a parameter touches\<close>

lemma same_after:
  "same_at so q w (snd (m w)) \<Longrightarrow> (\<And>x v. same_at so q v (snd (f x v))) \<Longrightarrow> same_at so q w (snd (after m f w))"
  by (auto simp: after_def split: prod.split sum.split) (metis same_trans snd_conv)

lemma sysctl_apply_same:
  assumes laws: "file_laws so linkless"
    and q: "q \<in> linkless" "\<not> temp_named q" "\<not> within_root q (sr_conf default_roots)" "q \<noteq> conf_path default_roots (rq_target rq)"
    and proc: "\<not> in_proc q \<or> independent_parameters so \<and> q \<noteq> proc_path default_roots (rq_target rq)"
  shows "same_at so q w (snd (sysctl_apply so default_roots rq act w))"
proof (cases "valid_key (rq_target rq)")
  case None
  let ?key = "rq_target rq"
  have "same_at so q v (snd (so_set so (proc_path default_roots ?key) body v))" for v body
    using proc other_ops(1) [OF laws q(1) proc_in_proc [OF None]] by (auto simp: independent_parameters_def)
  moreover have "snd (set_running so default_roots ?key x v) = snd (so_set so (proc_path default_roots ?key) (x @ [CHR 0x0A]) v)" for x v
    by (simp add: set_running_def split: prod.split set_end.split)
  ultimately have set: "same_at so q v (snd (set_running so default_roots ?key x v))" for x v by simp
  have persist: "same_at so q v (snd (persist so default_roots ?key x v))" for x v
    unfolding persist_def
    by (rule same_after) (use other_ops(2) [OF laws q(1,3)] write_file_atomic_same [OF laws q(1,2,4)] in simp_all)
  have "same_at so q w (snd (unpersist so default_roots ?key w))"
    using other_ops(8) [OF laws q(1) q(4) [symmetric], of w]
    by (auto simp: unpersist_def split: prod.split fs_result.split)
  with None set persist show ?thesis
    by (auto simp: sysctl_apply_def Let_def intro!: same_after split: action.split option.split)
qed (simp add: sysctl_apply_def Let_def)

lemma sysctl_observe_same:
  assumes "\<And>q. q \<in> parameter_reads roots rq \<Longrightarrow> look_at so q w = look_at so q w'"
  shows "sysctl_observe so roots w rq = sysctl_observe so roots w' rq"
proof (cases "valid_key (rq_target rq)")
  case None
  with assms have "look_at so (proc_path roots (rq_target rq)) w = look_at so (proc_path roots (rq_target rq)) w'"
    "look_at so (conf_path roots (rq_target rq)) w = look_at so (conf_path roots (rq_target rq)) w'"
    by (simp_all add: parameter_reads_def)
  then have "running_value so roots (rq_target rq) w = running_value so roots (rq_target rq) w'"
    "stored_value so roots (rq_target rq) w = stored_value so roots (rq_target rq) w'"
    by (simp_all add: look_at_def running_value_def stored_value_def split: fs_result.split)
  then show ?thesis by (simp only: sysctl_observe_def Let_def)
qed (simp add: sysctl_observe_def Let_def)

text \<open>A host is here its operating system and its paths without links.\<close>

interpretation sysctl_footprint: footprint
  "\<lambda>(so, linkless). file_laws so linkless \<and> independent_parameters so"
  "\<lambda>(so, linkless). sysctl_observe so default_roots"
  "\<lambda>(so, linkless) rq act w. snd (sysctl_apply so default_roots rq act w)"
  "\<lambda>(so, linkless). parameter_reads default_roots" "\<lambda>(so, linkless). parameter_writes linkless default_roots"
  "\<lambda>(so, linkless). look_at so"
proof (unfold_locales, goal_cases)
  case (1 h rq w w')
  obtain so linkless where h: "h = (so, linkless)" by fastforce
  have "sysctl_observe so default_roots w rq = sysctl_observe so default_roots w' rq"
    by (rule sysctl_observe_same) (use 1 in \<open>simp add: h\<close>)
  then show ?case by (simp add: h)
next
  case (2 h l rq act w)
  obtain so linkless where h: "h = (so, linkless)" by fastforce
  have "same_at so l w (snd (sysctl_apply so default_roots rq act w))"
  proof (cases "valid_key (rq_target rq)")
    case None
    then show ?thesis using 2 by (intro sysctl_apply_same) (auto simp: h parameter_writes_def parameter_reads_def)
  qed (simp add: sysctl_apply_def Let_def)
  then show ?case by (simp add: h same_at_def)
qed

lemma conf_root: "sr_conf default_roots = ''/etc/sysctl.d''"
  by (simp add: default_roots_def)

lemma proc_path_parts:
  assumes "valid_key key = None"
  shows "\<not> temp_named (proc_path default_roots key)" "\<not> within_root (proc_path default_roots key) (sr_conf default_roots)"
proof -
  let ?k = "map (\<lambda>c. if c = CHR ''.'' then CHR ''/'' else c) key"
  have "set (takeWhile (\<lambda>c. c \<noteq> CHR ''/'') (rev ?k @ CHR ''/'' # rev ''/proc/sys'')) \<subseteq> set ?k"
    by (auto simp: takeWhile_append dest: set_takeWhileD)
  moreover have "proc_path default_roots key = ''/proc/sys'' @ CHR ''/'' # ?k" by (simp add: proc_path_default [OF assms])
  ultimately have "set (snd (split_path (proc_path default_roots key))) \<subseteq> set ?k"
    by (simp only: split_path_def snd_conv rev_append rev.simps append_assoc append.simps set_rev)
  moreover have "CHR ''.'' \<notin> set ?k" by auto
  ultimately show "\<not> temp_named (proc_path default_roots key)" by (auto simp: temp_named_def has_prefix_iff)
  show "\<not> within_root (proc_path default_roots key) (sr_conf default_roots)"
    unfolding conf_root proc_path_default [OF assms] by (simp add: within_root_def has_prefix_def)
qed

lemma conf_path_parts:
  assumes "valid_key key = None"
  shows "\<not> within_root (conf_path default_roots key) (sr_conf default_roots)"
  unfolding conf_root conf_path_default [OF assms] by (auto simp: within_root_def has_prefix_iff)

lemma parameter_paths_differ:
  assumes "valid_key key = None" "valid_key key' = None" "key \<noteq> key'"
  shows "proc_path default_roots key \<noteq> proc_path default_roots key'" "conf_path default_roots key \<noteq> conf_path default_roots key'"
    "proc_path default_roots key \<noteq> conf_path default_roots key'"
proof -
  let ?f = "\<lambda>c. if c = CHR ''.'' then CHR ''/'' else c"
  have "CHR ''/'' \<notin> set key" "CHR ''/'' \<notin> set key'"
    using valid_key_None [OF assms(1)] valid_key_None [OF assms(2)] key_char_visible by (auto simp: list_all_iff)
  then have "inj_on ?f (set key \<union> set key')" by (auto simp: inj_on_def)
  with assms(3) show "proc_path default_roots key \<noteq> proc_path default_roots key'"
    by (simp add: proc_path_default [OF assms(1)] proc_path_default [OF assms(2)] inj_on_map_eq_map)
  show "conf_path default_roots key \<noteq> conf_path default_roots key'"
    using assms(3) by (simp add: conf_path_default [OF assms(1)] conf_path_default [OF assms(2)])
  show "proc_path default_roots key \<noteq> conf_path default_roots key'"
    by (simp add: proc_path_default [OF assms(1)] conf_path_default [OF assms(2)])
qed

text \<open>Applying one parameter does not show in the observation of another.\<close>

lemma sysctl_provider_apart:
  fixes ended :: "'w \<Rightarrow> bool"
  assumes laws: "file_laws so linkless" "independent_parameters so" and files: "parameter_reads default_roots rq' \<subseteq> linkless"
    and other: "rq_target rq' \<noteq> rq_target rq"
  defines "p \<equiv> sysctl_provider so ended"
  shows "p_observe p (snd (p_apply p w rq act)) rq' = p_observe p w rq'"
proof -
  have "parameter_reads default_roots rq' \<inter> parameter_writes linkless default_roots rq = {}"
    using files other parameter_paths_differ [of "rq_target rq'" "rq_target rq"] parameter_paths_differ(3) [of "rq_target rq" "rq_target rq'"]
      proc_path_parts [of "rq_target rq'"] conf_path_parts [of "rq_target rq'"] conf_not_temp [of "rq_target rq'"]
    by (auto simp: parameter_writes_def parameter_reads_def split: if_splits)
  with sysctl_footprint.apart [of "(so, linkless)" rq' rq act w] laws
  have "sysctl_observe so default_roots (snd (sysctl_apply so default_roots rq act w)) rq' = sysctl_observe so default_roots w rq'"
    by simp
  moreover have "snd (p_apply p w rq act) = snd (sysctl_apply so default_roots rq act w)"
    by (simp add: p_def sysctl_provider_def split: prod.split sum.split)
  ultimately show ?thesis by (simp add: p_def sysctl_provider_def)
qed

text \<open>No parameter touches a file elsewhere.\<close>

lemma sysctl_provider_spares:
  assumes "file_laws so linkless" "q \<in> linkless" "\<not> temp_named q" "\<not> within_root q (sr_conf default_roots)"
    and "\<not> within_root (sr_conf default_roots) q" "\<not> in_proc q"
  shows "os_read_file (so_os so) q (snd (p_apply (sysctl_provider so ended) w rq act)) = os_read_file (so_os so) q w"
proof -
  let ?q = "conf_path default_roots (rq_target rq)"
  have "same_at so q w (snd (sysctl_apply so default_roots rq act w))"
  proof (cases "valid_key (rq_target rq)")
    case None
    have "within_root (sr_conf default_roots) ?q"
      unfolding conf_root conf_path_default [OF None] by (simp add: within_root_def has_prefix_def)
    with assms(5) have "q \<noteq> ?q" by blast
    with assms show ?thesis by (intro sysctl_apply_same) simp_all
  qed (simp add: sysctl_apply_def Let_def)
  then show ?thesis
    by (auto simp: sysctl_provider_def same_at_def look_at_def split: prod.split sum.split)
qed

section \<open>Properties\<close>


text \<open>A host of files whose parameters are among them.\<close>

definition files_sysctl :: "files sysctl_os" where
  "files_sysctl = \<lparr>so_os = files_os, so_denied = (\<lambda>p w. False),
     so_set = (\<lambda>p body w. if map_of w p = None then (SetMissing, w) else (SetDone, AList.update p body w)),
     so_chmod = (\<lambda>p m w. (None, w)), so_write = (\<lambda>p body w. (None, AList.update p body w)),
     so_close = (\<lambda>p w. (None, w)), so_can_write = (\<lambda>p w. True)\<rparr>"

lemma files_laws: "file_laws files_sysctl UNIV" "independent_parameters files_sysctl"
proof -
  have temp: "has_prefix (snd (split_path (d @ CHR ''/'' # (pat @ ''1'')))) pat" if "CHR ''/'' \<notin> set pat" for d pat
    by (subst split_path_append) (use that in auto)
  have "others_same files_sysctl UNIV"
    unfolding others_same_def
    by (auto simp: files_sysctl_def files_os_def same_at_def look_at_def file_at_def update_conv' delete_conv' in_proc_def
        Let_def split: option.splits if_splits)
  then show "file_laws files_sysctl UNIV"
    unfolding file_laws_def
    by (auto simp: files_sysctl_def files_os_def file_at_def update_conv' delete_conv' temp Let_def split: option.splits if_splits)
  show "independent_parameters files_sysctl"
    by (auto simp: independent_parameters_def files_sysctl_def files_os_def same_at_def look_at_def update_conv')
qed

definition demo_request :: request where
  "demo_request = \<lparr>rq_ref = Reference ''Sysctl'' ''vm.a'', rq_target = ''vm.a'',
     rq_desired = map_val [(''value'', scalar_val ''1  2'')], rq_layerDir = [], rq_repoRoot = [], rq_trigger = NoTrigger\<rparr>"

definition demo_files :: files where
  "demo_files = [(''/proc/sys/vm/a'', ''0'')]"

lemma demo_request_facts:
  "valid_key (rq_target demo_request) = None" "request_field demo_request ''value'' = Some ''1  2''"
  "request_present demo_request" "normalise ''1  2'' = ''1 2''"
  by code_simp+

lemma demo_applied:
  "sysctl_apply files_sysctl default_roots demo_request Update demo_files = (Inr (),
     [(''/proc/sys/vm/a'', ''1  2'' @ [CHR 0x0A]), (''/etc/sysctl.d/70-datum-vm.a.conf'', conf_body ''vm.a'' ''1  2'')])"
  "running_value files_sysctl default_roots ''vm.a''
     [(''/proc/sys/vm/a'', ''1  2'' @ [CHR 0x0A]), (''/etc/sysctl.d/70-datum-vm.a.conf'', conf_body ''vm.a'' ''1  2'')] = Inr (''1 2'', True)"
  by code_simp+


end
