(* ===== verification/Capability.thy ===== *)
theory Capability
  imports Provider Words Discover
begin

text \<open>
  Packages \<open>internal/osrelease\<close> and \<open>internal/capability\<close>: which distribution a host runs, and
  which provider serves each resource type on it. What a candidate finds out about the host is
  a flag of the candidate.
\<close>

section \<open>Definitions\<close>

subsection \<open>os-release\<close>

record release =
  rl_id :: string
  rl_like :: "string list"
  rl_version :: string

definition release_paths :: "string list" where
  "release_paths = [''/etc/os-release'', ''/usr/lib/os-release'']"

definition identifiers :: "release \<Rightarrow> string list" where
  "identifiers r = (if rl_id r \<noteq> [] then [rl_id r] else []) @ rl_like r"

definition unquote :: "string \<Rightarrow> string" where
  "unquote s =
     (let v = trim_space s
      in if 2 \<le> length v \<and> (hd v = CHR 0x22 \<and> last v = CHR 0x22 \<or> hd v = CHR 0x27 \<and> last v = CHR 0x27)
         then butlast (tl v) else v)"

definition release_line :: "release \<Rightarrow> string \<Rightarrow> release" where
  "release_line r line =
     (case cut_at (CHR ''='') (trim_space line) of
        None \<Rightarrow> r
      | Some (key, v) \<Rightarrow>
          if has_prefix key ''#'' then r
          else if key = ''ID'' then r\<lparr>rl_id := unquote v\<rparr>
          else if key = ''ID_LIKE'' then r\<lparr>rl_like := fields_of (unquote v)\<rparr>
          else if key = ''VERSION_ID'' then r\<lparr>rl_version := unquote v\<rparr>
          else r)"

definition parse_release :: "string \<Rightarrow> release" where
  "parse_release body =
     (let r = foldl release_line \<lparr>rl_id = [], rl_like = [], rl_version = []\<rparr> (scan_lines body)
      in if rl_id r = [] then r\<lparr>rl_id := ''linux''\<rparr> else r)"

text \<open>The first of the files that opens.\<close>

fun read_release :: "(string \<Rightarrow> string option) \<Rightarrow> string list \<Rightarrow> release" where
  "read_release files [] = \<lparr>rl_id = ''linux'', rl_like = [], rl_version = []\<rparr>"
| "read_release files (path # paths) =
     (case files path of None \<Rightarrow> read_release files paths | Some body \<Rightarrow> parse_release body)"

subsection \<open>Candidates\<close>

record 'w host_candidate =
  cd_provider :: "'w provider"
  cd_distributions :: "string list"
  cd_usable :: bool
  cd_needs :: string

definition any_host :: "'w provider \<Rightarrow> 'w host_candidate" where
  "any_host p = \<lparr>cd_provider = p, cd_distributions = [], cd_usable = True, cd_needs = []\<rparr>"

definition candidates ::
    "'w provider \<Rightarrow> 'w provider \<Rightarrow> 'w provider \<Rightarrow> 'w provider \<Rightarrow> bool \<Rightarrow> 'w provider \<Rightarrow> bool \<Rightarrow> 'w provider \<Rightarrow> bool
      \<Rightarrow> 'w host_candidate list" where
  "candidates posix apt dnf linuxuser shadow procsys sysctls systemd booted =
     [any_host posix, (any_host apt)\<lparr>cd_distributions := [''debian'']\<rparr>,
      (any_host dnf)\<lparr>cd_distributions := [''fedora'', ''rhel'']\<rparr>,
      (any_host linuxuser)\<lparr>cd_usable := shadow, cd_needs := ''the shadow utilities''\<rparr>,
      (any_host procsys)\<lparr>cd_usable := sysctls, cd_needs := ''a writable /proc/sys''\<rparr>,
      (any_host systemd)\<lparr>cd_usable := booted, cd_needs := ''systemd as the init system''\<rparr>]"

definition by_type :: "'w host_candidate list \<Rightarrow> (string \<times> 'w host_candidate list) list" where
  "by_type cs =
     foldl (\<lambda>m (t, c). AList.update t ((case map_of m t of None \<Rightarrow> [] | Some l \<Rightarrow> l) @ [c]) m) []
       (concat (map (\<lambda>c. map (\<lambda>t. (t, c)) (p_types (cd_provider c))) cs))"

definition describe_release :: "release \<Rightarrow> string" where
  "describe_release r =
     ''ID='' @ rl_id r @ (if rl_like r = [] then '', ID_LIKE unset'' else '', ID_LIKE='' @ join_with '' '' (rl_like r))"

definition ambiguous_providers :: "'w host_candidate list \<Rightarrow> string \<Rightarrow> string" where
  "ambiguous_providers matched scope =
     join_with '' and '' (sort (map (\<lambda>c. p_name (cd_provider c)) matched)) @ '' both claim '' @ scope
       @ '', so somebody has to choose''"

definition the_one :: "'w host_candidate list \<Rightarrow> string \<Rightarrow> string + 'w provider option" where
  "the_one matched scope =
     (case matched of [] \<Rightarrow> Inr None | [c] \<Rightarrow> Inr (Some (cd_provider c)) | _ \<Rightarrow> Inl (ambiguous_providers matched scope))"

definition best :: "'w host_candidate list \<Rightarrow> string \<Rightarrow> string + 'w provider option" where
  "best cs identifier = the_one (filter (\<lambda>c. identifier \<in> set (cd_distributions c)) cs) identifier"

fun pick_named :: "'w host_candidate list \<Rightarrow> string list \<Rightarrow> string + 'w provider option" where
  "pick_named cs [] = Inr None"
| "pick_named cs (i # is) = (case best cs i of Inr None \<Rightarrow> pick_named cs is | r \<Rightarrow> r)"

definition pick :: "'w host_candidate list \<Rightarrow> release \<Rightarrow> string + 'w provider option" where
  "pick cs r =
     (case pick_named cs (identifiers r) of
        Inr None \<Rightarrow> the_one (filter (\<lambda>c. cd_distributions c = []) cs) (describe_release r)
      | res \<Rightarrow> res)"

definition missing_needs :: "'w host_candidate list \<Rightarrow> string" where
  "missing_needs cs =
     join_with '', '' (sort (map (\<lambda>c. p_name (cd_provider c) @ '' needs '' @ cd_needs c) (filter (\<lambda>c. cd_needs c \<noteq> []) cs)))"

record 'w selected =
  sl_chosen :: "'w provider list"
  sl_problems :: "string list"
  sl_unserved :: "(string \<times> string) list"

definition candidates_for :: "(string \<times> 'w host_candidate list) list \<Rightarrow> string \<Rightarrow> 'w host_candidate list" where
  "candidates_for m t = (case map_of m t of None \<Rightarrow> [] | Some cs \<Rightarrow> cs)"

definition select_type :: "(string \<times> 'w host_candidate list) list \<Rightarrow> (string \<times> 'w host_candidate list) list \<Rightarrow> release
    \<Rightarrow> 'w selected \<Rightarrow> string \<Rightarrow> 'w selected" where
  "select_type usable ruled_out r sl t =
     (let gap = (\<lambda>sl. sl\<lparr>sl_unserved := AList.update t (missing_needs (candidates_for ruled_out t)) (sl_unserved sl)\<rparr>)
      in case pick (candidates_for usable t) r of
        Inr (Some p) \<Rightarrow> sl\<lparr>sl_chosen := sl_chosen sl @ [p]\<rparr>
      | Inr None \<Rightarrow> gap sl
      | Inl err \<Rightarrow> gap (sl\<lparr>sl_problems := sl_problems sl @ [t @ '': '' @ err]\<rparr>))"

definition rule_out :: "(string \<times> 'w host_candidate list) list \<Rightarrow> (string \<times> string) list \<Rightarrow> string \<times> 'w host_candidate list
    \<Rightarrow> (string \<times> string) list" where
  "rule_out usable m tc =
     (if map_of m (fst tc) \<noteq> None \<or> map_of usable (fst tc) \<noteq> None then m
      else AList.update (fst tc) (missing_needs (snd tc)) m)"

definition select_from :: "'w host_candidate list \<Rightarrow> release \<Rightarrow> string list + 'w provider_set" where
  "select_from cs r =
     (let usable = by_type (filter cd_usable cs);
          ruled_out = by_type (filter (\<lambda>c. \<not> cd_usable c) cs);
          sl = foldl (select_type usable ruled_out r) \<lparr>sl_chosen = [], sl_problems = [], sl_unserved = []\<rparr>
                 (sorted_keys usable)
      in if sl_problems sl \<noteq> [] then Inl (sl_problems sl)
         else Inr ((new_set (sl_chosen sl))\<lparr>pv_host := describe_release r,
                     pv_unserved := foldl (rule_out usable) (sl_unserved sl) ruled_out\<rparr>))"

section \<open>Specification\<close>

definition type_serving :: "'w host_candidate list \<Rightarrow> string \<Rightarrow> 'w host_candidate list" where
  "type_serving cs t = filter (\<lambda>c. t \<in> set (p_types (cd_provider c))) cs"

text \<open>
  The rule of selection: the one candidate that claims the first identifier of the host that any
  candidate claims, or, if none is claimed, the one that claims no distribution.
\<close>

definition chosen_by :: "'w host_candidate list \<Rightarrow> string list \<Rightarrow> 'w host_candidate \<Rightarrow> bool" where
  "chosen_by cs ids c \<longleftrightarrow>
     (\<exists>before i rest. ids = before @ i # rest \<and> filter (\<lambda>c. i \<in> set (cd_distributions c)) cs = [c]
        \<and> (\<forall>j \<in> set before. \<forall>c' \<in> set cs. j \<notin> set (cd_distributions c')))
     \<or> (\<forall>j \<in> set ids. \<forall>c' \<in> set cs. j \<notin> set (cd_distributions c'))
        \<and> filter (\<lambda>c. cd_distributions c = []) cs = [c]"

text \<open>Providers that share a type serve the same types, each listed once.\<close>

definition uniform :: "'w host_candidate list \<Rightarrow> bool" where
  "uniform cs \<longleftrightarrow>
     (\<forall>c \<in> set cs. distinct (p_types (cd_provider c)))
     \<and> (\<forall>c \<in> set cs. \<forall>c' \<in> set cs. set (p_types (cd_provider c)) \<inter> set (p_types (cd_provider c')) \<noteq> {} \<longrightarrow>
          set (p_types (cd_provider c)) = set (p_types (cd_provider c')))"

section \<open>Lemmas\<close>

lemma by_type_fold:
  "map_of (foldl (\<lambda>m (t, c). AList.update t ((case map_of m t of None \<Rightarrow> [] | Some l \<Rightarrow> l) @ [c]) m) m tcs) t
     = (if map_of m t = None \<and> t \<notin> fst ` set tcs then None
        else Some (candidates_for m t @ map snd (filter (\<lambda>(t', c). t' = t) tcs)))"
proof (induction tcs arbitrary: m)
  case Nil
  then show ?case by (simp add: candidates_for_def split: option.split)
next
  case (Cons tc tcs)
  then show ?case
    by (cases tc) (auto simp: update_conv' candidates_for_def split: option.splits)
qed

lemma pairs_of_type:
  assumes "\<forall>c \<in> set cs. distinct (p_types (cd_provider c))"
  shows "map snd (filter (\<lambda>(t', c). t' = t) (concat (map (\<lambda>c. map (\<lambda>t. (t, c)) (p_types (cd_provider c))) cs))) = type_serving cs t"
  using assms
proof (induction cs)
  case (Cons c cs)
  have "map snd (filter (\<lambda>(t', c). t' = t) (map (\<lambda>t. (t, c)) ts)) = (if t \<in> set ts then [c] else [])" if "distinct ts" for ts
    using that by (induction ts) auto
  with Cons show ?case by (simp add: type_serving_def)
qed (simp add: type_serving_def)

lemma some_type: "t \<in> fst ` set (concat (map (\<lambda>c. map (\<lambda>t. (t, c)) (p_types (cd_provider c))) cs)) \<longleftrightarrow> type_serving cs t \<noteq> []"
  by (induction cs) (auto simp: type_serving_def image_Un image_image)

lemma by_type_serving:
  assumes "\<forall>c \<in> set cs. distinct (p_types (cd_provider c))"
  shows "map_of (by_type cs) t = (if type_serving cs t = [] then None else Some (type_serving cs t))"
    "candidates_for (by_type cs) t = type_serving cs t"
proof -
  show *: "map_of (by_type cs) t = (if type_serving cs t = [] then None else Some (type_serving cs t))"
    unfolding by_type_def by_type_fold pairs_of_type [OF assms] some_type
    by (simp add: candidates_for_def)
  then show "candidates_for (by_type cs) t = type_serving cs t" by (simp add: candidates_for_def)
qed

lemma the_one_Some: "the_one matched scope = Inr (Some p) \<longleftrightarrow> (\<exists>c. matched = [c] \<and> cd_provider c = p)"
  by (auto simp: the_one_def split: list.splits)

lemma the_one_None: "the_one matched scope = Inr None \<longleftrightarrow> matched = []"
  by (auto simp: the_one_def split: list.splits)

lemma pick_named_None: "pick_named cs ids = Inr None \<longleftrightarrow> (\<forall>j \<in> set ids. \<forall>c \<in> set cs. j \<notin> set (cd_distributions c))"
proof (induction ids)
  case (Cons i ids)
  have "best cs i = Inr None \<longleftrightarrow> (\<forall>c \<in> set cs. i \<notin> set (cd_distributions c))"
    by (auto simp: best_def the_one_None filter_empty_conv)
  moreover have "pick_named cs (i # ids) = (if best cs i = Inr None then pick_named cs ids else best cs i)"
    by (auto split: sum.splits option.splits)
  ultimately show ?case using Cons by auto
qed simp

lemma pick_named_Some:
  "pick_named cs ids = Inr (Some p) \<longleftrightarrow>
     (\<exists>before i rest c. ids = before @ i # rest \<and> filter (\<lambda>c. i \<in> set (cd_distributions c)) cs = [c] \<and> cd_provider c = p
        \<and> (\<forall>j \<in> set before. \<forall>c' \<in> set cs. j \<notin> set (cd_distributions c')))"
  (is "_ \<longleftrightarrow> ?spec ids")
proof (induction ids)
  case (Cons i ids)
  show ?case
  proof (cases "best cs i = Inr None")
    case True
    then have none: "\<forall>c' \<in> set cs. i \<notin> set (cd_distributions c')" by (simp add: best_def the_one_None filter_empty_conv)
    have "?spec (i # ids) \<longleftrightarrow> ?spec ids"
    proof
      assume "?spec (i # ids)"
      then obtain before j rest c where *: "i # ids = before @ j # rest" "filter (\<lambda>c. j \<in> set (cd_distributions c)) cs = [c]"
        "cd_provider c = p" "\<forall>j \<in> set before. \<forall>c' \<in> set cs. j \<notin> set (cd_distributions c')" by blast
      have "before \<noteq> []" using *(1,2) none by (auto simp: filter_empty_conv)
      with * show "?spec ids" by (cases before) auto
    next
      assume "?spec ids"
      then obtain before j rest c where "ids = before @ j # rest" "filter (\<lambda>c. j \<in> set (cd_distributions c)) cs = [c]"
        "cd_provider c = p" "\<forall>j \<in> set before. \<forall>c' \<in> set cs. j \<notin> set (cd_distributions c')" by blast
      with none show "?spec (i # ids)" by (intro exI [of _ "i # before"] exI [of _ j] exI [of _ rest] exI [of _ c]) simp
    qed
    with Cons True show ?thesis by simp
  next
    case False
    then obtain c where c: "c \<in> set cs" "i \<in> set (cd_distributions c)" by (auto simp: best_def the_one_None filter_empty_conv)
    have "?spec (i # ids) \<longleftrightarrow> (\<exists>c. filter (\<lambda>c. i \<in> set (cd_distributions c)) cs = [c] \<and> cd_provider c = p)"
    proof
      assume "?spec (i # ids)"
      then obtain before j rest c' where *: "i # ids = before @ j # rest" "filter (\<lambda>c. j \<in> set (cd_distributions c)) cs = [c']"
        "cd_provider c' = p" "\<forall>j \<in> set before. \<forall>c' \<in> set cs. j \<notin> set (cd_distributions c')" by blast
      have "before = []" using *(1,4) c by (cases before) auto
      with * show "\<exists>c. filter (\<lambda>c. i \<in> set (cd_distributions c)) cs = [c] \<and> cd_provider c = p" by auto
    qed (metis append_Nil empty_iff list.set(1))
    moreover have "pick_named cs (i # ids) = best cs i" using False by (auto split: sum.splits option.splits)
    ultimately show ?thesis by (simp add: best_def the_one_Some)
  qed
qed simp

lemma pick_iff: "pick cs r = Inr (Some p) \<longleftrightarrow> (\<exists>c. cd_provider c = p \<and> chosen_by cs (identifiers r) c)"
proof (cases "pick_named cs (identifiers r) = Inr None")
  case True
  then have none: "\<forall>j \<in> set (identifiers r). \<forall>c \<in> set cs. j \<notin> set (cd_distributions c)" by (simp add: pick_named_None)
  have "\<not> (\<exists>before i rest c. identifiers r = before @ i # rest \<and> filter (\<lambda>c. i \<in> set (cd_distributions c)) cs = [c])"
    using none by (metis filter_empty_conv in_set_conv_decomp list.distinct(1))
  with True none show ?thesis by (auto simp: pick_def the_one_Some chosen_by_def)
next
  case False
  then have "pick cs r = pick_named cs (identifiers r)" by (auto simp: pick_def split: sum.splits option.splits)
  with False show ?thesis using pick_named_None [of cs "identifiers r"] by (auto simp: pick_named_Some chosen_by_def)
qed

lemma chosen_by_mem: "chosen_by cs ids c \<Longrightarrow> c \<in> set cs"
proof -
  have "c \<in> set cs" if "filter P cs = [c]" for P
    using arg_cong [of _ _ set, OF that] by auto
  then show "chosen_by cs ids c \<Longrightarrow> c \<in> set cs" by (auto simp: chosen_by_def)
qed

lemma serving_same:
  assumes "uniform cs" "c \<in> set (type_serving cs t)" "t' \<in> set (p_types (cd_provider c))"
  shows "type_serving cs t' = type_serving cs t"
proof -
  have "t' \<in> set (p_types (cd_provider x)) \<longleftrightarrow> t \<in> set (p_types (cd_provider x))" if "x \<in> set cs" for x
    using assms that by (auto simp: uniform_def type_serving_def; blast)
  then show ?thesis by (auto simp: type_serving_def intro: filter_cong)
qed

lemma select_types:
  "sl_problems (foldl (select_type usable ruled r) sl ts) = [] \<longleftrightarrow>
     sl_problems sl = [] \<and> (\<forall>t \<in> set ts. \<exists>p. pick (candidates_for usable t) r = Inr p)"
  "\<lbrakk>\<forall>t \<in> set ts. \<exists>p. pick (candidates_for usable t) r = Inr p\<rbrakk> \<Longrightarrow>
     sl_chosen (foldl (select_type usable ruled r) sl ts)
       = sl_chosen sl @ concat (map (\<lambda>t. case pick (candidates_for usable t) r of Inr (Some p) \<Rightarrow> [p] | _ \<Rightarrow> []) ts)"
proof -
  show "sl_problems (foldl (select_type usable ruled r) sl ts) = [] \<longleftrightarrow>
     sl_problems sl = [] \<and> (\<forall>t \<in> set ts. \<exists>p. pick (candidates_for usable t) r = Inr p)"
    by (induction ts arbitrary: sl) (auto simp: select_type_def Let_def split: sum.splits option.splits)
  show "\<lbrakk>\<forall>t \<in> set ts. \<exists>p. pick (candidates_for usable t) r = Inr p\<rbrakk> \<Longrightarrow>
     sl_chosen (foldl (select_type usable ruled r) sl ts)
       = sl_chosen sl @ concat (map (\<lambda>t. case pick (candidates_for usable t) r of Inr (Some p) \<Rightarrow> [p] | _ \<Rightarrow> []) ts)"
    by (induction ts arbitrary: sl) (auto simp: select_type_def Let_def split: sum.splits option.splits)
qed

lemma update_types:
  "map_of (foldl (\<lambda>m t. AList.update t p m) m ts) t = (if t \<in> set ts then Some p else map_of m t)"
  by (induction ts arbitrary: m) (auto simp: update_conv')

lemma update_providers:
  assumes "\<And>p q. p \<in> set ps \<Longrightarrow> q \<in> set ps \<Longrightarrow> t \<in> set (p_types p) \<Longrightarrow> t \<in> set (p_types q) \<Longrightarrow> p = q"
  shows "map_of (foldl (\<lambda>m p. foldl (\<lambda>m t. AList.update t p m) m (p_types p)) m ps) t = Some p
     \<longleftrightarrow> p \<in> set ps \<and> t \<in> set (p_types p) \<or> (\<forall>q \<in> set ps. t \<notin> set (p_types q)) \<and> map_of m t = Some p"
  using assms
proof (induction ps arbitrary: m)
  case (Cons q ps)
  then have "map_of (foldl (\<lambda>m p. foldl (\<lambda>m t. AList.update t p m) m (p_types p)) (foldl (\<lambda>m t. AList.update t q m) m (p_types q)) ps) t
      = Some p \<longleftrightarrow> p \<in> set ps \<and> t \<in> set (p_types p)
        \<or> (\<forall>q \<in> set ps. t \<notin> set (p_types q)) \<and> (if t \<in> set (p_types q) then q = p else map_of m t = Some p)"
    by (simp add: update_types)
  moreover have "p' = q" if "t \<in> set (p_types q)" "p' \<in> set ps" "t \<in> set (p_types p')" for p'
    by (rule Cons.prems) (simp_all add: that)
  ultimately show ?case by (cases "t \<in> set (p_types q)") auto
qed simp

lemma for_new_set:
  assumes "\<And>p q. p \<in> set ps \<Longrightarrow> q \<in> set ps \<Longrightarrow> t \<in> set (p_types p) \<Longrightarrow> t \<in> set (p_types q) \<Longrightarrow> p = q"
  shows "provider_for (new_set ps) t = Some p \<longleftrightarrow> p \<in> set ps \<and> t \<in> set (p_types p)"
  using update_providers [OF assms] by (simp add: provider_for_def new_set_def)

lemma found_set:
  "set (concat (map (\<lambda>t. case f t of Inr (Some p) \<Rightarrow> [p] | _ \<Rightarrow> []) ts)) = {p. \<exists>t \<in> set ts. f t = Inr (Some p)}"
  by (induction ts) (auto split: sum.splits option.splits)

lemma select_chosen:
  assumes "select_from cs r = Inr s"
  obtains ps where "set ps = {p. \<exists>t. pick (candidates_for (by_type (filter cd_usable cs)) t) r = Inr (Some p)}"
    "\<And>t. provider_for s t = provider_for (new_set ps) t"
proof -
  let ?u = "by_type (filter cd_usable cs)"
  let ?sl = "foldl (select_type ?u (by_type (filter (\<lambda>c. \<not> cd_usable c) cs)) r)
    \<lparr>sl_chosen = [], sl_problems = [], sl_unserved = []\<rparr> (sorted_keys ?u)"
  from assms have "sl_problems ?sl = []" "\<And>t. provider_for s t = provider_for (new_set (sl_chosen ?sl)) t"
    by (auto simp: select_from_def Let_def provider_for_def split: if_splits)
  note fine = this
  from fine(1) have "sl_chosen ?sl = concat (map (\<lambda>t. case pick (candidates_for ?u t) r of Inr (Some p) \<Rightarrow> [p] | _ \<Rightarrow> []) (sorted_keys ?u))"
    by (simp add: select_types)
  then have in_set: "set (sl_chosen ?sl) = {p. \<exists>t \<in> fst ` set ?u. pick (candidates_for ?u t) r = Inr (Some p)}"
    by (simp only: found_set set_sorted_keys)
  have "t \<in> fst ` set ?u" if "pick (candidates_for ?u t) r = Inr (Some p)" for t p
  proof (rule ccontr)
    assume "t \<notin> fst ` set ?u"
    then have "candidates_for ?u t = []" by (simp add: candidates_for_def map_of_eq_None_iff [THEN iffD2])
    with that show False by (auto simp: pick_iff chosen_by_def)
  qed
  with in_set have "set (sl_chosen ?sl) = {p. \<exists>t. pick (candidates_for ?u t) r = Inr (Some p)}" by blast
  then show ?thesis by (rule that) (rule fine(2))
qed

text \<open>
  C22: What a host can reconcile is what its candidates say, whatever order they are listed in
  and however many types they share: when the candidates that work on the host and share a type
  serve the same types, and the selection reports no conflict, a type is served by a provider
  exactly if the rule of selection chooses it among the candidates that serve that type.
\<close>

theorem selection_exact:
  assumes "uniform (filter cd_usable cs)" and "select_from cs r = Inr s"
  shows "provider_for s t = Some p \<longleftrightarrow>
    (\<exists>c. cd_provider c = p \<and> chosen_by (type_serving (filter cd_usable cs) t) (identifiers r) c)"
proof -
  let ?cs = "filter cd_usable cs"
  have each: "candidates_for (by_type ?cs) t = type_serving ?cs t" for t
    using assms(1) by (intro by_type_serving) (simp add: uniform_def)
  obtain ps where ps: "set ps = {p. \<exists>t. pick (type_serving ?cs t) r = Inr (Some p)}"
    "\<And>t. provider_for s t = provider_for (new_set ps) t"
    using select_chosen [OF assms(2)] unfolding each by blast
  have owner: "pick (type_serving ?cs t) r = Inr (Some p)" if p: "p \<in> set ps" "t \<in> set (p_types p)" for p t
  proof -
    from p(1) obtain u c where "pick (type_serving ?cs u) r = Inr (Some p)" "cd_provider c = p" "c \<in> set (type_serving ?cs u)"
      by (auto simp: ps(1) pick_iff dest: chosen_by_mem)
    with p(2) serving_same [OF assms(1)] show ?thesis by metis
  qed
  then have "provider_for (new_set ps) t = Some p \<longleftrightarrow> p \<in> set ps \<and> t \<in> set (p_types p)"
    by (intro for_new_set) (metis option.inject sum.inject(2))
  also have "\<dots> \<longleftrightarrow> pick (type_serving ?cs t) r = Inr (Some p)"
  proof
    assume "p \<in> set ps \<and> t \<in> set (p_types p)"
    then show "pick (type_serving ?cs t) r = Inr (Some p)" using owner by blast
  next
    assume chosen: "pick (type_serving ?cs t) r = Inr (Some p)"
    then obtain c where "cd_provider c = p" "c \<in> set (type_serving ?cs t)" by (auto simp: pick_iff dest: chosen_by_mem)
    with chosen show "p \<in> set ps \<and> t \<in> set (p_types p)" unfolding ps(1) by (auto simp: type_serving_def)
  qed
  finally show ?thesis by (simp add: ps(2) pick_iff)
qed

definition named_provider :: "string \<Rightarrow> string list \<Rightarrow> unit provider" where
  "named_provider n ts = \<lparr>p_name = n, p_types = ts, p_observe = \<lambda>w req. Inl [], p_apply = \<lambda>w req act. (Applied, w)\<rparr>"

definition debian_candidates :: "unit host_candidate list" where
  "debian_candidates =
     candidates (named_provider ''posix'' [''File'', ''Directory'', ''Symlink'']) (named_provider ''apt'' [''Package'', ''Repository''])
       (named_provider ''dnf'' [''Package'', ''Repository'']) (named_provider ''linux-user'' [''User'', ''Group'']) True
       (named_provider ''proc-sys'' [''Sysctl'']) True (named_provider ''systemd'' [''Service'']) False"

definition ubuntu :: release where
  "ubuntu = \<lparr>rl_id = ''ubuntu'', rl_like = [''debian''], rl_version = ''24.04''\<rparr>"

lemma debian_uniform: "uniform (filter cd_usable debian_candidates)"
  by (simp add: uniform_def debian_candidates_def candidates_def any_host_def named_provider_def)

lemma debian_selects: "\<not> isl (select_from debian_candidates ubuntu)"
  by code_simp

lemma ubuntu_identifiers: "identifiers ubuntu = [''ubuntu'', ''debian'']"
  by (simp add: identifiers_def ubuntu_def)

lemma selection_exact_witness:
  "\<exists>s. select_from debian_candidates ubuntu = Inr s
     \<and> map_option p_name (provider_for s ''Package'') = Some ''apt''
     \<and> provider_for s ''Service'' = None"
proof -
  obtain s where s: "select_from debian_candidates ubuntu = Inr s"
    using debian_selects by (cases "select_from debian_candidates ubuntu") auto
  note exact = selection_exact [OF debian_uniform s, unfolded ubuntu_identifiers]
  have "provider_for s ''Package'' = Some (named_provider ''apt'' [''Package'', ''Repository''])"
    unfolding exact chosen_by_def
    by (intro exI [of _ "(any_host (named_provider ''apt'' [''Package'', ''Repository'']))\<lparr>cd_distributions := [''debian'']\<rparr>"]
        conjI disjI1 exI [of _ "[''ubuntu'']"] exI [of _ "''debian''"] exI [of _ "[]"])
      (simp_all add: type_serving_def debian_candidates_def candidates_def any_host_def named_provider_def)
  moreover have "provider_for s ''Service'' \<noteq> Some p" for p
    unfolding exact by (auto dest: chosen_by_mem
        simp: type_serving_def debian_candidates_def candidates_def any_host_def named_provider_def)
  then have "provider_for s ''Service'' = None" by (cases "provider_for s ''Service''") auto
  ultimately show ?thesis using s by (simp add: named_provider_def)
qed

end
