(* ===== verification/Frames.thy ===== *)
theory Frames
  imports Source Canonical
begin

text \<open>
  What an operation leaves alone: \<open>keeps f m\<close> says that whatever \<open>m\<close> does, what \<open>f\<close> sees of the
  host stays as it was. The rules follow the way operations are composed, up to the selection
  of a revision, which keeps everything that git and the named file operations keep.
\<close>

section \<open>Definitions\<close>

definition keeps :: "('w \<Rightarrow> 'b) \<Rightarrow> ('w, 'a) io \<Rightarrow> bool" where
  "keeps f m \<longleftrightarrow> (\<forall>w. f (snd (m w)) = f w)"

text \<open>
  What is asked of a host: creating directories and temporary files does not change what is
  seen, nor does removing a temporary file or the directories of the clone and of the tree.
\<close>

definition keeps_files :: "('w \<Rightarrow> 'b) \<Rightarrow> 'w os \<Rightarrow> string list \<Rightarrow> bool" where
  "keeps_files f os dirs \<longleftrightarrow>
     (\<forall>dir mode w. f (snd (os_mkdir_all os dir mode w)) = f w)
     \<and> (\<forall>dir stem w. f (snd (os_create_temp os dir stem w)) = f w)
     \<and> (\<forall>dir stem w temp w' v. os_create_temp os dir stem w = (Inr temp, w') \<longrightarrow> f (snd (os_remove os temp v)) = f v)
     \<and> (\<forall>dir \<in> set dirs. \<forall>w. f (snd (os_remove_all os dir w)) = f w)"

text \<open>What is asked of the programs a client runs.\<close>

definition keeps_runner :: "('w \<Rightarrow> 'b) \<Rightarrow> 'w runner \<Rightarrow> bool" where
  "keeps_runner f r \<longleftrightarrow>
     (case r of ExecRunner _ run \<Rightarrow> \<forall>env bound argv. keeps f (run env bound argv)
      | OtherRunner run \<Rightarrow> \<forall>bound argv. keeps f (run bound argv))"

definition source_dirs :: "'w source \<Rightarrow> string list" where
  "source_dirs s = [gc_dir (so_client s), join_path [cfg_state (so_cfg s), ''tree'']]"

definition keeps_source :: "('w \<Rightarrow> 'b) \<Rightarrow> 'w os \<Rightarrow> 'w source \<Rightarrow> bool" where
  "keeps_source f os s \<longleftrightarrow> keeps_files f os (source_dirs s) \<and> keeps_runner f (gc_runner (so_client s))"

section \<open>Rules\<close>

named_theorems frame

lemma keepsD: "keeps f m \<Longrightarrow> f (snd (m w)) = f w"
  by (simp add: keeps_def)

lemma keeps_pure [frame]: "keeps f (pure x)" "keeps f (fail msg)" "keeps f (raise e)"
  by (simp_all add: keeps_def)

lemma keeps_after [frame]: "keeps f m \<Longrightarrow> (\<And>x. keeps f (g x)) \<Longrightarrow> keeps f (after m g)"
  by (simp add: keeps_def after_def split: prod.split sum.split) (metis snd_conv)

lemma keeps_handle [frame]:
  "keeps f m \<Longrightarrow> (\<And>e. keeps f (h e)) \<Longrightarrow> (\<And>x. keeps f (g x)) \<Longrightarrow> keeps f (handle m h g)"
  by (simp add: keeps_def handle_def split: prod.split sum.split) (metis snd_conv)

lemma keeps_effect [frame]: "(\<And>w. f (snd (e w)) = f w) \<Longrightarrow> keeps f (effect e)"
  by (simp add: keeps_def effect_def split: prod.split option.split) (metis snd_conv)

lemma keeps_if [frame]: "(b \<Longrightarrow> keeps f m) \<Longrightarrow> (\<not> b \<Longrightarrow> keeps f m') \<Longrightarrow> keeps f (if b then m else m')"
  by simp

lemma keeps_option [frame]:
  "keeps f m \<Longrightarrow> (\<And>x. keeps f (g x)) \<Longrightarrow> keeps f (case x of None \<Rightarrow> m | Some x \<Rightarrow> g x)"
  by (cases x) simp_all

lemma keeps_sum [frame]:
  "(\<And>x. keeps f (m x)) \<Longrightarrow> (\<And>x. keeps f (g x)) \<Longrightarrow> keeps f (case x of Inl x \<Rightarrow> m x | Inr x \<Rightarrow> g x)"
  by (cases x) simp_all

lemma keeps_prod [frame]: "(\<And>x y. keeps f (g x y)) \<Longrightarrow> keeps f (case p of (x, y) \<Rightarrow> g x y)"
  by (cases p) simp

lemma keeps_valid_ref [frame]: "keeps f m \<Longrightarrow> keeps f (with_valid_ref r m)"
  by (simp add: with_valid_ref_def frame split: option.split)

lemma keeps_text_of [frame]: "keeps f m \<Longrightarrow> keeps f (text_of m)"
  unfolding text_of_def by (intro frame)

lemma keeps_files_mkdir: "keeps_files f os dirs \<Longrightarrow> f (snd (os_mkdir_all os dir mode w)) = f w"
  by (simp add: keeps_files_def)

lemma keeps_files_remove: "keeps_files f os dirs \<Longrightarrow> dir \<in> set dirs \<Longrightarrow> f (snd (os_remove_all os dir w)) = f w"
  by (simp add: keeps_files_def)

lemma keeps_ensure_dir [frame]: "keeps_files f os dirs \<Longrightarrow> keeps f (ensure_dir os dir)"
proof -
  assume k: "keeps_files f os dirs"
  have "keeps f (effect (os_mkdir_all os dir state_mode))" by (intro keeps_effect keeps_files_mkdir [OF k])
  then show ?thesis
    by (simp add: keeps_def ensure_dir_def split: fs_result.split option.split)
qed

section \<open>The git client\<close>

lemma keeps_extend_runner: "keeps_runner f r \<Longrightarrow> keeps_runner f (extend_runner r extra)"
  by (cases r) (auto simp: keeps_runner_def)

lemma keeps_call_runner: "keeps_runner f r \<Longrightarrow> keeps f (call_runner r bound argv)"
  by (cases r) (auto simp: keeps_runner_def)

lemma keeps_git [frame]:
  "keeps_runner f (gc_runner c) \<Longrightarrow> keeps f (git c bound args)"
  "keeps_runner f (gc_runner c) \<Longrightarrow> keeps f (git_outside c bound args)"
  "keeps_runner f (gc_runner c) \<Longrightarrow> keeps f (git_env c extra args)"
  by (simp_all add: git_def git_outside_def git_env_def keeps_call_runner keeps_extend_runner)

lemma keeps_ensure_clone [frame]:
  assumes "keeps_runner f (gc_runner c)" "keeps_files f os dirs" "gc_dir c \<in> set dirs"
  shows "keeps f (ensure_clone os c url branch)"
proof -
  have "keeps f (\<lambda>w. fail msg (snd (os_remove_all os (gc_dir c) w)))" for msg
    using keeps_files_remove [OF assms(2,3)] by (simp add: keeps_def)
  then have "keeps f (after (effect (os_mkdir_all os (path_dir (gc_dir c)) 448)) (\<lambda>_.
          let args = [''clone'', ''--tags'', ''--no-recurse-submodules'', ''--no-checkout'']
                @ (if branch \<noteq> [] then [''--branch'', branch] else []) @ [''--'', url, gc_dir c];
              msg = ''cloning '' @ url @ '': ''
          in handle (git_outside c (fetch_bound c) args) (\<lambda>e. raise (wrap_error msg e))
               (\<lambda>r. if run_ok r then pure ()
                    else (\<lambda>w. fail (msg @ result_error r) (snd (os_remove_all os (gc_dir c) w))))))"
    unfolding Let_def by (intro frame keeps_files_mkdir [OF assms(2)] assms(1))
  note cloned = keepsD [OF this]
  show ?thesis unfolding keeps_def
  proof
    fix w show "f (snd (ensure_clone os c url branch w)) = f w"
    proof (cases "clone_exists os c w")
      case True
      then show ?thesis by (simp add: ensure_clone_def)
    next
      case False
      show ?thesis unfolding ensure_clone_def if_not_P [OF False] by (rule cloned)
    qed
  qed
qed

lemma keeps_check_size [frame]: "keeps f (check_size os c)"
  by (simp add: keeps_def check_size_def split: sum.split)

lemma keeps_client [frame]:
  assumes "keeps_runner f (gc_runner c)"
  shows "keeps f (fetch os c)" "keeps f (require_complete_history c)" "keeps f (resolve_ref c r)"
    "keeps f (has_commit c r)" "keeps f (is_ancestor c r r')" "keeps f (verify_commit c r file)"
    "keeps f (verify_tag c r file)" "keeps f (annotated_tags c pattern)"
  unfolding fetch_def require_complete_history_def is_shallow_def resolve_ref_def has_commit_def is_ancestor_def
    verify_commit_def verify_tag_def annotated_tags_def
  by (intro frame assms)+

lemma keeps_checkout [frame]:
  assumes "keeps_runner f (gc_runner c)" "keeps_files f os dirs"
  shows "keeps f (checkout os c commit dir)"
proof -
  have m: "keeps f (\<lambda>w. case os_create_temp os d s w of
          (Inl err, w') \<Rightarrow> (Inl (plain_error err), w')
        | (Inr temp, w') \<Rightarrow> (case body temp w' of (res, w'') \<Rightarrow> (res, snd (os_remove os temp w''))))"
    if "\<And>temp. keeps f (body temp)" for d s and body :: "string \<Rightarrow> ('a, unit) io"
  proof -
    have "f (snd (case body temp w' of (res, w'') \<Rightarrow> (res, snd (os_remove os temp w'')))) = f w"
      if t: "os_create_temp os d s w = (Inr temp, w')" for w temp w'
    proof -
      from assms(2) t have "f (snd (os_remove os temp v)) = f v" for v unfolding keeps_files_def by blast
      moreover from assms(2) t have "f w' = f w" unfolding keeps_files_def by (metis snd_conv)
      moreover have "f (snd (body temp w')) = f w'" using that [unfolded keeps_def] \<open>\<And>temp. keeps f (body temp)\<close> by (simp add: keeps_def)
      ultimately show ?thesis by (simp add: case_prod_beta)
    qed
    moreover have "f w' = f w" if "os_create_temp os d s w = (Inl err, w')" for w err w'
      using assms(2) that unfolding keeps_files_def by (metis snd_conv)
    ultimately show ?thesis unfolding keeps_def by (auto split: prod.splits sum.splits)
  qed
  show ?thesis
    unfolding checkout_def Let_def
    by (intro keeps_valid_ref keeps_after keeps_effect keeps_files_mkdir [OF assms(2)] m) (intro frame assms(1))+
qed

lemma keeps_select_tag [frame]:
  assumes "keeps_runner f (gc_runner c)"
  shows "keeps f (select_tag c ts)"
proof -
  have d: "keeps f (descends_from_all c t us)" for t us
    by (induction us) (auto intro!: frame assms simp del: pure_simps)
  have "keeps f (select_among c all us)" for all us
    by (induction us) (auto intro!: frame d simp del: pure_simps)
  then show ?thesis unfolding select_tag_def by (auto intro!: frame simp del: select_among.simps pure_simps split: list.split)
qed

section \<open>Selecting a revision\<close>

lemma keeps_read [frame]: "(\<And>x. keeps f (g x)) \<Longrightarrow> keeps f (\<lambda>w. case read_revision os dir w of Inl e \<Rightarrow> (Inl e, w) | Inr x \<Rightarrow> g x w)"
  by (simp add: keeps_def split: sum.split)

lemma keeps_candidate [frame]:
  assumes "keeps_runner f (gc_runner (so_client s))"
  shows "keeps f (candidate os s)" "keeps f (check_current s cand accepted)"
proof -
  have c: "keeps f (tag_candidate s a t)" for a t
    unfolding tag_candidate_def by (intro frame assms)
  have cs: "keeps f (tag_candidates s a ts)" for a ts
    by (induction ts) (auto intro!: frame c simp del: pure_simps)
  have "keeps f (signed_tag os s)"
    unfolding signed_tag_def Let_def by (intro frame assms cs)
  then show "keeps f (candidate os s)"
    unfolding candidate_def by (auto intro!: frame assms simp del: pure_simps split: require_kind.split)
  show "keeps f (check_current s cand accepted)"
    unfolding check_current_def by (intro frame assms)
qed

lemma keeps_materialise [frame]:
  assumes "keeps_source f os s"
  shows "keeps f (materialise os s r)"
proof -
  from assms have r: "keeps_runner f (gc_runner (so_client s))" and k: "keeps_files f os (source_dirs s)"
    by (simp_all add: keeps_source_def)
  have "join_path [cfg_state (so_cfg s), ''tree''] \<in> set (source_dirs s)" by (simp add: source_dirs_def)
  then show ?thesis unfolding materialise_def Let_def by (intro frame keeps_files_remove [OF k] keeps_checkout [OF r k])
qed

lemma keeps_select:
  assumes "keeps_source f os s"
  shows "keeps f (select_revision os s)"
proof -
  from assms have r: "keeps_runner f (gc_runner (so_client s))" and k: "keeps_files f os (source_dirs s)"
    by (simp_all add: keeps_source_def)
  have "gc_dir (so_client s) \<in> set (source_dirs s)" by (simp add: source_dirs_def)
  then have c: "keeps f (select_candidate os s accepted)" for accepted
    unfolding select_candidate_def Let_def by (intro frame assms r keeps_ensure_clone [OF r k])
  have b: "keeps f (fallback os s sel cause)" for sel cause
    unfolding fallback_def by (intro frame assms)
  show ?thesis unfolding select_revision_def Let_def
    by (intro keeps_read keeps_handle c b) (auto intro: frame simp del: pure_simps)
qed


section \<open>Writing the accepted revision\<close>

text \<open>
  What is asked of the file that holds the accepted revision: it changes only when the temporary
  file is renamed onto it, and then holds what was written to that file.
\<close>

definition replaces_file :: "'w os \<Rightarrow> string \<Rightarrow> bool" where
  "replaces_file os path \<longleftrightarrow>
     (let read = os_read_file os path; temp = path @ ''.tmp''
      in (\<forall>body mode w e w'. os_write_file os temp body mode w = (e, w') \<longrightarrow>
            read w' = read w \<and> (e = None \<longrightarrow> os_read_file os temp w' = FsOk body))
       \<and> (\<forall>w e w'. os_rename os temp path w = (e, w') \<longrightarrow>
            read w' = (if e = None then os_read_file os temp w else read w))
       \<and> (\<forall>w. read (snd (os_remove os temp w)) = read w))"

lemma write_atomic_read:
  assumes "replaces_file os path" "write_atomic os path text w = (res, w')"
  shows "os_read_file os path w' = (if res = Inr () then FsOk (text @ [CHR 0x0A]) else os_read_file os path w)"
proof -
  obtain e1 w1 where w1: "os_write_file os (path @ ''.tmp'') (text @ [CHR 0x0A]) state_file_mode w = (e1, w1)"
    by fastforce
  with assms(1) have r1: "os_read_file os path w1 = os_read_file os path w"
    "e1 = None \<Longrightarrow> os_read_file os (path @ ''.tmp'') w1 = FsOk (text @ [CHR 0x0A])"
    by (auto simp: replaces_file_def Let_def)
  obtain e2 w2 where w2: "os_rename os (path @ ''.tmp'') path w1 = (e2, w2)" by fastforce
  with assms(1) have r2: "os_read_file os path w2
      = (if e2 = None then os_read_file os (path @ ''.tmp'') w1 else os_read_file os path w1)"
    by (simp add: replaces_file_def Let_def)
  have r3: "os_read_file os path (snd (os_remove os (path @ ''.tmp'') w2)) = os_read_file os path w2"
    using assms(1) by (simp add: replaces_file_def Let_def)
  show ?thesis
    using assms(2) r1 r2 r3
    by (cases e1; cases e2) (auto simp: write_atomic_def Let_def after_def handle_def effect_def w1 w2)
qed

lemma trim_line:
  assumes "s \<noteq> []" "visible (hd s)" "visible (last s)"
  shows "trim_space (s @ [CHR 0x0A]) = s"
proof -
  have "take 3 space_encodings = ['' '', [CHR 0x09], [CHR 0x0A]]" by code_simp
  with append_take_drop_id [of 3 space_encodings]
  have "space_encodings = ['' '', [CHR 0x09], [CHR 0x0A]] @ drop 3 space_encodings" by simp
  from arg_cong [OF this, of "map rev"]
  have nl: "find (has_prefix (CHR 0x0A # t)) (map rev space_encodings) = Some [CHR 0x0A]" for t
    by (simp add: has_prefix_def)
  have heads: "list_all (\<lambda>e. e \<noteq> [] \<and> \<not> visible (hd e)) es \<Longrightarrow> t \<noteq> [] \<Longrightarrow> visible (hd t) \<Longrightarrow> find (has_prefix t) es = None" for t es
    by (auto simp: find_None_iff list_all_iff has_prefix_iff)
  have "trim_left (s @ [CHR 0x0A]) = s @ [CHR 0x0A]"
    unfolding trim_left_def using assms space_heads by (intro strip_from_id heads) (auto simp: list_all_iff)
  moreover have "strip_from (map rev space_encodings) (length s) (rev s) = rev s"
    using assms space_heads by (intro strip_from_id heads) (auto simp: list_all_iff hd_rev)
  ultimately show ?thesis by (simp add: trim_space_def trim_right_def nl)
qed

lemma valid_revision_chars:
  assumes "validate_revision r = None"
  shows "r \<noteq> []" "c \<in> set r \<Longrightarrow> visible c"
proof -
  show "r \<noteq> []" using assms by (auto simp: validate_revision_def)
  from assms have hex: "p \<in> set (runes r) \<Longrightarrow> is_hex_rune (rune_value (fst p))" for p
    by (cases p) (auto simp: validate_revision_def find_None_iff split: if_splits option.splits)
  assume "c \<in> set r"
  then obtain p where p: "p \<in> set (runes r)" "c \<in> set (snd p)"
    using equalityD2 [OF arg_cong [OF runes_concat, of set r]] by fastforce
  with hex have h: "is_hex_rune (rune_value (fst p))" by blast
  then have "fst p \<noteq> None" by (cases "fst p") (auto simp: is_hex_rune_def rune_value_def)
  then have "good_piece p" using p(1) by (auto simp: runes_def intro: runes_fuel_good)
  then show "visible c"
    using p(2) h by (cases rule: good_piece_cases) (auto simp: is_hex_rune_def rune_value_def visible_def)
qed

text \<open>What is written as the accepted revision is read back.\<close>

lemma advance_reads_back:
  assumes "replaces_file os (revision_path dir)" "keeps_files (os_read_file os (revision_path dir)) os dirs"
    and "advance os dir r w = (res, w')"
  shows "read_revision os dir w' = (if res = Inr () then Inr (Some r) else read_revision os dir w)"
proof (cases "validate_revision r")
  case None
  obtain e w1 where e: "ensure_dir os dir w = (e, w1)" by fastforce
  have k: "os_read_file os (revision_path dir) w1 = os_read_file os (revision_path dir) w"
    using keepsD [OF keeps_ensure_dir [OF assms(2)], of dir w] e by simp
  show ?thesis
  proof (cases e)
    case (Inl err)
    with assms(3) None e k show ?thesis by (auto simp: advance_def after_def read_revision_def)
  next
    case (Inr u)
    with assms(3) None e have "write_atomic os (revision_path dir) r w1 = (res, w')" by (simp add: advance_def after_def)
    note written = write_atomic_read [OF assms(1) this]
    from valid_revision_chars [OF None] have "trim_space (r @ [CHR 0x0A]) = r" by (intro trim_line) auto
    with written k None valid_revision_chars(1) [OF None] show ?thesis by (simp add: read_revision_def)
  qed
qed (use assms(3) in \<open>auto simp: advance_def\<close>)

end
