(* ===== verification/Pass.thy ===== *)
theory Pass
  imports Agent Discover Capability Frames
begin

text \<open>
  The commands that run a pass (\<open>cmd/datum\<close>): \<open>pass.go\<close> and \<open>repo.go\<close>, the half that only
  reads, \<open>reconcile.go\<close>, one pass by hand, and \<open>agent.go\<close>, the pass of the agent: select a
  revision, resolve it, advance the accepted revision, apply, report. What is printed is not
  modelled.
\<close>

section \<open>Definitions\<close>

subsection \<open>The machine a pass runs on\<close>

text \<open>
  The directory trees that are walked, the YAML decoder, \<open>git -C dir\<close> as \<open>gitOutput\<close> calls it
  (the output, if it succeeds), the candidates of this host, the paths the anchor check follows, the
  running executable, SHA-256, the clock, the texts of errors, the directory of reports with the
  time format and the JSON encoder, the base64 decoder and encoded digest of a signing key, and
  how git is run.
\<close>

record 'w site =
  si_os :: "'w os"
  si_tree :: "string \<Rightarrow> 'w \<Rightarrow> string + fs_tree list"
  si_decode :: "string \<Rightarrow> yaml_stream"
  si_git_at :: "string \<Rightarrow> string list \<Rightarrow> 'w \<Rightarrow> string option"
  si_candidates :: "'w \<Rightarrow> 'w host_candidate list"
  si_paths :: "'w \<Rightarrow> filesystem"
  si_executable :: "string option"
  si_sha :: "string \<Rightarrow> string"
  si_clock :: "'w \<Rightarrow> int"
  si_error_text :: "rc_error \<Rightarrow> string"
  si_reports :: "'w \<Rightarrow> directory"
  si_put_reports :: "directory \<Rightarrow> 'w \<Rightarrow> 'w"
  si_time_text :: "int \<Rightarrow> string"
  si_encode :: "report \<Rightarrow> string"
  si_key_blob :: "string \<Rightarrow> string option"
  si_key_digest :: "string \<Rightarrow> string"
  si_git :: "(string \<times> string) list \<Rightarrow> int option \<Rightarrow> string list \<Rightarrow> ('w, run_result) io"

subsection \<open>Reading a checkout (repo.go)\<close>

record work_tree =
  wt_dir :: string
  wt_top :: string
  wt_prefix :: string

definition git_output :: "'w site \<Rightarrow> string \<Rightarrow> string list \<Rightarrow> 'w \<Rightarrow> string option" where
  "git_output m dir args w = map_option trim_space (si_git_at m dir args w)"

definition inspect :: "'w site \<Rightarrow> string \<Rightarrow> 'w \<Rightarrow> work_tree" where
  "inspect m dir w =
     (let out = \<lparr>wt_dir = dir, wt_top = [], wt_prefix = []\<rparr>
      in case git_output m dir [''rev-parse'', ''--show-toplevel''] w of
           None \<Rightarrow> out
         | Some toplevel \<Rightarrow>
             (case git_output m dir [''rev-parse'', ''--show-prefix''] w of
                None \<Rightarrow> out\<lparr>wt_top := toplevel\<rparr>
              | Some sub \<Rightarrow> out\<lparr>wt_top := toplevel, wt_prefix := trim_suffix sub ''/''\<rparr>))"

definition tree_revision :: "'w site \<Rightarrow> work_tree \<Rightarrow> 'w \<Rightarrow> string" where
  "tree_revision m c w =
     (if wt_top c = [] then ''(no revision)''
      else case git_output m (wt_dir c) [''rev-parse'', ''--short'', ''HEAD''] w of
        None \<Rightarrow> ''(no revision)'' | Some r \<Rightarrow> r)"

text \<open>Why a pass stops before it applies anything.\<close>

datatype pass_error =
    HostRequired
  | CannotLoad walk_error
  | InDocuments errors
  | NoSuchHost msg
  | InManifest errors
  | InGraph errors
  | Undecided "string list"
  | Interrupted string

definition load_repo :: "'w site \<Rightarrow> string \<Rightarrow> 'w \<Rightarrow> pass_error + (string list \<times> doc_set) \<times> string" where
  "load_repo m dir w =
     (case walk (si_decode m) (si_tree m dir w) of
        Inl e \<Rightarrow> Inl (CannotLoad e)
      | Inr (root, docs, Some errs) \<Rightarrow> Inl (InDocuments errs)
      | Inr (root, docs, None) \<Rightarrow> Inr ((root, docs), tree_revision m (inspect m dir w) w))"

subsection \<open>Observing and planning (pass.go)\<close>

record 'w pass =
  ps_manifest :: manifest
  ps_graph :: graph
  ps_observed :: observe_state
  ps_plan :: plan
  ps_providers :: "'w provider_set"
  ps_root :: string

definition detect_capabilities :: "'w site \<Rightarrow> 'w \<Rightarrow> string list + 'w provider_set" where
  "detect_capabilities m w =
     select_from (si_candidates m w)
       (read_release (\<lambda>path. case os_read_file (si_os m) path w of FsOk body \<Rightarrow> Some body | _ \<Rightarrow> None) release_paths)"

text \<open>The set of protected paths is the caller's, or the stock one.\<close>

definition protected_of :: "'w site \<Rightarrow> protected_set option \<Rightarrow> protected_set" where
  "protected_of m p = (case p of Some s \<Rightarrow> s | None \<Rightarrow> protected_default (si_executable m))"

definition run_pass ::
    "'w site \<Rightarrow> (nat \<Rightarrow> string option) \<Rightarrow> protected_set option \<Rightarrow> string \<Rightarrow> string \<Rightarrow> 'w \<Rightarrow> pass_error + 'w pass" where
  "run_pass m ctx protected host repo w =
     (if host = [] then Inl HostRequired
      else case load_repo m repo w of
        Inl e \<Rightarrow> Inl e
      | Inr ((root, docs), revision) \<Rightarrow>
          (case resolve_host docs host revision of
             Inl e \<Rightarrow> Inl (NoSuchHost e)
           | Inr (_, Some errs) \<Rightarrow> Inl (InManifest errs)
           | Inr (manifest, None) \<Rightarrow>
               (case build_protecting manifest (protected_of m protected) of
                  Inl errs \<Rightarrow> Inl (InGraph errs)
                | Inr g \<Rightarrow>
                    (case detect_capabilities m w of
                       Inl conflicts \<Rightarrow> Inl (Undecided conflicts)
                     | Inr providers \<Rightarrow>
                         (case observe_host ctx g providers (join_path (repo # root)) w of
                            (_, Some err) \<Rightarrow> Inl (Interrupted err)
                          | (observed, None) \<Rightarrow>
                              Inr \<lparr>ps_manifest = manifest, ps_graph = g, ps_observed = observed,
                                ps_plan = build_plan (si_sha m) manifest g observed, ps_providers = providers,
                                ps_root = join_path (repo # root)\<rparr>)))))"

subsection \<open>Exit codes\<close>

datatype exit_code = ExitOK | ExitError | ExitDiffers | ExitLockHeld

definition code_for :: "outcome \<Rightarrow> exit_code" where
  "code_for outcome =
     (case outcome of OutcomeFailed \<Rightarrow> ExitError | OutcomeDrifted \<Rightarrow> ExitDiffers | _ \<Rightarrow> ExitOK)"

text \<open>A one-off command is not bounded: its context never ends.\<close>

definition unbounded :: "nat \<Rightarrow> string option" where
  "unbounded i = None"

definition run_observe :: "'w site \<Rightarrow> string \<Rightarrow> string \<Rightarrow> 'w \<Rightarrow> exit_code" where
  "run_observe m host repo w = (case run_pass m unbounded None host repo w of Inl _ \<Rightarrow> ExitError | Inr _ \<Rightarrow> ExitOK)"

text \<open>The steps that differ and those that match, as \<open>runDiff\<close> counts them.\<close>

definition diff_counts :: "plan \<Rightarrow> nat \<times> nat" where
  "diff_counts p =
     foldl (\<lambda>(differing, matching) s.
         if st_action s = Skip \<or> st_err s \<noteq> None then (differing, matching)
         else if \<not> changes (st_action s) then (differing, matching + 1)
         else (differing + 1, matching)) (0, 0) (pl_steps p)"

definition run_diff :: "'w site \<Rightarrow> string \<Rightarrow> string \<Rightarrow> 'w \<Rightarrow> exit_code" where
  "run_diff m host repo w =
     (case run_pass m unbounded None host repo w of
        Inl _ \<Rightarrow> ExitError
      | Inr p \<Rightarrow> if 0 < fst (diff_counts (ps_plan p)) then ExitDiffers else ExitOK)"

definition run_plan :: "'w site \<Rightarrow> string \<Rightarrow> string \<Rightarrow> 'w \<Rightarrow> exit_code" where
  "run_plan m host repo w =
     (case run_pass m unbounded None host repo w of
        Inl _ \<Rightarrow> ExitError
      | Inr p \<Rightarrow> if plan_changes (ps_plan p) then ExitDiffers else ExitOK)"

subsection \<open>Applying and reporting\<close>

definition parse_mode :: "string \<Rightarrow> string + mode" where
  "parse_mode name =
     (if name = ''enforce'' then Inr Enforce
      else if name = ''observe'' then Inr Observe
      else Inl (''unknown mode '' @ quote_key name @ '', want enforce or observe''))"

definition reports_dir :: "string \<Rightarrow> string" where
  "reports_dir state_dir = join_path [state_dir, ''reports'']"

text \<open>\<open>report.Write\<close>: the two directories are ensured, then the report is written. A report that
  cannot be written is only printed.\<close>

definition store_report :: "'w site \<Rightarrow> string \<Rightarrow> report \<Rightarrow> 'w \<Rightarrow> 'w" where
  "store_report m state_dir r w =
     (case ensure_dir (si_os m) state_dir w of
        (Inl _, w) \<Rightarrow> w
      | (Inr _, w) \<Rightarrow>
          (case ensure_dir (si_os m) (reports_dir state_dir) w of
             (Inl _, w) \<Rightarrow> w
           | (Inr _, w) \<Rightarrow>
               si_put_reports m (snd (write_report (si_time_text m) (si_encode m) (si_reports m w) r)) w))"

definition apply_options :: "'w pass \<Rightarrow> mode \<Rightarrow> int \<Rightarrow> protected_set \<Rightarrow> 'w options" where
  "apply_options p md timeout protected =
     \<lparr>op_mode = md, op_providers = ps_providers p, op_graph = ps_graph p, op_repo_root = ps_root p,
      op_action_timeout = timeout, op_protected = protected\<rparr>"

text \<open>The pass lock is refused, cannot be taken, or is taken and dropped at the end.\<close>

definition run_reconcile ::
    "'w site \<Rightarrow> lock_attempt \<Rightarrow> string \<Rightarrow> string \<Rightarrow> string \<Rightarrow> string \<Rightarrow> 'w \<Rightarrow> exit_code \<times> 'w" where
  "run_reconcile m lock mode_name host repo state_dir w =
     (case parse_mode mode_name of
        Inl _ \<Rightarrow> (ExitError, w)
      | Inr md \<Rightarrow>
          (case lock of
             LockHeld \<Rightarrow> (ExitLockHeld, w)
           | LockFailed _ \<Rightarrow> (ExitError, w)
           | LockTaken at \<Rightarrow>
               (case run_pass m unbounded None host repo w of
                  Inl _ \<Rightarrow> (ExitError, w)
                | Inr p \<Rightarrow>
                    (case apply_plan (si_paths m) unbounded (ps_plan p)
                            (apply_options p md 0 (protected_default (si_executable m))) w of
                       ((_, Some _), w) \<Rightarrow> (ExitError, w)
                     | ((result, None), w) \<Rightarrow>
                         (code_for (pr_outcome result),
                          store_report m state_dir
                            (build_report (si_sha m) (si_error_text m) (ps_manifest p) result md at (si_clock m w)) w)))))"

subsection \<open>The pass of the agent (agent.go)\<close>

text \<open>The two contexts of a pass, one while it observes and one while it applies.\<close>

record contexts =
  cx_observe :: "nat \<Rightarrow> string option"
  cx_apply :: "nat \<Rightarrow> string option"

definition count_refusal :: "go_error option \<Rightarrow> pass_note list" where
  "count_refusal err =
     (case err of None \<Rightarrow> []
      | Some e \<Rightarrow> (case reason_of e of None \<Rightarrow> [] | Some reason \<Rightarrow> [RevisionRefused reason]))"

text \<open>No keys when the file cannot be read to its end, a line too long included.\<close>

definition trusted_signers :: "'w site \<Rightarrow> config \<Rightarrow> 'w \<Rightarrow> string list" where
  "trusted_signers m cfg w =
     (if tc_require (cfg_trust cfg) = RequireNone then []
      else case os_read_file (si_os m) (tc_signers (cfg_trust cfg)) w of
        FsOk body \<Rightarrow>
          if list_ex (\<lambda>line. max_token \<le> length line) (split_on (CHR 0x0A) body) then []
          else map sn_key (signers fields_of (si_key_blob m) (si_key_digest m) (scan_lines body))
      | _ \<Rightarrow> [])"

definition run_pass_in :: "'w site \<Rightarrow> contexts \<Rightarrow> config \<Rightarrow> string \<Rightarrow> 'w \<Rightarrow> pass_error + 'w pass" where
  "run_pass_in m cx cfg fleet w =
     run_pass m (cx_observe cx) (Some (protected_for (si_executable m) cfg)) (cfg_host cfg) fleet w"

text \<open>A local checkout has no selection.\<close>

definition no_selection :: selection where
  "no_selection = \<lparr>sl_revision = [], sl_tree = [], sl_fleet = [], sl_tag = [], sl_signature = no_signature,
     sl_accepted = [], sl_first_contact = False, sl_fell_back = False, sl_candidate = [], sl_why = [], sl_cause = None\<rparr>"

definition describe_revisions :: "selection \<Rightarrow> report \<Rightarrow> report" where
  "describe_revisions sel r =
     (if sl_revision sel = [] then r
      else
        let r = r\<lparr>rp_applied := short_rev (sl_revision sel), rp_last_good := short_rev (sl_revision sel),
                  rp_attempted := short_rev (sl_revision sel)\<rparr>
        in if sl_fell_back sel
           then r\<lparr>rp_attempted := short_rev (sl_candidate sel), rp_last_good := short_rev (sl_accepted sel),
                  rp_error := sl_why sel\<rparr>
           else r)"

definition failure_for :: "pass_result \<Rightarrow> failure" where
  "failure_for result = (if failures result \<noteq> [] then Local else NoFailure)"

definition apply_and_report ::
    "'w site \<Rightarrow> contexts \<Rightarrow> config \<Rightarrow> 'w pass \<Rightarrow> selection \<Rightarrow> 'w \<Rightarrow> pass_end \<times> 'w" where
  "apply_and_report m cx cfg p sel w =
     (case parse_mode (rc_mode (cfg_reconciliation cfg)) of
        Inl err \<Rightarrow> (PassError Local err, w)
      | Inr md \<Rightarrow>
          (let at = si_clock m w
           in case apply_plan (si_paths m) (cx_apply cx) (ps_plan p)
                    (apply_options p md (rc_actionTimeout (cfg_reconciliation cfg)) (protected_for (si_executable m) cfg)) w of
                ((_, Some err), w) \<Rightarrow> (PassError Local err, w)
              | ((result, None), w) \<Rightarrow>
                  (let r = describe_revisions sel
                         (build_report (si_sha m) (si_error_text m) (ps_manifest p) result md at (si_clock m w))
                   in (PassReport r (failure_for result), store_report m (cfg_state cfg) r w))))"

definition pass_failed :: string where
  "pass_failed = ''the pass could not resolve this host''"

definition fallback_failed :: string where
  "fallback_failed = ''the accepted revision no longer resolves, so there is nothing to fall back to''"

text \<open>The accepted revision advances after the revision resolved and before anything is applied.\<close>

definition accept_resolved :: "'w site \<Rightarrow> 'w source \<Rightarrow> selection \<Rightarrow> 'w \<Rightarrow> 'w" where
  "accept_resolved m src sel w =
     (if \<not> sl_fell_back sel \<and> sl_revision sel \<noteq> sl_accepted sel
      then snd (accept (si_os m) src (sl_revision sel) w) else w)"

definition fetching_pass ::
    "'w site \<Rightarrow> contexts \<Rightarrow> config \<Rightarrow> string \<Rightarrow> 'w \<Rightarrow> (pass_note list \<times> pass_end) \<times> 'w" where
  "fetching_pass m cx cfg sub w =
     (let src = new_source (si_git m) cfg sub
      in case select_revision (si_os m) src w of
        (Inl err, w) \<Rightarrow> ((count_refusal (Some err), PassError Upstream (ge_text err)), w)
      | (Inr sel, w) \<Rightarrow>
          (let notes = (if sl_fell_back sel then count_refusal (sl_cause sel) else [])
                 @ [TrustSet (trusted_signers m cfg w) (\<not> sl_first_contact sel)]
           in case run_pass_in m cx cfg (sl_fleet sel) w of
                Inl _ \<Rightarrow> ((notes, PassError Upstream (if sl_fell_back sel then fallback_failed else pass_failed)), w)
              | Inr p \<Rightarrow>
                  (let (result, w) = apply_and_report m cx cfg p sel (accept_resolved m src sel w)
                   in ((notes, result), w))))"

definition local_pass :: "'w site \<Rightarrow> contexts \<Rightarrow> config \<Rightarrow> string \<Rightarrow> 'w \<Rightarrow> (pass_note list \<times> pass_end) \<times> 'w" where
  "local_pass m cx cfg repo w =
     (case run_pass_in m cx cfg repo w of
        Inl _ \<Rightarrow> (([], PassError Upstream pass_failed), w)
      | Inr p \<Rightarrow> (let (result, w) = apply_and_report m cx cfg p no_selection w in (([], result), w)))"

definition build_pass :: "'w site \<Rightarrow> contexts \<Rightarrow> config \<Rightarrow> bool \<Rightarrow> string \<Rightarrow> string
    \<Rightarrow> string + ('w \<Rightarrow> (pass_note list \<times> pass_end) \<times> 'w)" where
  "build_pass m cx cfg git_available repo sub =
     (if repo \<noteq> [] then
        (if tc_require (cfg_trust cfg) \<noteq> RequireNone
         then Inl (''trust.require is '' @ require_string (tc_require (cfg_trust cfg))
                @ '' and nothing verifies a checkout named with --repo, so either drop --repo or set trust.require: none'')
         else Inr (local_pass m cx cfg repo))
      else if sc_url (cfg_source cfg) = [] then Inl ''source.url is required, or name a checkout with --repo''
      else if \<not> git_available
        then Inl ''git is not installed, so nothing can be fetched, and --repo is the only option''
      else Inr (fetching_pass m cx cfg sub))"

text \<open>A tick of the agent around its pass.\<close>

definition agent_tick ::
    "(int \<Rightarrow> string) \<Rightarrow> ('w \<Rightarrow> (pass_note list \<times> pass_end) \<times> 'w) \<Rightarrow> lock_attempt \<Rightarrow> bool \<Rightarrow> bool
      \<Rightarrow> agent \<times> 'w \<Rightarrow> agent \<times> 'w" where
  "agent_tick seconds_text pass lock stopping timed_out aw =
     (case lock of
        LockTaken at \<Rightarrow>
          (let ((notes, result), w) = pass (snd aw)
           in (run_once seconds_text \<lparr>tk_lock = lock, tk_notes = notes, tk_pass = result, tk_stopping = stopping,
                 tk_timed_out = timed_out\<rparr> (fst aw), w))
      | _ \<Rightarrow> (run_once seconds_text \<lparr>tk_lock = lock, tk_notes = [], tk_pass = PassError NoFailure [],
                tk_stopping = stopping, tk_timed_out = timed_out\<rparr> (fst aw), snd aw))"

section \<open>Specification\<close>

text \<open>The revision the host has accepted, and whether git has said that one descends from another.\<close>

definition pointer :: "'w site \<Rightarrow> config \<Rightarrow> 'w \<Rightarrow> go_error + string option" where
  "pointer m cfg w = read_revision (si_os m) (cfg_state cfg) w"

definition confirmed :: "'w site \<Rightarrow> config \<Rightarrow> string \<Rightarrow> string \<Rightarrow> string \<Rightarrow> bool" where
  "confirmed m cfg sub older newer \<longleftrightarrow>
     (\<exists>w w'. is_ancestor (so_client (new_source (si_git m) cfg sub)) older newer w = (Inr True, w'))"

text \<open>
  What is asked of a host: the file of the accepted revision changes only by being replaced; git,
  the providers and the report directory leave it alone.
\<close>

definition protects_pointer :: "'w site \<Rightarrow> config \<Rightarrow> string \<Rightarrow> bool" where
  "protects_pointer m cfg sub \<longleftrightarrow>
     (let read = os_read_file (si_os m) (revision_path (cfg_state cfg))
      in replaces_file (si_os m) (revision_path (cfg_state cfg))
       \<and> keeps_source read (si_os m) (new_source (si_git m) cfg sub)
       \<and> (\<forall>w w'. \<forall>c \<in> set (si_candidates m w'). \<forall>req act. read (snd (p_apply (cd_provider c) w req act)) = read w)
       \<and> (\<forall>d w. read (si_put_reports m d w) = read w))"

text \<open>
  One accepted revision is followed by another: a pass selected the new one, it was not a
  fallback, the host's manifest resolved in it, and git has said that it descends from the old one.
\<close>

definition succeeds :: "'w site \<Rightarrow> config \<Rightarrow> string \<Rightarrow> string \<Rightarrow> string \<Rightarrow> bool" where
  "succeeds m cfg sub a b \<longleftrightarrow>
     confirmed m cfg sub a b
     \<and> (\<exists>cx w sel w' p. select_revision (si_os m) (new_source (si_git m) cfg sub) w = (Inr sel, w')
          \<and> \<not> sl_fell_back sel \<and> sl_revision sel = b \<and> run_pass_in m cx cfg (sl_fleet sel) w' = Inr p)"

definition after_passes :: "'w site \<Rightarrow> config \<Rightarrow> string \<Rightarrow> contexts list \<Rightarrow> 'w \<Rightarrow> 'w" where
  "after_passes m cfg sub cxs w = foldl (\<lambda>w cx. snd (fetching_pass m cx cfg sub w)) w cxs"

section \<open>Lemmas\<close>

lemma candidates_by_type: "set (candidates_for (by_type cs) t) \<subseteq> set cs"
proof -
  have "set (candidates_for (by_type cs) t)
      \<subseteq> set (map snd (concat (map (\<lambda>c. map (\<lambda>t. (t, c)) (p_types (cd_provider c))) cs)))"
    unfolding by_type_def candidates_for_def by_type_fold by (auto simp: candidates_for_def)
  also have "\<dots> \<subseteq> set cs" by auto
  finally show ?thesis .
qed

lemma map_of_providers:
  "map_of (foldl (\<lambda>m p. foldl (\<lambda>m t. AList.update t p m) m (p_types p)) m ps) t = Some p \<Longrightarrow>
     p \<in> set ps \<or> map_of m t = Some p"
proof (induction ps arbitrary: m)
  case (Cons q ps)
  from Cons.IH [OF Cons.prems [unfolded foldl_Cons]] show ?case by (auto simp: update_types split: if_splits)
qed simp

lemma provider_selected:
  assumes "select_from cs r = Inr s" "provider_for s t = Some p"
  shows "\<exists>c \<in> set cs. cd_provider c = p"
proof -
  obtain ps where ps: "set ps = {p. \<exists>t. pick (candidates_for (by_type (filter cd_usable cs)) t) r = Inr (Some p)}"
    "\<And>t. provider_for s t = provider_for (new_set ps) t"
    using select_chosen [OF assms(1)] by blast
  then have "p \<in> set ps" using assms(2) map_of_providers [where ps = ps and m = "[]" and t = t and p = p]
    by (auto simp: provider_for_def new_set_def)
  then obtain u c where "cd_provider c = p" "c \<in> set (candidates_for (by_type (filter cd_usable cs)) u)"
    by (auto simp: ps(1) pick_iff dest: chosen_by_mem)
  then show ?thesis using candidates_by_type [of "filter cd_usable cs" u] by auto
qed

text \<open>What the providers leave alone, applying a plan leaves alone.\<close>

lemma keeps_apply_plan:
  assumes "\<And>t p w req act. provider_for (op_providers opts) t = Some p \<Longrightarrow> f (snd (p_apply p w req act)) = f w"
  shows "f (snd (apply_plan fs_of ctx p opts w)) = f w"
proof -
  have step: "f (as_world (apply_step fs_of opts s a)) = f (as_world a)" for s a
  proof (cases rule: apply_step_cases [where fs_of = fs_of and opts = opts and s = s and a = a])
    case (enforced reason why)
    from enforce_world [OF enforced(6)] show ?thesis using assms by auto
  qed simp_all
  have "f (as_world (fst (apply_loop fs_of ctx i opts ss a))) = f (as_world a)" for i ss a
    by (induction ss arbitrary: i a) (auto simp: step split: option.split)
  from this [of 0 "pl_steps p"] show ?thesis
    by (auto simp: apply_plan_def split: prod.splits option.splits) (metis as_world_def apply_state.select_convs(4) fst_conv)+
qed

lemma run_pass_providers:
  assumes "run_pass m ctx protected host repo w = Inr p"
  shows "detect_capabilities m w = Inr (ps_providers p)"
  using assms by (auto simp: run_pass_def split: if_splits sum.splits option.splits prod.splits)

lemma pass_keeps:
  assumes "protects_pointer m cfg sub" "run_pass_in m cx cfg fleet w = Inr p"
  defines "read \<equiv> os_read_file (si_os m) (revision_path (cfg_state cfg))"
  shows "read (snd (apply_and_report m cx cfg p sel w')) = read w'"
proof -
  from run_pass_providers [OF assms(2) [unfolded run_pass_in_def]]
  have "provider_for (ps_providers p) t = Some q \<Longrightarrow> \<exists>c \<in> set (si_candidates m w). cd_provider c = q" for t q
    unfolding detect_capabilities_def by (rule provider_selected)
  then have "provider_for (ps_providers p) t = Some q \<Longrightarrow> read (snd (p_apply q v req act)) = read v" for t q v req act
    using assms(1) unfolding protects_pointer_def read_def Let_def by blast
  then have applied: "read (snd (apply_plan (si_paths m) (cx_apply cx) (ps_plan p) (apply_options p md to prot) v)) = read v" for md to prot v
    by (intro keeps_apply_plan) (simp add: apply_options_def)
  have stored: "read (store_report m dir r v) = read v" for dir r v
  proof -
    have k: "keeps_files read (si_os m) (source_dirs (new_source (si_git m) cfg sub))"
      using assms(1) by (simp add: protects_pointer_def read_def Let_def keeps_source_def)
    have "read (si_put_reports m d v) = read v" for d v
      using assms(1) by (simp add: protects_pointer_def read_def Let_def)
    moreover obtain e1 v1 where e1: "ensure_dir (si_os m) dir v = (e1, v1)" by fastforce
    moreover obtain e2 v2 where e2: "ensure_dir (si_os m) (reports_dir dir) v1 = (e2, v2)" by fastforce
    moreover have "read v1 = read v" using keepsD [OF keeps_ensure_dir [OF k], of dir v] e1 by simp
    moreover have "read v2 = read v1" using keepsD [OF keeps_ensure_dir [OF k], of "reports_dir dir" v1] e2 by simp
    ultimately show ?thesis by (cases e1; cases e2) (simp_all add: store_report_def)
  qed
  show ?thesis
  proof (cases "parse_mode (rc_mode (cfg_reconciliation cfg))")
    case (Inr md)
    let ?opts = "apply_options p md (rc_actionTimeout (cfg_reconciliation cfg)) (protected_for (si_executable m) cfg)"
    obtain result err v where a: "apply_plan (si_paths m) (cx_apply cx) (ps_plan p) ?opts w' = ((result, err), v)"
      by (metis surj_pair)
    with applied have "read v = read w'" by (metis snd_conv)
    with Inr a show ?thesis by (cases err) (simp_all add: apply_and_report_def Let_def stored)
  qed (simp add: apply_and_report_def)
qed

lemma new_source_cfg [simp]: "so_cfg (new_source g cfg sub) = cfg"
  by (simp add: new_source_def)

lemma valid_ref_not_Nil: "valid_ref r = None \<Longrightarrow> r \<noteq> []"
  by (auto simp: valid_ref_def)

lemma read_revision_not_Nil: "read_revision os dir w = Inr (Some a) \<Longrightarrow> a \<noteq> []"
  by (auto simp: read_revision_def Let_def split: fs_result.splits if_splits option.splits)

lemma select_not_Nil:
  assumes "select_revision os s w = (Inr sel, w')"
  shows "sl_revision sel \<noteq> []"
  using assms
proof (cases rule: select_revision_cases)
  case (candidate accepted w1 w2)
  then obtain r w3 w4 where "materialise os s (sl_revision sel) w3 = (Inr r, w4)"
    by (auto simp: select_candidate_def Let_def after_Inr)
  then show ?thesis by (auto simp: materialise_def Let_def after_Inr checkout_def with_valid_ref_Inr dest: valid_ref_not_Nil)
qed (metis read_revision_not_Nil)

lemma selection_after_accepted:
  assumes "select_revision os s w = (Inr sel, w')" "descendant (cfg_trust (so_cfg s))"
    and "read_revision os (cfg_state (so_cfg s)) w = Inr (Some a)"
  shows "sl_accepted sel = a"
    and "sl_revision sel = a \<or> (\<exists>w1 w2. is_ancestor (so_client s) a (sl_revision sel) w1 = (Inr True, w2))"
proof -
  show acc: "sl_accepted sel = a" using assms(1) by (cases rule: select_revision_cases) (use assms(3) in auto)
  show "sl_revision sel = a \<or> (\<exists>w1 w2. is_ancestor (so_client s) a (sl_revision sel) w1 = (Inr True, w2))"
    using assms(1)
  proof (cases rule: select_revision_cases)
    case (candidate accepted w1 w2)
    then have "accepted = Some a" using assms(3) by simp
    with select_candidate_parts [OF candidate(2)] check_current_ok [OF _ assms(2)] show ?thesis by metis
  qed (use acc in simp)
qed

lemma pass_pointer:
  assumes p: "protects_pointer m cfg sub" and d: "descendant (cfg_trust cfg)"
    and a: "pointer m cfg w = Inr (Some a)"
  shows "\<exists>b. pointer m cfg (snd (fetching_pass m cx cfg sub w)) = Inr (Some b) \<and> (b = a \<or> succeeds m cfg sub a b)"
proof -
  let ?src = "new_source (si_git m) cfg sub" and ?read = "os_read_file (si_os m) (revision_path (cfg_state cfg))"
  have same: "pointer m cfg v = pointer m cfg v'" if "?read v = ?read v'" for v v'
    using that by (simp add: pointer_def read_revision_def)
  obtain res w1 where s: "select_revision (si_os m) ?src w = (res, w1)" by fastforce
  have "?read w1 = ?read w"
    using keepsD [OF keeps_select, of ?read "si_os m" ?src w] p s by (simp add: protects_pointer_def Let_def)
  then have a1: "pointer m cfg w1 = Inr (Some a)" using same a by metis
  show ?thesis
  proof (cases res)
    case (Inl err)
    then show ?thesis using s a1 by (simp add: fetching_pass_def Let_def)
  next
    case (Inr sel)
    note sel = selection_after_accepted [OF s [unfolded Inr], unfolded new_source_cfg, OF d a [unfolded pointer_def]]
    show ?thesis
    proof (cases "run_pass_in m cx cfg (sl_fleet sel) w1")
      case (Inl e)
      then show ?thesis using s a1 \<open>res = Inr sel\<close> by (simp add: fetching_pass_def Let_def)
    next
      case (Inr q)
      let ?w2 = "accept_resolved m ?src sel w1"
      have "snd (fetching_pass m cx cfg sub w) = snd (apply_and_report m cx cfg q sel ?w2)"
        using s \<open>res = Inr sel\<close> Inr by (simp add: fetching_pass_def Let_def case_prod_beta)
      with pass_keeps [OF p Inr] have end_ptr: "pointer m cfg (snd (fetching_pass m cx cfg sub w)) = pointer m cfg ?w2"
        using same by metis
      show ?thesis
      proof (cases "\<not> sl_fell_back sel \<and> sl_revision sel \<noteq> a")
        case True
        obtain ok w2 where acc: "accept (si_os m) ?src (sl_revision sel) w1 = (ok, w2)" by fastforce
        then have "advance (si_os m) (cfg_state cfg) (sl_revision sel) w1 = (ok, w2)" by (simp add: accept_def)
        from advance_reads_back [OF _ _ this] p
        have "pointer m cfg w2 = (if ok = Inr () then Inr (Some (sl_revision sel)) else pointer m cfg w1)"
          by (auto simp: protects_pointer_def pointer_def Let_def keeps_source_def)
        moreover have "?w2 = w2" using True acc sel(1) by (simp add: accept_resolved_def)
        moreover have "succeeds m cfg sub a (sl_revision sel)"
          using True sel(2) s \<open>res = Inr sel\<close> Inr unfolding succeeds_def confirmed_def by blast
        ultimately show ?thesis using end_ptr a1 by auto
      next
        case False
        then have "?w2 = w1" using sel(1) by (auto simp: accept_resolved_def)
        then show ?thesis using end_ptr a1 by simp
      qed
    qed
  qed
qed

text \<open>A trigger fires only after a step that changes by itself.\<close>

lemma plan_steps_own_change:
  assumes "list_ex (\<lambda>s. changes (st_action s)) (plan_steps g base [] refs)"
  shows "\<exists>s \<in> set (plan_steps g base [] refs). changes (st_action s) \<and> (\<exists>ref \<in> set refs. s = base ref)"
  using assms
proof (induction refs)
  case (Cons ref refs)
  have "trigger_step g [] (base ref) = base ref" by (simp add: trigger_step_def fired_triggers_def Let_def)
  with Cons show ?case by (auto simp: Let_def) blast
qed simp

lemma diff_counts_positive:
  "0 < fst (diff_counts p) \<longleftrightarrow> (\<exists>s \<in> set (pl_steps p). changes (st_action s) \<and> st_err s = None)"
proof -
  have "0 < fst (foldl (\<lambda>(differing, matching) s.
         if st_action s = Skip \<or> st_err s \<noteq> None then (differing, matching)
         else if \<not> changes (st_action s) then (differing, matching + 1)
         else (differing + 1, matching)) (n, k) ss) \<longleftrightarrow> 0 < n \<or> (\<exists>s \<in> set ss. changes (st_action s) \<and> st_err s = None)"
    for n k :: nat and ss
    by (induction ss arbitrary: n k) auto
  from this [of 0 0 "pl_steps p"] show ?thesis unfolding diff_counts_def by simp
qed

section \<open>Properties\<close>

text \<open>
  Diff and plan agree. On the same host \<open>datum diff\<close> exits with the code for a difference
  exactly if \<open>datum plan\<close> does, although one counts the steps that differ and could be read, and the
  other also those that only a trigger changes.
\<close>

theorem diff_plan_agree:
  "run_diff m host repo w = run_plan m host repo w"
proof (cases "run_pass m unbounded None host repo w")
  case (Inr p)
  then obtain manifest g observed where p: "ps_plan p = build_plan (si_sha m) manifest g observed"
    by (auto simp: run_pass_def split: if_splits sum.splits option.splits prod.splits)
  have steps: "pl_steps (ps_plan p) = plan_steps g (bases g observed) [] (g_order g)" by (simp add: p build_plan_steps)
  have own: "st_err (bases g observed ref) = None" if "changes (st_action (bases g observed ref))" for ref
    using that by (auto simp: bases_def base_step_def Let_def split: option.splits if_splits)
  have "plan_changes (ps_plan p) \<longleftrightarrow> 0 < fst (diff_counts (ps_plan p))"
    using plan_steps_own_change [of g "bases g observed" "g_order g"] own
    by (auto simp: plan_changes_def diff_counts_positive steps list_ex_iff)
  with Inr show ?thesis by (simp add: run_diff_def run_plan_def)
qed (simp add: run_diff_def run_plan_def)


text \<open>
  C7: nothing unverified is applied. An agent whose configuration requires a signature reports
  a pass only for the revision it had accepted before, again, or for a revision whose commit or
  tag was verified as the configuration requires; a checkout named on the command line gives
  it no pass at all.
\<close>

theorem applied_is_verified:
  assumes "build_pass m cx cfg installed repo sub = Inr pass" "tc_require (cfg_trust cfg) \<noteq> RequireNone"
    and "pass w = ((recorded, PassReport rep f), w')"
  defines "src \<equiv> new_source (si_git m) cfg sub" and "keys \<equiv> tc_signers (cfg_trust cfg)"
  shows "\<exists>sel w1. select_revision (si_os m) src w = (Inr sel, w1) \<and> rp_applied rep = short_rev (sl_revision sel)
    \<and> (sl_fell_back sel \<and> pointer m cfg w = Inr (Some (sl_revision sel))
      \<or> tc_require (cfg_trust cfg) = RequireSignedCommit
        \<and> (\<exists>v v'. verify_commit (so_client src) (sl_revision sel) keys v = (Inr (sl_signature sel), v'))
      \<or> tc_require (cfg_trust cfg) = RequireSignedTag
        \<and> (\<exists>v v'. verify_tag (so_client src) (sl_tag sel) keys v = (Inr (sl_signature sel), v')))"
proof -
  have f: "fetching_pass m cx cfg sub w = ((recorded, PassReport rep f), w')"
    using assms(1-3) by (auto simp: build_pass_def split: if_splits)
  then obtain sel w1 where s: "select_revision (si_os m) src w = (Inr sel, w1)"
    by (auto simp: fetching_pass_def Let_def src_def split: prod.splits sum.splits)
  with f obtain q where q: "apply_and_report m cx cfg q sel (accept_resolved m src sel w1) = (PassReport rep f, w')"
    by (auto simp: fetching_pass_def Let_def src_def split: prod.splits sum.splits)
  then obtain r where "rep = describe_revisions sel r"
    by (auto simp: apply_and_report_def Let_def split: sum.splits prod.splits option.splits)
  with select_not_Nil [OF s] have "rp_applied rep = short_rev (sl_revision sel)" by (simp add: describe_revisions_def Let_def)
  moreover from s have "sl_fell_back sel \<and> pointer m cfg w = Inr (Some (sl_revision sel))
      \<or> tc_require (cfg_trust cfg) = RequireSignedCommit
        \<and> (\<exists>v v'. verify_commit (so_client src) (sl_revision sel) keys v = (Inr (sl_signature sel), v'))
      \<or> tc_require (cfg_trust cfg) = RequireSignedTag
        \<and> (\<exists>v v'. verify_tag (so_client src) (sl_tag sel) keys v = (Inr (sl_signature sel), v'))"
  proof (cases rule: select_revision_cases)
    case (candidate accepted v1 v2)
    then obtain v3 v4 where "candidate (si_os m) src v3 = (Inr (sl_revision sel, sl_tag sel, sl_signature sel), v4)"
      using conjunct1 [OF select_candidate_parts [OF candidate(2)]] by blast
    from candidate_verified [OF this] assms(2) show ?thesis by (auto simp: src_def keys_def)
  qed (simp add: pointer_def src_def)
  ultimately show ?thesis using s by blast
qed

text \<open>
  C33: a revision that does not resolve stops the host. If the selected revision is new and the
  manifest does not resolve in it, the tick applies nothing and leaves the host as the selection
  left it, whatever revision it has accepted and although that one would still resolve: the pass
  is a failure of the source, without a report, so the last report stays the one before.
\<close>

theorem unresolved_revision_stops_host:
  assumes "select_revision (si_os m) (new_source (si_git m) cfg sub) w = (Inr sel, w1)" "\<not> sl_fell_back sel"
    and "run_pass_in m cx cfg (sl_fleet sel) w1 = Inl problem"
    and "agent_tick seconds_text (fetching_pass m cx cfg sub) (LockTaken at) False timed_out (a, w) = (a', w')"
  shows "w' = w1 \<and> ag_failures a' = ag_failures a + 1 \<and> rg_latest (ag_registry a') = rg_latest (ag_registry a)
    \<and> ag_schedule a' = record_pass Upstream (ag_schedule a)"
proof -
  obtain refused where n: "fetching_pass m cx cfg sub w = ((refused, PassError Upstream pass_failed), w1)"
    using assms(1-3) by (simp add: fetching_pass_def Let_def)
  have latest: "rg_latest (fold note_registry recorded r) = rg_latest r" for recorded r
    by (induction recorded arbitrary: r) (auto simp: note_registry_def refuse_revision_def set_trust_def split: pass_note.split)
  show ?thesis
    using assms(4) n
    by (auto simp: agent_tick_def run_once_def agent_failure_def Let_def registry_failure_def registry_attempt_def latest)
qed

section \<open>Concrete passes\<close>

text \<open>
  A host of files, each a path with what it holds, whose clone and tree are not in the files; its
  git is the one of the example of a source, whose branch goes from revision a...a to b...b.
\<close>

type_synonym files = "(string \<times> string) list"

definition files_os :: "files os" where
  "files_os = \<lparr>os_stat = \<lambda>p w. FsOk \<lparr>fst_is_dir = True, fst_perm = state_mode, fst_owner = None\<rparr>,
     os_read_file = \<lambda>p w. (case map_of w p of None \<Rightarrow> NotExist [] | Some c \<Rightarrow> FsOk c),
     os_write_file = \<lambda>p t n w. (None, AList.update p t w),
     os_rename = \<lambda>p q w. (case map_of w p of None \<Rightarrow> (Some ''no such file'', w) | Some c \<Rightarrow> (None, AList.update q c (AList.delete p w))),
     os_remove = \<lambda>p w. (FsOk (), if p = ''/tmp/index'' then w else AList.delete p w), os_remove_all = \<lambda>p w. (None, w),
     os_mkdir_all = \<lambda>p n w. (None, w), os_create_temp = \<lambda>d p w. (Inr ''/tmp/index'', w), os_walk = \<lambda>p w. [],
     os_euid = 0\<rparr>"

definition twin_config :: config where
  "twin_config = default_config\<lparr>cfg_host := ''h'', cfg_source := (cfg_source default_config)\<lparr>sc_url := ''u''\<rparr>\<rparr>"

definition twin_site :: "(string + fs_tree list) \<Rightarrow> files site" where
  "twin_site tree = \<lparr>si_os = files_os, si_tree = \<lambda>dir w. tree, si_decode = twin_streams, si_git_at = \<lambda>dir args w. None,
     si_candidates = \<lambda>w. [], si_paths = \<lambda>w. \<lparr>eval_symlinks = \<lambda>p. None, lstat = \<lambda>p. None, read_dir = \<lambda>p. None\<rparr>,
     si_executable = None, si_sha = id, si_clock = \<lambda>w. 0, si_error_text = \<lambda>e. [], si_reports = \<lambda>w. [],
     si_put_reports = \<lambda>d w. w, si_time_text = \<lambda>t. [], si_encode = \<lambda>r. [], si_key_blob = Some, si_key_digest = id,
     si_git = example_git\<rparr>"

definition calm :: contexts where
  "calm = \<lparr>cx_observe = unbounded, cx_apply = unbounded\<rparr>"

definition accepted_files :: files where
  "accepted_files = [(''/var/lib/datum/accepted-revision'', replicate 40 (CHR ''a''))]"

lemma twin_accepted: "read_revision files_os (cfg_state twin_config) accepted_files = Inr (Some (replicate 40 (CHR ''a'')))"
  by code_simp

lemma twin_selected:
  "select_revision files_os (new_source example_git twin_config []) accepted_files = (Inr example_selection, accepted_files)"
proof -
  let ?a = "replicate 40 (CHR ''a'')" and ?b = "replicate 40 (CHR ''b'')" and ?s = "new_source example_git twin_config [] :: files source"
  have c: "resolve_ref (so_client ?s) (origin_branch ?s) accepted_files = (Inr ?b, accepted_files)"
    "fetch files_os (so_client ?s) accepted_files = (Inr (), accepted_files)"
    "require_complete_history (so_client ?s) accepted_files = (Inr (), accepted_files)" by code_simp+
  have d: "ensure_clone files_os (so_client ?s) (sc_url (cfg_source twin_config)) (sc_branch (cfg_source twin_config)) accepted_files
      = (Inr (), accepted_files)" by code_simp
  have e: "check_current ?s ?b (Some ?a) accepted_files = (Inr (), accepted_files)" by code_simp
  have g: "materialise files_os ?s ?b accepted_files = (Inr (''/var/lib/datum/tree'', ''/var/lib/datum/tree''), accepted_files)"
    by code_simp
  have k: "tc_require (cfg_trust twin_config) = RequireSignedCommit" by (simp add: twin_config_def default_config_def)
  have s: "so_client ?s = so_client (new_source example_git default_config [])"
    by (simp add: new_source_def twin_config_def default_config_def)
  have v: "verify_commit (so_client ?s) ?b keys accepted_files = (Inr \<lparr>sg_key = ''K'', sg_signer = ''S''\<rparr>, accepted_files)" for keys
    unfolding s by (rule example_verified)
  have "candidate files_os ?s accepted_files = (Inr (?b, [], \<lparr>sg_key = ''K'', sg_signer = ''S''\<rparr>), accepted_files)"
    using c(1) v by (simp add: candidate_def k after_def handle_def)
  then have "select_candidate files_os ?s (Some ?a) accepted_files
      = (Inr (?b, [], \<lparr>sg_key = ''K'', sg_signer = ''S''\<rparr>, ''/var/lib/datum/tree'', ''/var/lib/datum/tree''), accepted_files)"
    using c d e g by (simp add: select_candidate_def after_def Let_def)
  then show ?thesis using twin_accepted by (simp add: select_revision_def handle_def example_selection_def Let_def)
qed

lemma twin_protects: "protects_pointer (twin_site tree) twin_config []"
proof -
  let ?path = "revision_path (cfg_state twin_config)" and ?s = "new_source example_git twin_config [] :: files source"
  have "?path \<noteq> ''/tmp/index''" by code_simp
  then have "keeps_files (os_read_file files_os ?path) files_os (source_dirs ?s)"
    by (simp add: keeps_files_def files_os_def)
  moreover have "keeps_runner (os_read_file files_os ?path) (gc_runner (so_client ?s))"
    by (simp add: keeps_runner_def keeps_def example_git_def new_source_def new_client_def with_credential_def
        extend_runner.simps split: runner.split)
  moreover have "replaces_file files_os ?path"
    by (auto simp: replaces_file_def files_os_def update_conv' delete_conv' split: option.splits)
  ultimately show ?thesis by (simp add: protects_pointer_def twin_site_def keeps_source_def)
qed

lemma twin_pointer:
  "pointer (twin_site tree) twin_config accepted_files = Inr (Some (replicate 40 (CHR ''a'')))"
  by (simp add: pointer_def twin_site_def twin_accepted)

lemma twin_descendant: "descendant (cfg_trust twin_config)"
  by (simp add: descendant_def twin_config_def default_config_def)

lemma twin_sites [simp]: "si_os (twin_site tree) = files_os" "si_git (twin_site tree) = example_git"
  by (simp_all add: twin_site_def)

text \<open>One pass goes from the accepted revision to the one the branch is at.\<close>

definition twin_end :: "pass_end \<times> files" where
  "twin_end =
     (case run_pass_in (twin_site twin_tree) calm twin_config (sl_fleet example_selection) accepted_files of
        Inl _ \<Rightarrow> (PassError NoFailure [], accepted_files)
      | Inr p \<Rightarrow> apply_and_report (twin_site twin_tree) calm twin_config p example_selection
          (accept_resolved (twin_site twin_tree) (new_source example_git twin_config []) example_selection accepted_files))"

lemma twin_report: "case fst twin_end of PassReport rep f \<Rightarrow> rp_applied rep = ''bbbbbbb'' | _ \<Rightarrow> False"
  by code_simp

lemma twin_advanced: "pointer (twin_site twin_tree) twin_config (snd twin_end) = Inr (Some (replicate 40 (CHR ''b'')))"
  by code_simp

lemma twin_resolves: "\<not> isl (run_pass_in (twin_site twin_tree) calm twin_config (sl_fleet example_selection) accepted_files)"
  by code_simp

lemma twin_fetched:
  "\<exists>recorded. fetching_pass (twin_site twin_tree) calm twin_config [] accepted_files = ((recorded, fst twin_end), snd twin_end)"
  using twin_resolves
  by (cases "run_pass_in (twin_site twin_tree) calm twin_config (sl_fleet example_selection) accepted_files")
    (simp_all add: fetching_pass_def twin_selected Let_def twin_end_def case_prod_beta)


theorem applied_is_verified_witness:
  "\<exists>v v'. verify_commit (so_client (new_source example_git twin_config [])) (sl_revision example_selection)
     (tc_signers (cfg_trust twin_config)) v = (Inr (sl_signature example_selection), v' :: files)"
proof -
  obtain rep f where p: "fst twin_end = PassReport rep f" "rp_applied rep = ''bbbbbbb''"
    using twin_report by (cases "fst twin_end") auto
  obtain recorded where w: "fetching_pass (twin_site twin_tree) calm twin_config [] accepted_files
      = ((recorded, PassReport rep f), snd twin_end)"
    using twin_fetched p by auto
  have r: "tc_require (cfg_trust twin_config) = RequireSignedCommit" by (simp add: twin_config_def default_config_def)
  then have "tc_require (cfg_trust twin_config) \<noteq> RequireNone" by simp
  moreover have "build_pass (twin_site twin_tree) calm twin_config True [] []
      = Inr (fetching_pass (twin_site twin_tree) calm twin_config [])"
    by (simp add: build_pass_def twin_config_def)
  ultimately show ?thesis
    using applied_is_verified [where w = accepted_files and w' = "snd twin_end" and rep = rep and f = f and recorded = recorded
        and pass = "fetching_pass (twin_site twin_tree) calm twin_config []" and m = "twin_site twin_tree" and cfg = twin_config
        and cx = calm and installed = True and repo = "[]" and sub = "[]"] w twin_selected p(2) r by (auto simp: example_selection_def)
qed

theorem unresolved_revision_stops_host_witness:
  "\<exists>a. snd (agent_tick (\<lambda>n. []) (fetching_pass (twin_site (Inr [])) calm twin_config []) (LockTaken 0) False False (a, accepted_files))
     = accepted_files"
proof -
  have "isl (run_pass_in (twin_site (Inr [])) calm twin_config (sl_fleet example_selection) accepted_files)" by code_simp
  then obtain problem where "run_pass_in (twin_site (Inr [])) calm twin_config (sl_fleet example_selection) accepted_files = Inl problem"
    by (auto simp: isl_def)
  moreover have "\<not> sl_fell_back example_selection" by (simp add: example_selection_def)
  ultimately show ?thesis
    using unresolved_revision_stops_host [where m = "twin_site (Inr [])" and cfg = twin_config and sub = "[]" and w = accepted_files
        and sel = example_selection and ?w1.0 = accepted_files] twin_selected
    by (metis prod.collapse twin_sites)
qed


end
