(* ===== verification/Programs.thy ===== *)
theory Programs
  imports Run Plan Words Canonical
begin

text \<open>
  What the providers that drive programs share: package \<open>internal/provider\<close> runs a program
  through the runner of \<open>internal/run\<close>, here any function from an argument vector, checks each
  name it hands over with \<open>run.Word\<close>, and fails with the text of a result that is not zero. The
  argument vectors a computation runs are seen by a runner that records them.
\<close>

section \<open>Definitions\<close>

type_synonym 'w run_program = "string list \<Rightarrow> ('w, run_result) io"

definition word_text :: "word_error \<Rightarrow> string" where
  "word_text e =
     (case e of
        EmptyWord kind \<Rightarrow> ''empty '' @ kind
      | OptionWord kind value \<Rightarrow> kind @ '' '' @ quote_key value @ '' would be read as an option''
      | NotAWord value kind \<Rightarrow> quote_key value @ '' is not a '' @ kind)"

definition with_word :: "string \<Rightarrow> string \<Rightarrow> string \<Rightarrow> string \<Rightarrow> ('w, 'a) io \<Rightarrow> ('w, 'a) io" where
  "with_word tag kind extra word m =
     (case check_word kind word extra of Some e \<Rightarrow> fail (tag @ '': '' @ word_text e) | None \<Rightarrow> m)"

definition check_result :: "run_result \<Rightarrow> ('w, unit) io" where
  "check_result r = (case run_err r of None \<Rightarrow> pure () | Some e \<Rightarrow> fail e)"

definition run_checked :: "'w run_program \<Rightarrow> string list \<Rightarrow> ('w, unit) io" where
  "run_checked run argv = after (run argv) check_result"

text \<open>
  A provider out of its two operations. What an observation runs only reads, so what it leaves of
  the host is not looked at. \<open>ended\<close> says whether the context of an action had ended when it returned.
\<close>

definition provider_of ::
    "string \<Rightarrow> string list \<Rightarrow> (request \<Rightarrow> ('w, observation) io) \<Rightarrow> (request \<Rightarrow> action \<Rightarrow> ('w, unit) io)
      \<Rightarrow> ('w \<Rightarrow> bool) \<Rightarrow> 'w provider" where
  "provider_of name type_names observe apply ended =
     \<lparr>p_name = name, p_types = type_names,
      p_observe = (\<lambda>w rq. case fst (observe rq w) of Inl e \<Rightarrow> Inl (ge_text e) | Inr ob \<Rightarrow> Inr ob),
      p_apply = (\<lambda>w rq act. case apply rq act w of
        (Inr _, w') \<Rightarrow> (Applied, w') | (Inl e, w') \<Rightarrow> (ApplyFailed (ge_text e) (ended w'), w'))\<rparr>"

text \<open>
  \<open>strings.ToLower\<close>, on the texts the program looks at: letters, and the two other code points whose
  lower case is a letter, become lower case, a byte that is no encoding becomes U+FFFD, and what
  else has a lower case is left, because only ASCII text is looked for.
\<close>

definition lower_piece :: "nat option \<times> string \<Rightarrow> string" where
  "lower_piece p =
     (case p of
        (None, _) \<Rightarrow> bytes [239, 191, 189]
      | (Some r, encoding) \<Rightarrow>
          if 65 \<le> r \<and> r \<le> 90 then [char_of (r + 32)]
          else if r = 304 then ''i''
          else if r = 8490 then ''k''
          else encoding)"

definition to_lower :: "string \<Rightarrow> string" where
  "to_lower s = concat (map lower_piece (runes s))"

section \<open>Specification\<close>

text \<open>A computation runs only what \<open>permitted\<close> permits, whatever they answer.\<close>

definition recording :: "'w run_program \<Rightarrow> ('w \<times> string list list) run_program" where
  "recording run argv w = (case run argv (fst w) of (r, v) \<Rightarrow> (r, (v, snd w @ [argv])))"

definition runs_only :: "(string list \<Rightarrow> bool) \<Rightarrow> ('w \<times> string list list, 'a) io \<Rightarrow> bool" where
  "runs_only permitted m \<longleftrightarrow>
     (\<forall>w. list_all permitted (snd w) \<longrightarrow> list_all permitted (snd (snd (m w))))"

section \<open>Lemmas\<close>

lemma word_rune_code [code]:
  "word_rune extra r \<longleftrightarrow>
     (let n = int r
      in 97 \<le> n \<and> n \<le> 122 \<or> 65 \<le> n \<and> n \<le> 90 \<or> 48 \<le> n \<and> n \<le> 57 \<or> list_ex (\<lambda>c. of_char c = n) extra)"
proof -
  have "r = of_char c \<longleftrightarrow> of_char c = int r" for c by (metis nat_int of_nat_of_char)
  then show ?thesis by (auto simp: word_rune_def Let_def list_ex_iff)
qed

named_theorems runs_only

lemma runs_only_pure [runs_only]: "runs_only P (pure x)" "runs_only P (fail msg)" "runs_only P (raise e)"
  by (simp_all add: runs_only_def)

lemma runs_only_after [runs_only]:
  "runs_only P m \<Longrightarrow> (\<And>x. runs_only P (f x)) \<Longrightarrow> runs_only P (after m f)"
  by (auto simp: runs_only_def after_def split: prod.split sum.split) (metis snd_conv)+

lemma runs_only_recording [runs_only]: "P argv \<Longrightarrow> runs_only P (recording run argv)"
  by (simp add: runs_only_def recording_def split: prod.split)

lemma runs_only_if [runs_only]: "(b \<Longrightarrow> runs_only P m) \<Longrightarrow> (\<not> b \<Longrightarrow> runs_only P m') \<Longrightarrow> runs_only P (if b then m else m')"
  by simp

lemma runs_only_option [runs_only]:
  "(x = None \<Longrightarrow> runs_only P m) \<Longrightarrow> (\<And>y. x = Some y \<Longrightarrow> runs_only P (g y)) \<Longrightarrow>
     runs_only P (case x of None \<Rightarrow> m | Some y \<Rightarrow> g y)"
  by (cases x) simp_all

lemma runs_only_check [runs_only]: "runs_only P (check_result r)"
  by (simp add: check_result_def runs_only split: option.split)

lemma runs_only_checked [runs_only]: "P argv \<Longrightarrow> runs_only P (run_checked (recording run) argv)"
  unfolding run_checked_def by (intro runs_only)

lemma runs_only_word [runs_only]:
  "(check_word kind word extra = None \<Longrightarrow> runs_only P m) \<Longrightarrow> runs_only P (with_word tag kind extra word m)"
  by (simp add: with_word_def runs_only split: option.split)

lemma run_checked_ok:
  "run_checked run argv w = (Inr u, w') \<longleftrightarrow> (\<exists>r. run argv w = (Inr r, w') \<and> run_ok r)"
  by (auto simp: run_checked_def after_def check_result_def run_err_def Let_def pure_def fail_def
      split: prod.splits sum.splits if_splits option.splits)

text \<open>A word is not empty, no program takes it for an option, and each of its bytes is one that is allowed.\<close>

definition word_char :: "string \<Rightarrow> char \<Rightarrow> bool" where
  "word_char extra c \<longleftrightarrow>
     (let n = of_char c :: nat
      in 97 \<le> n \<and> n \<le> 122 \<or> 65 \<le> n \<and> n \<le> 90 \<or> 48 \<le> n \<and> n \<le> 57 \<or> c \<in> set extra)"

lemma decode_rune_beyond:
  assumes "\<not> b < 128" shows "\<not> rune_value (fst (decode_rune (b # bs))) < 128"
proof (cases "decode_rune (b # bs)")
  case (Pair r w)
  show ?thesis
  proof (cases r)
    case (Some n)
    have w: "0 < w" "w \<le> length (b # bs)"
      using decode_rune_width [of "b # bs"] decode_rune_width_le [of "b # bs"] Pair by auto
    then have "decode_rune (take w (b # bs)) = (Some n, length (take w (b # bs)))"
      using decode_rune_take Pair Some by (simp del: decode_rune.simps)
    then show ?thesis
    proof (cases rule: decode_rune_form)
      case (one a)
      with w assms show ?thesis by (cases w) auto
    qed (use Pair Some in \<open>simp_all add: rune_value_def del: decode_rune.simps\<close>)
  qed (use Pair in \<open>simp add: rune_value_def del: decode_rune.simps\<close>)
qed

lemma runes_fuel_ascii:
  assumes ascii: "\<And>r. P r \<Longrightarrow> r < 128" and "length s \<le> n"
  shows "list_all (\<lambda>p. P (rune_value (fst p))) (runes_fuel n s) \<longleftrightarrow> list_all (\<lambda>c. P (of_char c)) s"
  using assms(2)
proof (induction n arbitrary: s)
  case (Suc n)
  show ?case
  proof (cases s)
    case (Cons c t)
    show ?thesis
    proof (cases "(of_char c :: nat) < 128")
      case True
      with Cons Suc show ?thesis by (simp add: rune_value_def)
    next
      case False
      then have "\<not> P (of_char c)" "\<not> P (rune_value (fst (decode_rune (map of_char s))))"
        using ascii decode_rune_beyond [OF False, of "map of_char t"] Cons by (blast, metis list.simps(9))
      with Cons show ?thesis by (simp add: case_prod_beta Let_def del: decode_rune.simps)
    qed
  qed simp
qed simp

lemma check_word_chars:
  assumes "\<forall>c \<in> set extra. (of_char c :: nat) < 128"
  shows "check_word kind word extra = None \<longleftrightarrow> word \<noteq> [] \<and> hd word \<noteq> CHR ''-'' \<and> list_all (word_char extra) word"
proof -
  have "list_all (word_rune extra) (map (rune_value \<circ> fst) (runes word)) \<longleftrightarrow> list_all (\<lambda>c. word_rune extra (of_char c)) word"
    unfolding list.pred_map runes_def comp_def
    by (rule runes_fuel_ascii [where P = "word_rune extra", unfolded comp_def]) (use assms in \<open>auto simp: word_rune_def\<close>)
  moreover have "word_rune extra (of_char c) \<longleftrightarrow> word_char extra c" for c
    by (auto simp: word_rune_def word_char_def Let_def)
  ultimately show ?thesis
    by (cases word) (auto simp: check_word_def has_prefix_def)
qed

lemma check_word_None: "check_word kind word extra = None \<Longrightarrow> word \<noteq> [] \<and> hd word \<noteq> CHR ''-''"
  by (cases word) (auto simp: check_word_def has_prefix_def split: if_splits)

lemma with_word_ok:
  "with_word tag kind extra word m w = (Inr x, w') \<longleftrightarrow> check_word kind word extra = None \<and> m w = (Inr x, w')"
  by (auto simp: with_word_def fail_def split: option.splits)

end
