(* ===== verification/Systemd.thy ===== *)
theory Systemd
  imports Programs Effects Reconcile
begin

text \<open>
  Package \<open>internal/provider/systemd\<close>: services. One \<open>systemctl show\<close> tells what is observed and
  what applying starts from; applying enables or disables, then starts, stops, reloads or restarts.
\<close>

section \<open>Definitions\<close>

record unit_status =
  un_load :: string
  un_active :: string
  un_file_state :: string
  un_properties :: "(string \<times> string) list"

definition unit_exists :: "unit_status \<Rightarrow> bool" where
  "unit_exists u \<longleftrightarrow> un_load u \<noteq> ''not-found'' \<and> un_load u \<noteq> []"

definition unit_running :: "unit_status \<Rightarrow> bool" where
  "unit_running u \<longleftrightarrow> un_active u = ''active''"

text \<open>Whether the unit starts at boot, where that is a question with an answer.\<close>

definition unit_enabled :: "unit_status \<Rightarrow> bool option" where
  "unit_enabled u =
     (if un_file_state u = ''enabled'' \<or> un_file_state u = ''enabled-runtime'' then Some True
      else if un_file_state u = ''disabled'' then Some False
      else None)"

definition show_argv :: "string \<Rightarrow> string list" where
  "show_argv name = [''systemctl'', ''show'', ''--property=LoadState'', ''--property=ActiveState'',
     ''--property=UnitFileState'', ''--'', name]"

definition property_line :: "(string \<times> string) list \<Rightarrow> string \<Rightarrow> (string \<times> string) list" where
  "property_line props line =
     (case cut_at (CHR ''='') (trim_space line) of None \<Rightarrow> props | Some (key, v) \<Rightarrow> AList.update key v props)"

definition property_of :: "(string \<times> string) list \<Rightarrow> string \<Rightarrow> string" where
  "property_of props key = (case map_of props key of Some v \<Rightarrow> v | None \<Rightarrow> [])"

definition unit_of :: "string \<Rightarrow> unit_status" where
  "unit_of out =
     (let props = foldl property_line [] (split_on (CHR 0x0A) out)
      in \<lparr>un_load = property_of props ''LoadState'', un_active = property_of props ''ActiveState'',
          un_file_state = property_of props ''UnitFileState'', un_properties = props\<rparr>)"

definition show_unit :: "'w run_program \<Rightarrow> string \<Rightarrow> ('w, unit_status) io" where
  "show_unit run name =
     after (run (show_argv name)) (\<lambda>r. case run_err r of Some e \<Rightarrow> fail e | None \<Rightarrow> pure (unit_of (rs_stdout r)))"

definition service_state :: "bool \<Rightarrow> string" where
  "service_state running = (if running then ''running'' else ''stopped'')"

definition true_text :: "bool \<Rightarrow> string" where
  "true_text v = (if v then ''true'' else ''false'')"

definition with_unit_name :: "string \<Rightarrow> ('w, 'a) io \<Rightarrow> ('w, 'a) io" where
  "with_unit_name name m = with_word ''systemd'' ''unit name'' (''-_.@:'' @ [CHR 0x5C]) name m"

definition unit_observation :: "unit_status \<Rightarrow> observation" where
  "unit_observation u =
     (let fields = [(''state'', scalar_val (service_state (unit_running u))), (''loadState'', scalar_val (un_load u)),
            (''activeState'', scalar_val (un_active u)), (''unitFileState'', scalar_val (un_file_state u))]
      in zero_observation
           \<lparr>ob_exists := True,
            ob_fields := (case unit_enabled u of Some e \<Rightarrow> AList.update ''enabled'' (scalar_val (true_text e)) fields | None \<Rightarrow> fields),
            ob_unobservable := (if unit_enabled u = None then [''enabled''] else []),
            ob_found := (if un_load u = ''masked'' then ''a masked unit'' else [])\<rparr>)"

definition systemd_observe :: "'w run_program \<Rightarrow> request \<Rightarrow> ('w, observation) io" where
  "systemd_observe run rq =
     with_unit_name (rq_target rq)
       (after (show_unit run (rq_target rq)) (\<lambda>u.
          pure (if unit_exists u then unit_observation u else zero_observation)))"

definition systemctl :: "'w run_program \<Rightarrow> string \<Rightarrow> string \<Rightarrow> ('w, unit) io" where
  "systemctl run verb name = run_checked run [''systemctl'', verb, ''--'', name]"

definition bool_field :: "request \<Rightarrow> string \<Rightarrow> bool option" where
  "bool_field rq name = map_option (\<lambda>v. v = ''true'') (request_field rq name)"

definition set_enabled :: "'w run_program \<Rightarrow> request \<Rightarrow> unit_status \<Rightarrow> ('w, unit) io" where
  "set_enabled run rq u =
     (case bool_field rq ''enabled'' of
        None \<Rightarrow> pure ()
      | Some want \<Rightarrow>
          if unit_enabled u = None \<or> unit_enabled u = Some want then pure ()
          else systemctl run (if want then ''enable'' else ''disable'') (rq_target rq))"

definition bring_up :: "'w run_program \<Rightarrow> request \<Rightarrow> unit_status \<Rightarrow> ('w, unit) io" where
  "bring_up run rq u =
     (if field_or rq ''state'' ''running'' = ''stopped'' then
        (if \<not> unit_running u then pure () else systemctl run ''stop'' (rq_target rq))
      else if \<not> unit_running u then systemctl run ''start'' (rq_target rq)
      else case rq_trigger rq of
        Reload \<Rightarrow> systemctl run ''reload'' (rq_target rq)
      | Restart \<Rightarrow> systemctl run ''restart'' (rq_target rq)
      | NoTrigger \<Rightarrow> pure ())"

definition systemd_change :: "'w run_program \<Rightarrow> request \<Rightarrow> ('w, unit) io" where
  "systemd_change run rq =
     after (show_unit run (rq_target rq)) (\<lambda>u.
       if \<not> unit_exists u
       then fail (''systemd: unit '' @ rq_target rq @ '' is not known to systemd, so nothing installed it. ''
              @ ''A Service needs a requires on the resource that provides its unit'')
       else after (set_enabled run rq u) (\<lambda>_. bring_up run rq u))"

definition systemd_apply :: "'w run_program \<Rightarrow> request \<Rightarrow> action \<Rightarrow> ('w, unit) io" where
  "systemd_apply run rq act =
     with_unit_name (rq_target rq)
       (case act of
          NoAction \<Rightarrow> pure ()
        | Skip \<Rightarrow> pure ()
        | Remove \<Rightarrow> fail (''systemd: '' @ ref_string (rq_ref rq) @ '' cannot be removed, because a Service does not own its unit'')
        | _ \<Rightarrow> systemd_change run rq)"

definition systemd_provider :: "'w run_program \<Rightarrow> ('w \<Rightarrow> bool) \<Rightarrow> 'w provider" where
  "systemd_provider run = provider_of ''systemd'' [''Service''] (systemd_observe run) (systemd_apply run)"

text \<open>Only a Linux host boots with systemd.\<close>

definition systemd_booted :: "bool \<Rightarrow> 'w os \<Rightarrow> 'w \<Rightarrow> bool" where
  "systemd_booted linux os w \<longleftrightarrow>
     linux \<and> (case os_stat os ''/run/systemd/system'' w of FsOk info \<Rightarrow> fst_is_dir info | _ \<Rightarrow> False)"

definition systemd_detect :: "(string \<Rightarrow> bool) \<Rightarrow> bool \<Rightarrow> 'w os \<Rightarrow> 'w \<Rightarrow> bool" where
  "systemd_detect executable linux os w \<longleftrightarrow> available executable ''systemctl'' \<and> systemd_booted linux os w"

section \<open>Specification\<close>

text \<open>
  What systemd promises of a unit: \<open>show\<close> prints a line for each property, in any order, and
  changes nothing; the verbs do what they say of the unit they name, if they succeed, and a unit
  that was started stays up.
\<close>

record unit_facts =
  uf_load :: string
  uf_active :: string
  uf_file :: string

definition fact_lines :: "unit_facts \<Rightarrow> string list" where
  "fact_lines f = [''LoadState='' @ uf_load f, ''ActiveState='' @ uf_active f, ''UnitFileState='' @ uf_file f]"

definition verb_effect :: "string \<Rightarrow> unit_facts \<Rightarrow> unit_facts \<Rightarrow> bool" where
  "verb_effect verb f f' \<longleftrightarrow>
     (verb = ''enable'' \<longrightarrow> f' = f\<lparr>uf_file := ''enabled''\<rparr>)
     \<and> (verb = ''disable'' \<longrightarrow> f' = f\<lparr>uf_file := ''disabled''\<rparr>)
     \<and> (verb = ''stop'' \<longrightarrow> (\<exists>a. a \<noteq> ''active'' \<and> f' = f\<lparr>uf_active := a\<rparr>))
     \<and> (verb \<in> {''start'', ''reload'', ''restart''} \<longrightarrow> f' = f\<lparr>uf_active := ''active''\<rparr>)"

definition systemd_laws :: "'w run_program \<Rightarrow> ('w \<Rightarrow> string \<Rightarrow> unit_facts) \<Rightarrow> bool" where
  "systemd_laws run facts \<longleftrightarrow>
     (\<forall>w name. list_all visible (uf_load (facts w name)) \<and> list_all visible (uf_active (facts w name))
        \<and> list_all visible (uf_file (facts w name)))
     \<and> (\<forall>w name r w'. run (show_argv name) w = (Inr r, w') \<longrightarrow> w' = w
          \<and> (run_ok r \<longrightarrow> set (split_on (CHR 0x0A) (rs_stdout r)) - {[]} = set (fact_lines (facts w name))))
     \<and> (\<forall>verb w name r w'. run [''systemctl'', verb, ''--'', name] w = (Inr r, w') \<and> run_ok r \<longrightarrow>
          verb_effect verb (facts w name) (facts w' name))"

section \<open>Lemmas\<close>

lemma cut_at_line: "c \<notin> set a \<Longrightarrow> cut_at c (a @ c # b) = Some (a, b)"
  by (induction a) auto

lemma trim_visible: "list_all visible s \<Longrightarrow> trim_space s = s"
proof (cases "s = []")
  case False
  assume "list_all visible s"
  with False show ?thesis by (intro trim_space_visible) (auto simp: list_all_iff)
qed (simp add: trim_space_def trim_left_def trim_right_def)

lemma property_line_facts:
  assumes "list_all visible v" "list_all visible key" "CHR ''='' \<notin> set key"
  shows "property_line props (key @ CHR ''='' # v) = AList.update key v props"
  using assms cut_at_line [of "CHR ''=''" key v] trim_visible [of "key @ CHR ''='' # v"]
  by (simp add: property_line_def visible_def)

text \<open>Lines that agree on what they set, whatever their order, leave what they agree on.\<close>

lemma read_lines:
  assumes "\<forall>line \<in> set lines. \<forall>props. property_line props line = props
      \<or> (\<exists>k v. property_line props line = AList.update k v props \<and> g k = Some v)"
    and "\<exists>line \<in> set lines. \<forall>props. property_line props line = AList.update key v props"
  shows "map_of (foldl property_line [] lines) key = g key"
proof -
  have some: "\<forall>k. map_of (foldl property_line props lines) k \<in> {None, g k}" if "\<forall>k. map_of props k \<in> {None, g k}" for props
    using assms(1) that
  proof (induction lines arbitrary: props)
    case (Cons line lines)
    consider "property_line props line = props" | k v where "property_line props line = AList.update k v props" "g k = Some v"
      using Cons.prems(1) by (metis list.set_intros(1))
    then have "\<forall>k. map_of (property_line props line) k \<in> {None, g k}"
      using Cons.prems(2) by cases (simp_all add: update_conv')
    with Cons show ?case by simp
  qed simp
  have stays: "map_of (foldl property_line props ls) key \<noteq> None" if "map_of props key \<noteq> None" "set ls \<subseteq> set lines" for props ls
    using that
  proof (induction ls arbitrary: props)
    case (Cons line ls)
    have "property_line props line = props \<or> (\<exists>k v. property_line props line = AList.update k v props)"
      using assms(1) Cons.prems(2) by fastforce
    with Cons.prems(1) have "map_of (property_line props line) key \<noteq> None" by (auto simp: update_conv')
    with Cons show ?case by simp
  qed simp
  obtain as line bs where l: "lines = as @ line # bs" "\<forall>props. property_line props line = AList.update key v props"
    using assms(2) by (metis split_list)
  have "map_of (foldl property_line [] lines) key \<noteq> None"
    using stays [of "property_line (foldl property_line [] as) line" bs] l by (auto simp: update_conv')
  moreover have "map_of (foldl property_line [] lines) key \<in> {None, g key}" using some [of "[]"] by simp
  ultimately show ?thesis by auto
qed

lemma visible_words: "list_all visible ''LoadState''" "list_all visible ''ActiveState''" "list_all visible ''UnitFileState''"
  by (simp_all add: visible_def)

lemma property_lines:
  assumes "list_all visible v"
  shows "property_line props (''LoadState='' @ v) = AList.update ''LoadState'' v props"
    "property_line props (''ActiveState='' @ v) = AList.update ''ActiveState'' v props"
    "property_line props (''UnitFileState='' @ v) = AList.update ''UnitFileState'' v props"
  using property_line_facts [OF assms visible_words(1)] property_line_facts [OF assms visible_words(2)]
    property_line_facts [OF assms visible_words(3)] by simp_all

lemma unit_of_facts:
  assumes "set (split_on (CHR 0x0A) out) - {[]} = set (fact_lines f)"
    and v: "list_all visible (uf_load f)" "list_all visible (uf_active f)" "list_all visible (uf_file f)"
  shows "un_load (unit_of out) = uf_load f \<and> un_active (unit_of out) = uf_active f \<and> un_file_state (unit_of out) = uf_file f"
proof -
  let ?lines = "split_on (CHR 0x0A) out"
  let ?g = "map_of [(''LoadState'', uf_load f), (''ActiveState'', uf_active f), (''UnitFileState'', uf_file f)]"
  have empty_line: "property_line props [] = props" for props
    by (simp add: property_line_def trim_space_def trim_left_def trim_right_def)
  have mem: "line = [] \<or> line \<in> set (fact_lines f)" if "line \<in> set ?lines" for line using assms(1) that by blast
  have lines: "\<forall>line \<in> set ?lines. \<forall>props. property_line props line = props
      \<or> (\<exists>k v. property_line props line = AList.update k v props \<and> ?g k = Some v)"
    using mem property_lines [OF v(1)] property_lines [OF v(2)] property_lines [OF v(3)] empty_line
    by (fastforce simp: fact_lines_def)
  have "set (fact_lines f) \<subseteq> set ?lines" using assms(1) by blast
  then have there: "\<exists>line \<in> set ?lines. \<forall>props. property_line props line = AList.update ''LoadState'' (uf_load f) props"
    "\<exists>line \<in> set ?lines. \<forall>props. property_line props line = AList.update ''ActiveState'' (uf_active f) props"
    "\<exists>line \<in> set ?lines. \<forall>props. property_line props line = AList.update ''UnitFileState'' (uf_file f) props"
    using property_lines(1) [OF v(1)] property_lines(2) [OF v(2)] property_lines(3) [OF v(3)]
    by (auto simp: fact_lines_def)
  show ?thesis
    using read_lines [OF lines there(1)] read_lines [OF lines there(2)] read_lines [OF lines there(3)]
    by (simp add: unit_of_def property_of_def Let_def)
qed

lemma systemd_lawsD:
  assumes "systemd_laws run facts"
  shows "list_all visible (uf_load (facts w name))" "list_all visible (uf_active (facts w name))"
    "list_all visible (uf_file (facts w name))"
    "run (show_argv name) w = (Inr r, w') \<Longrightarrow> w' = w"
    "run (show_argv name) w = (Inr r, w') \<Longrightarrow> run_ok r \<Longrightarrow>
       set (split_on (CHR 0x0A) (rs_stdout r)) - {[]} = set (fact_lines (facts w name))"
  using assms unfolding systemd_laws_def by simp_all

lemma show_unit_facts:
  assumes laws: "systemd_laws run facts" and ok: "show_unit run name w = (Inr u, w')"
  shows "w' = w \<and> un_load u = uf_load (facts w name) \<and> un_active u = uf_active (facts w name)
    \<and> un_file_state u = uf_file (facts w name)"
proof -
  obtain r where r: "run (show_argv name) w = (Inr r, w')" "run_ok r" "u = unit_of (rs_stdout r)"
    using ok by (auto simp: show_unit_def after_def pure_def fail_def run_err_def Let_def
        split: prod.splits sum.splits option.splits if_splits)
  note l = systemd_lawsD [OF laws]
  from unit_of_facts [OF l(5) [OF r(1,2)] l(1-3)] l(4) [OF r(1)] r(3) show ?thesis by simp
qed

lemma systemctl_effect:
  "systemd_laws run facts \<Longrightarrow> systemctl run verb name w = (Inr x, w') \<Longrightarrow> verb_effect verb (facts w name) (facts w' name)"
  unfolding systemd_laws_def systemctl_def run_checked_ok by blast

text \<open>What the two halves of applying make of a unit.\<close>

lemma set_enabled_facts:
  assumes laws: "systemd_laws run facts" and u: "un_file_state u = uf_file (facts w (rq_target rq))"
    and ok: "set_enabled run rq u w = (Inr x, w')" and want: "bool_field rq ''enabled'' = Some e"
  shows "\<exists>s. facts w' (rq_target rq) = (facts w (rq_target rq))\<lparr>uf_file := s\<rparr>
    \<and> (unit_enabled (u\<lparr>un_file_state := s\<rparr>) \<in> {None, Some e})"
proof (cases "unit_enabled u = None \<or> unit_enabled u = Some e")
  case True
  with ok want have "w' = w" by (auto simp: set_enabled_def pure_def)
  with True u show ?thesis by (intro exI [of _ "uf_file (facts w (rq_target rq))"]) (auto simp: unit_enabled_def split: if_splits)
next
  case False
  with ok want have "systemctl run (if e then ''enable'' else ''disable'') (rq_target rq) w = (Inr x, w')"
    by (auto simp: set_enabled_def)
  from systemctl_effect [OF laws this] show ?thesis
    by (intro exI [of _ "if e then ''enabled'' else ''disabled''"]) (simp add: verb_effect_def unit_enabled_def split: if_splits)
qed

lemma bring_up_facts:
  assumes laws: "systemd_laws run facts" and u: "un_active u = uf_active (facts w (rq_target rq))"
    and ok: "bring_up run rq u w = (Inr x, w')"
  shows "\<exists>a. facts w' (rq_target rq) = (facts w (rq_target rq))\<lparr>uf_active := a\<rparr>
    \<and> (a = ''active'' \<longleftrightarrow> field_or rq ''state'' ''running'' \<noteq> ''stopped'')"
proof -
  let ?name = "rq_target rq"
  have same: "facts w ?name = (facts w ?name)\<lparr>uf_active := uf_active (facts w ?name)\<rparr>" by simp
  consider "w' = w" "un_active u = ''active'' \<longleftrightarrow> field_or rq ''state'' ''running'' \<noteq> ''stopped''"
    | "systemctl run ''stop'' ?name w = (Inr x, w')" "field_or rq ''state'' ''running'' = ''stopped''"
    | verb where "systemctl run verb ?name w = (Inr x, w')" "verb \<in> {''start'', ''reload'', ''restart''}"
        "field_or rq ''state'' ''running'' \<noteq> ''stopped''"
    using ok by (auto simp: bring_up_def unit_running_def pure_def split: if_splits trigger.splits)
  then show ?thesis
  proof cases
    case 1
    with u same show ?thesis by metis
  next
    case 2
    from systemctl_effect [OF laws 2(1)] 2(2) show ?thesis by (auto simp: verb_effect_def)
  next
    case 3
    from systemctl_effect [OF laws 3(1)] 3(2,3) show ?thesis by (auto simp: verb_effect_def)
  qed
qed

text \<open>The fields of an accepted Service.\<close>

lemma service_fields:
  assumes "validate r [] = []" "ref_type (sr_ref r) = ''Service''"
  shows "v_kind (sr_desired r) = KindMap"
    and "map_of (v_map (sr_desired r)) key = Some v \<Longrightarrow> v_kind v = KindScalar
      \<and> (key = ''state'' \<and> v_scalar v \<in> {''running'', ''stopped''} \<or> key = ''enabled'' \<and> v_scalar v \<in> {''true'', ''false''})"
proof -
  have spec: "map_of types (ref_type (sr_ref r)) = Some service_type" using assms(2) by (simp add: types_def)
  note p = passed [OF assms(1) spec]
  from p(1) show "v_kind (sr_desired r) = KindMap" .
  assume "map_of (v_map (sr_desired r)) key = Some v"
  from p(6) [OF this] show "v_kind v = KindScalar
      \<and> (key = ''state'' \<and> v_scalar v \<in> {''running'', ''stopped''} \<or> key = ''enabled'' \<and> v_scalar v \<in> {''true'', ''false''})"
    by (auto simp: find_field_def service_type_def check_value_def one_of_def list_ex_iff split: if_splits)
qed

lemma compare_state_same:
  assumes "\<And>key v. map_of (v_map desired) key = Some v \<Longrightarrow> comparable key v \<Longrightarrow> can_observe ob key \<Longrightarrow>
      \<exists>got. observed_value ob key = Some got \<and> rendered got = rendered v"
  shows "df_fields (compare_state ref desired ob) = []"
proof -
  have "compare_field (identity_of ref) desired ob key = None" if k: "key \<in> set (val_keys desired)" for key
  proof -
    obtain v where v: "map_of (v_map desired) key = Some v"
      using k by (cases "map_of (v_map desired) key") (auto simp: val_keys_def sorted_keys_def map_of_eq_None_iff)
    show ?thesis
    proof (cases "comparable key v \<and> can_observe ob key")
      case True
      with assms [OF v] obtain got where "observed_value ob key = Some got" "rendered got = rendered v" by blast
      with v show ?thesis by (simp add: compare_field_def field_value_def)
    qed (use v in \<open>simp add: compare_field_def field_value_def\<close>)
  qed
  then show ?thesis
    by (auto simp: compare_state_def declared_fields_def List.map_filter_def filter_empty_conv)
qed

section \<open>Properties\<close>


text \<open>A host with one unit, that is or is not active and enabled.\<close>

definition demo_facts :: "bool \<times> bool \<Rightarrow> string \<Rightarrow> unit_facts" where
  "demo_facts w name = \<lparr>uf_load = ''loaded'', uf_active = (if fst w then ''active'' else ''inactive''),
     uf_file = (if snd w then ''enabled'' else ''disabled'')\<rparr>"

definition demo_systemctl :: "(bool \<times> bool) run_program" where
  "demo_systemctl argv w =
     (let verb = argv ! 1;
          out = (if verb = ''show'' then join_with [CHR 0x0A] (fact_lines (demo_facts w [])) else []);
          active = (if verb = ''stop'' then False else if verb \<in> {''start'', ''reload'', ''restart''} then True else fst w);
          enabled = (if verb = ''enable'' then True else if verb = ''disable'' then False else snd w)
      in (Inr \<lparr>rs_argv = argv, rs_code = 0, rs_stdout = out, rs_stderr = []\<rparr>, (active, enabled)))"

lemma demo_systemctl_laws: "systemd_laws demo_systemctl demo_facts"
  unfolding systemd_laws_def
proof (intro conjI allI impI)
  fix w :: "bool \<times> bool" and name :: string
  show "list_all visible (uf_load (demo_facts w name))" "list_all visible (uf_active (demo_facts w name))"
    "list_all visible (uf_file (demo_facts w name))"
    by (simp_all add: demo_facts_def visible_def)
  fix r w'
  assume r: "demo_systemctl (show_argv name) w = (Inr r, w')"
  then show "w' = w" by (auto simp: demo_systemctl_def show_argv_def Let_def)
  have "rs_stdout r = join_with [CHR 0x0A] (fact_lines (demo_facts w []))"
    using r by (auto simp: demo_systemctl_def show_argv_def Let_def)
  moreover have "split_on (CHR 0x0A) (join_with [CHR 0x0A] (fact_lines (demo_facts w []))) = fact_lines (demo_facts w [])"
    by (rule split_on_join_with) (auto simp: fact_lines_def demo_facts_def)
  ultimately have "split_on (CHR 0x0A) (rs_stdout r) = fact_lines (demo_facts w name)" by (simp add: demo_facts_def)
  moreover have "[] \<notin> set (fact_lines (demo_facts w name))" by (simp add: fact_lines_def)
  ultimately show "set (split_on (CHR 0x0A) (rs_stdout r)) - {[]} = set (fact_lines (demo_facts w name))" by simp
next
  fix verb name :: string and w w' :: "bool \<times> bool" and r
  assume "demo_systemctl [''systemctl'', verb, ''--'', name] w = (Inr r, w') \<and> run_ok r"
  then have "w' = (if verb = ''stop'' then False else if verb \<in> {''start'', ''reload'', ''restart''} then True else fst w,
      if verb = ''enable'' then True else if verb = ''disable'' then False else snd w)"
    by (simp add: demo_systemctl_def Let_def)
  then show "verb_effect verb (demo_facts w name) (demo_facts w' name)"
    by (simp add: verb_effect_def demo_facts_def)
qed

definition demo_service :: request where
  "demo_service = \<lparr>rq_ref = Reference ''Service'' ''sshd'', rq_target = ''sshd.service'',
     rq_desired = map_val [(''state'', scalar_val ''running''), (''enabled'', scalar_val ''true'')],
     rq_layerDir = [], rq_repoRoot = [], rq_trigger = NoTrigger\<rparr>"

lemma demo_word: "check_word ''unit name'' ''sshd.service'' (''-_.@:'' @ [CHR 0x5C]) = None"
  by (subst check_word_chars) (simp_all add: word_char_def)

lemma demo_show:
  obtains u where "\<And>name. show_unit demo_systemctl name w = (Inr u, w)" "un_load u = ''loaded''"
    "un_active u = (if fst w then ''active'' else ''inactive'')" "un_file_state u = (if snd w then ''enabled'' else ''disabled'')"
proof -
  define u where "u = unit_of (join_with [CHR 0x0A] (fact_lines (demo_facts w [])))"
  have show_u: "show_unit demo_systemctl name w = (Inr u, w)" for name
    by (simp add: show_unit_def after_def demo_systemctl_def show_argv_def run_err_def run_ok_def pure_def u_def)
  from show_unit_facts [OF demo_systemctl_laws show_u] show_u that [of u] show ?thesis by (simp add: demo_facts_def)
qed

lemma demo_service_applied: "systemd_apply demo_systemctl demo_service Update (False, False) = (Inr (), (True, True))"
proof -
  obtain u where u: "\<And>name. show_unit demo_systemctl name (False, False) = (Inr u, (False, False))" "un_load u = ''loaded''"
    "un_active u = ''inactive''" "un_file_state u = ''disabled''"
    using demo_show [of "(False, False)"] by auto
  have enable: "bool_field demo_service ''enabled'' = Some True" "field_or demo_service ''state'' ''running'' = ''running''"
    by code_simp+
  have verbs: "systemctl demo_systemctl ''enable'' name (a, e) = (Inr (), (a, True))"
    "systemctl demo_systemctl ''start'' name (a, e) = (Inr (), (True, e))" for name a e
    by (simp_all add: systemctl_def run_checked_ok demo_systemctl_def run_ok_def)
  have "set_enabled demo_systemctl demo_service u (False, False) = (Inr (), (False, True))"
    by (simp add: set_enabled_def enable unit_enabled_def u verbs)
  moreover have "bring_up demo_systemctl demo_service u (False, True) = (Inr (), (True, True))"
    by (simp add: bring_up_def enable unit_running_def u verbs)
  ultimately have "systemd_change demo_systemctl demo_service (False, False) = (Inr (), (True, True))"
    by (simp add: systemd_change_def after_def u unit_exists_def)
  moreover have "rq_target demo_service = ''sshd.service''" by (simp add: demo_service_def)
  ultimately show ?thesis by (simp add: systemd_apply_def with_unit_name_def with_word_ok demo_word [simplified])
qed

lemma demo_service_passes:
  "validate \<lparr>sr_ref = Reference ''Service'' ''sshd'', sr_desired = rq_desired demo_service, sr_position = no_position\<rparr> [] = []"
  by code_simp


end
