(* ===== verification/Posix.thy ===== *)
theory Posix
  imports Programs Reconcile Effects
begin

text \<open>
  Package \<open>internal/provider/posix\<close>: files, directories and symbolic links. Observing reads by
  path; applying goes through descriptors. The system calls are functions on an abstract world;
  closing a descriptor, whose error nothing looks at, is left out. A mode is a 32-bit word of
  Go's \<open>fs.FileMode\<close>, whose bits are not those of the kernel above the permissions.
\<close>

section \<open>Definitions\<close>

subsection \<open>Modes\<close>

type_synonym file_mode = "32 word"

definition mode_bit :: "nat \<Rightarrow> file_mode" where
  "mode_bit n = push_bit n 1"

definition mode_perm :: file_mode where "mode_perm = 511"

definition mode_dir :: file_mode where "mode_dir = mode_bit 31"
definition mode_symlink :: file_mode where "mode_symlink = mode_bit 27"
definition mode_setuid :: file_mode where "mode_setuid = mode_bit 23"
definition mode_setgid :: file_mode where "mode_setgid = mode_bit 22"
definition mode_sticky :: file_mode where "mode_sticky = mode_bit 20"

text \<open>The bits of \<open>fs.ModeType\<close>: directory, link, pipe, socket, device, character device, irregular.\<close>

definition mode_type :: file_mode where
  "mode_type = mode_dir OR mode_symlink OR mode_bit 25 OR mode_bit 24 OR mode_bit 26 OR mode_bit 21 OR mode_bit 19"

text \<open>What \<open>os.File.Chmod\<close> hands to the kernel: the permissions, and three bits from where Go keeps them.\<close>

definition syscall_mode :: "file_mode \<Rightarrow> file_mode" where
  "syscall_mode m =
     (m AND mode_perm) OR (if m AND mode_setuid \<noteq> 0 then 2048 else 0) OR (if m AND mode_setgid \<noteq> 0 then 1024 else 0)
       OR (if m AND mode_sticky \<noteq> 0 then 512 else 0)"

definition octal_text :: "nat \<Rightarrow> string" where
  "octal_text n = (if n = 0 then ''0'' else octal_digits 0 n)"

definition mode_text :: "file_mode \<Rightarrow> string" where
  "mode_text m =
     ''0'' @ octal_text (unat
       ((m AND mode_perm) OR (if m AND mode_setuid \<noteq> 0 then 2048 else 0) OR (if m AND mode_setgid \<noteq> 0 then 1024 else 0)
         OR (if m AND mode_sticky \<noteq> 0 then 512 else 0)))"

definition parse_file_mode :: "string \<Rightarrow> string + file_mode" where
  "parse_file_mode text =
     (case parse_uint 8 32 text of None \<Rightarrow> Inl (''mode '' @ quote_key text @ '' is not octal'') | Some bits \<Rightarrow> Inr (of_nat bits))"

subsection \<open>The system\<close>

text \<open>What \<open>lstat\<close> tells; the owner and the group are numbers, where the system has them.\<close>

record path_info =
  pi_mode :: file_mode
  pi_owner :: "(nat \<times> nat) option"

datatype 'a at_result = AtDone 'a | AtExists | AtMissing | AtFailed string

record 'w posix =
  px_lstat :: "string \<Rightarrow> 'w \<Rightarrow> path_info fs_result"
  px_readlink :: "string \<Rightarrow> 'w \<Rightarrow> string + string"
  px_read :: "string \<Rightarrow> 'w \<Rightarrow> string fs_result"
  px_user_name :: "string \<Rightarrow> 'w \<Rightarrow> string option"
  px_group_name :: "string \<Rightarrow> 'w \<Rightarrow> string option"
  px_user_id :: "string \<Rightarrow> 'w \<Rightarrow> string option"
  px_group_id :: "string \<Rightarrow> 'w \<Rightarrow> string option"
  px_abs :: "string \<Rightarrow> 'w \<Rightarrow> string + string"
  px_eval :: "string \<Rightarrow> 'w \<Rightarrow> string option"
  px_open_dir :: "string \<Rightarrow> 'w \<Rightarrow> nat at_result \<times> 'w"
  px_open_dir_at :: "nat \<Rightarrow> string \<Rightarrow> 'w \<Rightarrow> nat at_result \<times> 'w"
  px_create_at :: "nat \<Rightarrow> string \<Rightarrow> file_mode \<Rightarrow> 'w \<Rightarrow> nat at_result \<times> 'w"
  px_mkdir_at :: "nat \<Rightarrow> string \<Rightarrow> file_mode \<Rightarrow> 'w \<Rightarrow> unit at_result \<times> 'w"
  px_symlink_at :: "string \<Rightarrow> nat \<Rightarrow> string \<Rightarrow> 'w \<Rightarrow> unit at_result \<times> 'w"
  px_rename_at :: "nat \<Rightarrow> string \<Rightarrow> string \<Rightarrow> 'w \<Rightarrow> unit at_result \<times> 'w"
  px_unlink_at :: "nat \<Rightarrow> string \<Rightarrow> bool \<Rightarrow> 'w \<Rightarrow> unit at_result \<times> 'w"
  px_chown :: "nat \<Rightarrow> int \<Rightarrow> int \<Rightarrow> 'w \<Rightarrow> string option \<times> 'w"
  px_chmod :: "nat \<Rightarrow> file_mode \<Rightarrow> 'w \<Rightarrow> string option \<times> 'w"
  px_write :: "nat \<Rightarrow> string \<Rightarrow> 'w \<Rightarrow> string option \<times> 'w"
  px_sync :: "nat \<Rightarrow> 'w \<Rightarrow> string option \<times> 'w"
  px_random :: "'w \<Rightarrow> string option \<times> 'w"
  px_sha :: "string \<Rightarrow> string"

definition sys_error :: "string \<Rightarrow> string \<Rightarrow> 'a at_result \<Rightarrow> string" where
  "sys_error operation path r =
     operation @ '' '' @ path @ '': ''
       @ (case r of AtExists \<Rightarrow> ''file exists'' | AtMissing \<Rightarrow> ''no such file or directory'' | AtFailed err \<Rightarrow> err | AtDone _ \<Rightarrow> [])"

subsection \<open>What a file should hold\<close>

datatype content_kind = ContentNone | ContentLiteral | ContentSource | ContentSecret

definition source_text :: "source_error \<Rightarrow> string" where
  "source_text e =
     (case e of
        CannotResolve err \<Rightarrow> err
      | SourceOutside rel \<Rightarrow> ''source '' @ rel @ '' resolves outside the repository''
      | UnresolvedPlaceholder rel \<Rightarrow>
          quote_key rel @ '' is an unresolved placeholder, and secret references are not implemented''
      | CannotRead err \<Rightarrow> err)"

definition read_text :: "'w posix \<Rightarrow> string \<Rightarrow> 'w \<Rightarrow> string + string" where
  "read_text px path w =
     (case px_read px path w of FsOk text \<Rightarrow> Inr text | NotExist err \<Rightarrow> Inl err | FsError err \<Rightarrow> Inl err)"

definition source_content :: "'w posix \<Rightarrow> request \<Rightarrow> string \<Rightarrow> string \<Rightarrow> 'w \<Rightarrow> string + string" where
  "source_content px rq field rel w =
     (case read_source (\<lambda>p. px_abs px p w) (\<lambda>p. px_eval px p w) (\<lambda>p. read_text px p w) rq rel of
        Inl e \<Rightarrow> Inl (''reading '' @ field @ '': '' @ source_text e)
      | Inr text \<Rightarrow> Inr text)"

fun content_of_fields :: "'w posix \<Rightarrow> request \<Rightarrow> string list \<Rightarrow> 'w \<Rightarrow> string + (string \<times> content_kind)" where
  "content_of_fields px rq [] w = Inr ([], ContentNone)"
| "content_of_fields px rq (field # names) w =
     (case request_field rq field of
        None \<Rightarrow> content_of_fields px rq names w
      | Some rel \<Rightarrow>
          (case source_content px rq field rel w of Inl err \<Rightarrow> Inl err | Inr text \<Rightarrow> Inr (text, ContentSource)))"

definition desired_content :: "'w posix \<Rightarrow> request \<Rightarrow> 'w \<Rightarrow> string + (string \<times> content_kind)" where
  "desired_content px rq w =
     (case request_field rq ''content'' of
        Some text \<Rightarrow> Inr (text, ContentLiteral)
      | None \<Rightarrow>
          (if request_field rq ''secretRef'' \<noteq> None then Inr ([], ContentSecret)
           else content_of_fields px rq [''source'', ''template''] w))"

subsection \<open>Observing\<close>

definition kind_of :: "file_mode \<Rightarrow> string" where
  "kind_of m =
     (if m AND mode_symlink \<noteq> 0 then ''Symlink''
      else if m AND mode_dir \<noteq> 0 then ''Directory''
      else if m AND mode_type = 0 then ''File''
      else ''other'')"

definition describe_kind :: "string \<Rightarrow> string" where
  "describe_kind kind =
     (if kind = ''Symlink'' then ''a symbolic link''
      else if kind = ''Directory'' then ''a directory''
      else if kind = ''File'' then ''a regular file''
      else ''something that is not a file, directory or link'')"

text \<open>An id with no name reads back as the number; there is no owner where the system has none.\<close>

definition ownership :: "'w posix \<Rightarrow> path_info \<Rightarrow> 'w \<Rightarrow> (string \<times> string) option" where
  "ownership px info w =
     (case pi_owner info of
        None \<Rightarrow> None
      | Some (uid, gid) \<Rightarrow>
          (let owner = format_nat uid; grp = format_nat gid
           in Some (case px_user_name px owner w of Some name \<Rightarrow> name | None \<Rightarrow> owner,
                    case px_group_name px grp w of Some name \<Rightarrow> name | None \<Rightarrow> grp)))"

definition compare_content :: "'w posix \<Rightarrow> request \<Rightarrow> observation \<Rightarrow> 'w \<Rightarrow> string + observation" where
  "compare_content px rq ob w =
     (case desired_content px rq w of
        Inl err \<Rightarrow> Inl err
      | Inr (declared, ContentNone) \<Rightarrow> Inr ob
      | Inr (declared, ContentSecret) \<Rightarrow> Inr (ob\<lparr>ob_unobservable := ob_unobservable ob @ [''content'']\<rparr>)
      | Inr (declared, _) \<Rightarrow>
          (let ob = ob\<lparr>ob_desired := map_val ((''content'', scalar_val (content_digest (px_sha px) declared))
                 # filter (\<lambda>(name, _). name \<noteq> ''content'') (v_map (rq_desired rq)))\<rparr>
           in if \<not> ob_exists ob then Inr ob
              else case read_text px (rq_target rq) w of
                Inl err \<Rightarrow> Inl err
              | Inr actual \<Rightarrow>
                  Inr (ob\<lparr>ob_fields := AList.update ''content'' (scalar_val (content_digest (px_sha px) actual)) (ob_fields ob)\<rparr>)))"

definition observe_absent :: "'w posix \<Rightarrow> request \<Rightarrow> 'w \<Rightarrow> string + observation" where
  "observe_absent px rq w =
     (if ref_type (rq_ref rq) \<noteq> ''File'' then Inr zero_observation else compare_content px rq zero_observation w)"

definition observe_present :: "'w posix \<Rightarrow> request \<Rightarrow> path_info \<Rightarrow> 'w \<Rightarrow> string + observation" where
  "observe_present px rq info w =
     (let owners = ownership px info w;
          ob = zero_observation
            \<lparr>ob_exists := True,
             ob_fields := (case owners of Some (owner, grp) \<Rightarrow> [(''owner'', scalar_val owner), (''group'', scalar_val grp)] | None \<Rightarrow> [])
               @ (if ref_type (rq_ref rq) \<noteq> ''Symlink'' then [(''mode'', scalar_val (mode_text (pi_mode info)))] else []),
             ob_unobservable := (if owners = None then [''owner'', ''group''] else [])\<rparr>
      in if ref_type (rq_ref rq) = ''Symlink'' then
           (case px_readlink px (rq_target rq) w of
              Inl err \<Rightarrow> Inl err
            | Inr target \<Rightarrow> Inr (ob\<lparr>ob_fields := AList.update ''target'' (scalar_val target) (ob_fields ob)\<rparr>))
         else if ref_type (rq_ref rq) = ''File'' then compare_content px rq ob w
         else Inr ob)"

definition posix_observe :: "'w posix \<Rightarrow> ('w \<Rightarrow> string option) \<Rightarrow> request \<Rightarrow> ('w, observation) io" where
  "posix_observe px ctx rq w =
     (case ctx w of
        Some err \<Rightarrow> fail err w
      | None \<Rightarrow>
          (case (case px_lstat px (rq_target rq) w of
                   NotExist _ \<Rightarrow> observe_absent px rq w
                 | FsError err \<Rightarrow> Inl err
                 | FsOk info \<Rightarrow>
                     if kind_of (pi_mode info) \<noteq> ref_type (rq_ref rq)
                     then map_sum id (\<lambda>ob. ob\<lparr>ob_found := describe_kind (kind_of (pi_mode info))\<rparr>) (observe_absent px rq w)
                     else observe_present px rq info w) of
             Inl err \<Rightarrow> fail err w
           | Inr ob \<Rightarrow> pure ob w))"

subsection \<open>Applying\<close>

definition at_effect :: "string \<Rightarrow> string \<Rightarrow> ('w \<Rightarrow> 'a at_result \<times> 'w) \<Rightarrow> ('w, 'a) io" where
  "at_effect operation path f w =
     (case f w of (AtDone x, w') \<Rightarrow> (Inr x, w') | (r, w') \<Rightarrow> (Inl (plain_error (sys_error operation path r)), w'))"

text \<open>The directory that holds a target, opened without following a link, and the name in it.\<close>

datatype parent_error = NoFinalComponent string | NoParent | ParentFailed string

definition parent_dir :: "string \<Rightarrow> string" where
  "parent_dir target = clean (fst (split_path (clean target)))"

definition open_parent :: "'w posix \<Rightarrow> string \<Rightarrow> 'w \<Rightarrow> (parent_error + (nat \<times> string)) \<times> 'w" where
  "open_parent px target w =
     (let name = snd (split_path (clean target))
      in if name = [] then (Inl (NoFinalComponent (target @ '' has no final path component'')), w)
         else case px_open_dir px (parent_dir target) w of
           (AtDone fd, w') \<Rightarrow> (Inr (fd, name), w')
         | (AtMissing, w') \<Rightarrow> (Inl NoParent, w')
         | (r, w') \<Rightarrow> (Inl (ParentFailed (sys_error ''open'' (parent_dir target) r)), w'))"

definition parent_text :: "string \<Rightarrow> parent_error \<Rightarrow> string" where
  "parent_text target e =
     (case e of
        NoFinalComponent err \<Rightarrow> err
      | NoParent \<Rightarrow> sys_error ''open'' (parent_dir target) (AtMissing :: unit at_result)
      | ParentFailed err \<Rightarrow> err)"

definition hex_text :: "string \<Rightarrow> string" where
  "hex_text s = concat (map (\<lambda>c. [hex_digit (of_char c div 16), hex_digit (of_char c mod 16)]) s)"

definition temp_name :: "'w posix \<Rightarrow> 'w \<Rightarrow> string \<times> 'w" where
  "temp_name px w =
     (case px_random px w of
        (None, w') \<Rightarrow> (''.datum.tmp.fallback'', w')
      | (Some buf, w') \<Rightarrow> (''.datum.tmp.'' @ hex_text buf, w'))"

text \<open>A name that is taken is another attempt, eight in all.\<close>

fun create_temp_at :: "nat \<Rightarrow> 'w posix \<Rightarrow> nat \<Rightarrow> string \<Rightarrow> ('w, nat \<times> string) io" where
  "create_temp_at 0 px parent dir w = fail (''could not create a staging file in '' @ dir) w"
| "create_temp_at (Suc n) px parent dir w =
     (let (name, w) = temp_name px w
      in case px_create_at px parent name 384 w of
        (AtExists, w) \<Rightarrow> create_temp_at n px parent dir w
      | (AtDone fd, w) \<Rightarrow> (Inr (fd, name), w)
      | (r, w) \<Rightarrow> fail (sys_error ''openat'' name r) w)"

definition lookup_id :: "(string \<Rightarrow> string option) \<Rightarrow> string \<Rightarrow> string \<Rightarrow> string + int" where
  "lookup_id id_of what name =
     (case id_of name of
        Some n \<Rightarrow> (case atoi n of Some i \<Rightarrow> Inr i | None \<Rightarrow> Inl (''strconv.Atoi: parsing '' @ quote_key n @ '': invalid syntax''))
      | None \<Rightarrow> (case atoi name of Some i \<Rightarrow> Inr i | None \<Rightarrow> Inl (''no such '' @ what @ '' '' @ quote_key name)))"

definition declared_id :: "(string \<Rightarrow> string option) \<Rightarrow> string \<Rightarrow> string option \<Rightarrow> string + int" where
  "declared_id id_of what declared = (case declared of None \<Rightarrow> Inr (-1) | Some name \<Rightarrow> lookup_id id_of what name)"

definition apply_ownership :: "'w posix \<Rightarrow> request \<Rightarrow> nat \<Rightarrow> ('w, unit) io" where
  "apply_ownership px rq fd w =
     (let owner = request_field rq ''owner''; grp = request_field rq ''group''
      in if owner = None \<and> grp = None then pure () w
         else case declared_id (\<lambda>name. px_user_id px name w) ''user'' owner of
           Inl err \<Rightarrow> fail err w
         | Inr uid \<Rightarrow>
             (case declared_id (\<lambda>name. px_group_id px name w) ''group'' grp of
                Inl err \<Rightarrow> fail err w
              | Inr gid \<Rightarrow> effect (px_chown px fd uid gid) w))"

definition apply_mode :: "'w posix \<Rightarrow> request \<Rightarrow> nat \<Rightarrow> file_mode \<Rightarrow> ('w, unit) io" where
  "apply_mode px rq fd fallback =
     (case request_field rq ''mode'' of
        None \<Rightarrow> effect (px_chmod px fd (syscall_mode fallback))
      | Some text \<Rightarrow>
          (case parse_file_mode text of
             Inl err \<Rightarrow> fail err
           | Inr m \<Rightarrow> effect (px_chmod px fd (syscall_mode m))))"

text \<open>Staging: the temporary file is filled, then renamed; if anything fails it is removed.\<close>

definition stage_file :: "'w posix \<Rightarrow> request \<Rightarrow> nat \<Rightarrow> string \<Rightarrow> nat \<Rightarrow> string \<Rightarrow> string \<Rightarrow> ('w, unit) io" where
  "stage_file px rq parent name temp temp_path content =
     after (apply_ownership px rq temp) (\<lambda>_.
     after (apply_mode px rq temp 420) (\<lambda>_.
     after (effect (px_write px temp content)) (\<lambda>_.
     after (effect (px_sync px temp)) (\<lambda>_.
     at_effect ''renameat'' (rq_target rq) (px_rename_at px parent temp_path name)))))"

definition write_staged :: "'w posix \<Rightarrow> request \<Rightarrow> nat \<Rightarrow> string \<Rightarrow> string \<Rightarrow> ('w, unit) io" where
  "write_staged px rq parent name content =
     after (create_temp_at 8 px parent (parent_dir (rq_target rq))) (\<lambda>(temp, temp_path) w.
       case stage_file px rq parent name temp temp_path content w of
         (Inl err, w') \<Rightarrow> (Inl err, snd (px_unlink_at px parent temp_path False w'))
       | (Inr _, w') \<Rightarrow> effect (px_sync px parent) w')"

definition write_regular :: "'w posix \<Rightarrow> request \<Rightarrow> nat \<Rightarrow> string \<Rightarrow> ('w, unit) io" where
  "write_regular px rq parent name w =
     (case desired_content px rq w of
        Inl err \<Rightarrow> fail err w
      | Inr (content, ContentSecret) \<Rightarrow>
          fail (''secret references are not implemented, so '' @ ref_string (rq_ref rq) @ '' cannot be written'') w
      | Inr (content, ContentNone) \<Rightarrow>
          (case px_read px (rq_target rq) w of
             FsError err \<Rightarrow> fail err w
           | NotExist _ \<Rightarrow> write_staged px rq parent name [] w
           | FsOk existing \<Rightarrow> write_staged px rq parent name existing w)
      | Inr (content, _) \<Rightarrow> write_staged px rq parent name content w)"

definition write_directory :: "'w posix \<Rightarrow> request \<Rightarrow> nat \<Rightarrow> string \<Rightarrow> ('w, unit) io" where
  "write_directory px rq parent name w =
     (case px_mkdir_at px parent name 448 w of
        (AtMissing, w) \<Rightarrow> fail (sys_error ''mkdirat'' (rq_target rq) (AtMissing :: unit at_result)) w
      | (AtFailed err, w) \<Rightarrow> fail (sys_error ''mkdirat'' (rq_target rq) (AtFailed err :: unit at_result)) w
      | (_, w) \<Rightarrow>
          (case px_open_dir_at px parent name w of
             (AtDone fd, w) \<Rightarrow> after (apply_ownership px rq fd) (\<lambda>_. apply_mode px rq fd 493) w
           | (r, w) \<Rightarrow> fail (sys_error ''openat'' (rq_target rq) r) w))"

definition write_symlink :: "'w posix \<Rightarrow> request \<Rightarrow> nat \<Rightarrow> string \<Rightarrow> ('w, unit) io" where
  "write_symlink px rq parent name w =
     (case request_field rq ''target'' of
        None \<Rightarrow> fail (ref_string (rq_ref rq) @ '' has no desired.target'') w
      | Some target \<Rightarrow>
          (let (staged, w) = temp_name px w
           in after (at_effect ''symlinkat'' (rq_target rq) (px_symlink_at px target parent staged)) (\<lambda>_ w.
                case at_effect ''renameat'' (rq_target rq) (px_rename_at px parent staged name) w of
                  (Inl err, w') \<Rightarrow> (Inl err, snd (px_unlink_at px parent staged False w'))
                | (Inr _, w') \<Rightarrow> effect (px_sync px parent) w') w))"

definition write_target :: "'w posix \<Rightarrow> request \<Rightarrow> ('w, unit) io" where
  "write_target px rq w =
     (case open_parent px (rq_target rq) w of
        (Inl e, w) \<Rightarrow> fail (parent_text (rq_target rq) e) w
      | (Inr (parent, name), w) \<Rightarrow>
          (if ref_type (rq_ref rq) = ''Directory'' then write_directory px rq parent name
           else if ref_type (rq_ref rq) = ''Symlink'' then write_symlink px rq parent name
           else write_regular px rq parent name) w)"

definition remove_target :: "'w posix \<Rightarrow> request \<Rightarrow> ('w, unit) io" where
  "remove_target px rq w =
     (case open_parent px (rq_target rq) w of
        (Inl NoParent, w) \<Rightarrow> pure () w
      | (Inl e, w) \<Rightarrow> fail (parent_text (rq_target rq) e) w
      | (Inr (parent, name), w) \<Rightarrow>
          (case px_unlink_at px parent name (ref_type (rq_ref rq) = ''Directory'') w of
             (AtMissing, w') \<Rightarrow> pure () w'
           | (AtDone _, w') \<Rightarrow> effect (px_sync px parent) w'
           | (r, w') \<Rightarrow> fail (sys_error ''unlinkat'' (rq_target rq) r) w'))"

text \<open>Changes are applied on Linux only.\<close>

definition posix_apply :: "bool \<Rightarrow> string \<Rightarrow> 'w posix \<Rightarrow> ('w \<Rightarrow> string option) \<Rightarrow> request \<Rightarrow> action \<Rightarrow> ('w, unit) io" where
  "posix_apply linux goos px ctx rq act w =
     (let unsupported = fail (''posix-file applies changes on Linux only, this is '' @ goos)
      in case ctx w of
        Some err \<Rightarrow> fail err w
      | None \<Rightarrow>
          (case act of
             NoAction \<Rightarrow> pure () w
           | Skip \<Rightarrow> pure () w
           | Remove \<Rightarrow> (if linux then remove_target px rq else unsupported) w
           | _ \<Rightarrow> (if linux then write_target px rq else unsupported) w))"

definition posix_provider :: "bool \<Rightarrow> string \<Rightarrow> 'w posix \<Rightarrow> ('w \<Rightarrow> string option) \<Rightarrow> ('w \<Rightarrow> bool) \<Rightarrow> 'w provider" where
  "posix_provider linux goos px ctx =
     provider_of ''posix-file'' [''File'', ''Directory'', ''Symlink''] (posix_observe px ctx) (posix_apply linux goos px ctx)"

section \<open>Modes that read back\<close>

text \<open>What \<open>lstat\<close> tells of the mode of a file of a kind, from the bits the kernel has.\<close>

definition stat_mode :: "file_mode \<Rightarrow> file_mode \<Rightarrow> file_mode" where
  "stat_mode kind k =
     kind OR (k AND 511) OR (if k AND 2048 \<noteq> 0 then mode_setuid else 0) OR (if k AND 1024 \<noteq> 0 then mode_setgid else 0)
       OR (if k AND 512 \<noteq> 0 then mode_sticky else 0)"

lemma bit_mode_bit: "bit (mode_bit n) k \<longleftrightarrow> n = k \<and> k < 32"
  by (auto simp: mode_bit_def bit_simps)

lemma and_mode_bit: "m AND mode_bit n = 0 \<longleftrightarrow> \<not> bit m n"
proof -
  have "m AND mode_bit n = (if bit m n then mode_bit n else 0)"
    by (rule bit_eqI) (auto simp: bit_simps bit_mode_bit)
  moreover have "mode_bit n \<noteq> 0" if "bit m n"
    using bit_imp_le_length [OF that] bit_mode_bit [of n n] by (auto simp: bit_0_eq)
  ultimately show ?thesis by auto
qed

lemma mode_bits: "2048 = mode_bit 11" "1024 = mode_bit 10" "512 = mode_bit 9" "m AND 511 = (take_bit 9 m :: file_mode)"
  by (simp_all add: mode_bit_def push_bit_eq_mult mask_eq_exp_minus_1 take_bit_eq_mask)

lemmas mode_names = mode_perm_def mode_setuid_def mode_setgid_def mode_sticky_def mode_dir_def mode_bits(4) and_mode_bit

lemma low_mode:
  assumes "n < 4096"
  shows "syscall_mode (of_nat n) = take_bit 9 (of_nat n)"
proof -
  have no: "\<not> bit n k" if "12 \<le> k" for k
  proof -
    have "(2 :: nat) ^ 12 \<le> 2 ^ k" using that by (rule power_increasing) simp
    with assms show ?thesis by (simp add: bit_iff_odd div_less)
  qed
  have "\<not> bit (of_nat n :: file_mode) k" if "12 \<le> k" for k using no [OF that] by (simp add: bit_simps)
  then show ?thesis by (simp add: syscall_mode_def mode_names)
qed

lemma mode_text_low:
  assumes "n < 4096" "kind \<in> {0, mode_dir}"
  shows "mode_text (stat_mode kind (syscall_mode (of_nat n))) = ''0'' @ octal_text (n mod 512)"
proof -
  have kind: "\<not> bit kind k" if "k < 31" for k
    using that assms(2) by (auto simp: mode_dir_def bit_mode_bit)
  let ?m = "stat_mode kind (take_bit 9 (of_nat n))"
  have m: "?m = kind OR take_bit 9 (of_nat n)"
    unfolding stat_mode_def mode_bits and_mode_bit by (simp add: bit_simps)
  have "take_bit 9 kind = 0" using kind by (intro bit_eqI) (auto simp: bit_simps)
  then have "?m AND mode_perm = take_bit 9 (of_nat n)"
    unfolding m by (simp add: mode_names)
  moreover have "?m AND mode_setuid = 0" "?m AND mode_setgid = 0" "?m AND mode_sticky = 0"
    unfolding m using kind by (simp_all add: mode_names bit_simps)
  moreover have "unat (take_bit 9 (of_nat n) :: file_mode) = n mod 512"
    using assms(1) by (simp add: unat_of_nat take_bit_eq_mod unat_mod)
  ultimately show ?thesis unfolding low_mode [OF assms(1)] by (simp add: mode_text_def)
qed

definition octal_char :: "nat \<Rightarrow> char" where
  "octal_char d = char_of (48 + d)"

lemma octal_char_zero: "octal_char 0 = CHR ''0''"
  unfolding octal_char_def by code_simp

lemma octal_step: "octal_digits 0 n = (if n = 0 then [] else octal_digits 0 (n div 8) @ [octal_char (n mod 8)])"
  by (simp add: octal_char_def)

lemma octal_text_three:
  assumes "b < 8" "c < 8" "d < 8"
  shows "octal_text ((b * 8 + c) * 8 + d)
    = (if b \<noteq> 0 then [octal_char b, octal_char c, octal_char d]
       else if c \<noteq> 0 then [octal_char c, octal_char d] else [octal_char d])"
proof -
  have one: "octal_digits 0 k = (if k = 0 then [] else [octal_char k])" if "k < 8" for k
    using that by (subst octal_step) simp
  have two: "octal_digits 0 (k * 8 + l) = octal_digits 0 k @ [octal_char l]" if "l < 8" "k \<noteq> 0 \<or> l \<noteq> 0" for k l
    using that by (subst octal_step) simp
  show ?thesis
  proof (cases "b = 0 \<and> c = 0")
    case True
    with assms one [of d] show ?thesis by (simp add: octal_text_def octal_char_zero del: octal_digits.simps)
  next
    case False
    have "octal_text (n * 8 + d) = octal_digits 0 n @ [octal_char d]" if "n \<noteq> 0" for n
      using two [of d n] assms(3) that by (simp add: octal_text_def del: octal_digits.simps)
    from this [of "b * 8 + c"] False have "octal_text ((b * 8 + c) * 8 + d) = octal_digits 0 (b * 8 + c) @ [octal_char d]"
      by simp
    then show ?thesis using False assms one two [of c b] by (cases "b = 0") (simp_all del: octal_digits.simps)
  qed
qed

lemma octal_char_inj: "a < 8 \<Longrightarrow> b < 8 \<Longrightarrow> octal_char a = octal_char b \<longleftrightarrow> a = b"
proof -
  assume l: "a < 8" "b < 8"
  have "of_char (octal_char x) = 48 + x" if "x < 8" for x using that by (simp add: octal_char_def)
  with l show ?thesis by (metis add_left_imp_eq)
qed

lemma octal_parsed:
  assumes "parse_digits 8 s acc = Some n"
  shows "\<exists>ds. s = map octal_char ds \<and> (\<forall>d \<in> set ds. d < 8) \<and> n = foldl (\<lambda>acc d. acc * 8 + d) acc ds"
  using assms
proof (induction s arbitrary: acc)
  case (Cons c s)
  let ?d = "of_char c - 48 :: nat"
  from Cons.prems have c: "48 \<le> (of_char c :: nat)" "(of_char c :: nat) < 56"
    and rest: "parse_digits 8 s (acc * 8 + ?d) = Some n"
    by (simp_all add: Let_def split: if_splits)
  from Cons.IH [OF rest] obtain ds where "s = map octal_char ds" "\<forall>d \<in> set ds. d < 8" "n = foldl (\<lambda>acc d. acc * 8 + d) (acc * 8 + ?d) ds"
    by blast
  moreover have "octal_char ?d = c" using c by (simp add: octal_char_def)
  ultimately show ?case using c by (intro exI [of _ "?d # ds"]) auto
qed simp

lemma mode_reads_back:
  assumes "check_mode desired v = []" "parse_file_mode (v_scalar v) = Inr m" "kind \<in> {0, mode_dir}"
  shows "mode_text (stat_mode kind (syscall_mode m)) = v_scalar v
    \<longleftrightarrow> (\<exists>a t. v_scalar v = CHR ''0'' # a # t \<and> a \<noteq> CHR ''0'')"
proof -
  let ?t = "v_scalar v"
  obtain n where "parse_digits 8 ?t 0 = Some n" and m: "m = of_nat n"
    using assms(2) by (auto simp: parse_file_mode_def parse_uint_def split: option.splits if_splits)
  then obtain ds where t: "?t = map octal_char ds" "\<forall>d \<in> set ds. d < 8" and n: "n = foldl (\<lambda>acc d. acc * 8 + d) 0 ds"
    using octal_parsed by blast
  have "length ?t \<in> {3, 4}" using assms(1) by (auto simp: check_mode_def Let_def split: if_splits)
  with t(1) have "length ds \<in> {3, 4}" by simp
  then consider b c d where "ds = [b, c, d]" | a b c d where "ds = [a, b, c, d]"
    by (auto simp: eval_nat_numeral length_Suc_conv)
  then obtain a b c d where ds: "ds = [b, c, d] \<and> a = 0 \<or> ds = [a, b, c, d]" "a < 8" "b < 8" "c < 8" "d < 8"
    and n': "n = ((a * 8 + b) * 8 + c) * 8 + d"
    using t(2) n by cases auto
  have small: "(b * 8 + c) * 8 + d < 512" using ds(3-5) by simp
  have "n = (b * 8 + c) * 8 + d + 512 * a" using n' by (simp add: algebra_simps)
  then have "n mod 512 = (b * 8 + c) * 8 + d" "n < 4096" using small ds(2) by simp_all
  then have "mode_text (stat_mode kind (syscall_mode m)) = ''0''
      @ (if b \<noteq> 0 then [octal_char b, octal_char c, octal_char d] else if c \<noteq> 0 then [octal_char c, octal_char d] else [octal_char d])"
    using mode_text_low [OF _ assms(3)] octal_text_three [OF ds(3-5)] m by simp
  then show ?thesis unfolding octal_char_zero [symmetric] using ds(1) t(1) octal_char_inj ds(2-5) by (auto split: if_splits)
qed

section \<open>Properties\<close>

text \<open>
  C38: which modes read back. A mode the schema accepts and a file or a directory was given is
  observed as it is written exactly when it starts with one zero. Any other spelling, 640 and
  0040 among them, differs from what is observed in every pass, and so does a mode with one of the
  three bits above the permissions, as 4755 or 1777, because that bit is never set.
\<close>

theorem mode_reads_back_iff:
  assumes "check_mode desired v = []" "parse_file_mode (v_scalar v) = Inr m" "kind \<in> {0, mode_dir}"
  shows "mode_text (stat_mode kind (syscall_mode m)) = v_scalar v
    \<longleftrightarrow> (\<exists>a t. v_scalar v = CHR ''0'' # a # t \<and> a \<noteq> CHR ''0'')"
  using assms by (rule mode_reads_back)

text \<open>The mode 0640 reads back; 640, 0040 and 1777 do not.\<close>

theorem mode_reads_back_iff_witness:
  "mode_text (stat_mode 0 (syscall_mode 416)) = ''0640'' \<and> mode_text (stat_mode 0 (syscall_mode 416)) \<noteq> ''640''
    \<and> mode_text (stat_mode 0 (syscall_mode 32)) \<noteq> ''0040'' \<and> mode_text (stat_mode mode_dir (syscall_mode 1023)) \<noteq> ''1777''"
proof -
  have p: "parse_file_mode ''0640'' = Inr 416" "parse_file_mode ''640'' = Inr 416" "parse_file_mode ''0040'' = Inr 32"
    "parse_file_mode ''1777'' = Inr 1023"
    by (simp_all add: parse_file_mode_def parse_uint_def)
  let ?v = "\<lambda>t. Value KindScalar t True [] [] [] []"
  have c: "check_mode zero_val (?v ''0640'') = []" "check_mode zero_val (?v ''640'') = []" "check_mode zero_val (?v ''0040'') = []"
    "check_mode zero_val (?v ''1777'') = []"
    by (simp_all add: check_mode_def parse_int_def has_prefix_def Let_def setuid_bit_def setgid_bit_def others_bit_def
        system_path_def allowed_def lookup_val_def)
  show ?thesis
    using mode_reads_back_iff [OF c(1), of 416 0] mode_reads_back_iff [OF c(2), of 416 0]
      mode_reads_back_iff [OF c(3), of 32 0] mode_reads_back_iff [OF c(4), of 1023 mode_dir] p by simp
qed

end
