(* ===== verification/Settle.thy ===== *)
theory Settle
  imports Posix Procsys
begin

text \<open>
  What the write of a file comes to (\<open>internal/provider/posix\<close>): what the system promises, the
  inode that is left under the name of the target, and the fields that differ when it is
  observed again.
\<close>

section \<open>Specification\<close>

text \<open>
  What the system promises: a tree of named inodes, and the names that descriptors stand for.
  Creating is exclusive, the operations on a descriptor change the inode of its name, a rename moves
  one, and the account database stays as it is.
\<close>

record inode =
  in_kind :: file_mode
  in_bits :: file_mode
  in_uid :: nat
  in_gid :: nat
  in_data :: string

record 'w posix_view =
  vw_tree :: "'w \<Rightarrow> string \<Rightarrow> inode option"
  vw_open :: "'w \<Rightarrow> nat \<Rightarrow> string option"

definition untouched :: "'w posix_view \<Rightarrow> 'w \<Rightarrow> 'w \<Rightarrow> bool" where
  "untouched vw w w' \<longleftrightarrow> vw_tree vw w' = vw_tree vw w \<and> vw_open vw w' = vw_open vw w"

text \<open>An operation on a descriptor turns the inode it stands for into one that \<open>f\<close> allows.\<close>

definition changes_inode :: "'w posix_view \<Rightarrow> nat \<Rightarrow> (inode \<Rightarrow> inode \<Rightarrow> bool) \<Rightarrow> 'w \<Rightarrow> 'w \<Rightarrow> bool" where
  "changes_inode vw fd f w w' \<longleftrightarrow>
     (\<forall>p i. vw_open vw w fd = Some p \<and> vw_tree vw w p = Some i \<longrightarrow>
        (\<exists>i'. f i i' \<and> vw_tree vw w' = (vw_tree vw w)(p \<mapsto> i') \<and> vw_open vw w' = vw_open vw w))"

definition reading_laws :: "'w posix \<Rightarrow> 'w posix_view \<Rightarrow> bool" where
  "reading_laws px vw \<longleftrightarrow>
     (\<forall>w p i. vw_tree vw w p = Some i \<longrightarrow>
        px_lstat px p w = FsOk \<lparr>pi_mode = stat_mode (in_kind i) (in_bits i), pi_owner = Some (in_uid i, in_gid i)\<rparr>
        \<and> (in_kind i = 0 \<longrightarrow> px_read px p w = FsOk (in_data i)))
     \<and> (\<forall>n w w'. px_user_name px n w = px_user_name px n w' \<and> px_group_name px n w = px_group_name px n w'
          \<and> px_user_id px n w = px_user_id px n w' \<and> px_group_id px n w = px_group_id px n w')"

definition opens_law :: "'w posix \<Rightarrow> 'w posix_view \<Rightarrow> bool" where
  "opens_law px vw \<longleftrightarrow>
     (\<forall>w d fd w'. px_open_dir px d w = (AtDone fd, w') \<longrightarrow>
        vw_tree vw w' = vw_tree vw w \<and> vw_open vw w' = (vw_open vw w)(fd \<mapsto> d))"

definition creates_law :: "'w posix \<Rightarrow> 'w posix_view \<Rightarrow> bool" where
  "creates_law px vw \<longleftrightarrow>
     (\<forall>w parent d name mode fd w'. px_create_at px parent name mode w = (AtDone fd, w') \<and> vw_open vw w parent = Some d \<longrightarrow>
        fd \<noteq> parent \<and> vw_open vw w' = (vw_open vw w)(fd \<mapsto> join_path [d, name])
        \<and> (\<exists>i. in_kind i = 0 \<and> in_data i = [] \<and> vw_tree vw w' = (vw_tree vw w)(join_path [d, name] \<mapsto> i)))"

definition renames_law :: "'w posix \<Rightarrow> 'w posix_view \<Rightarrow> bool" where
  "renames_law px vw \<longleftrightarrow>
     (\<forall>w parent d a b i x w'. px_rename_at px parent a b w = (AtDone x, w') \<and> vw_open vw w parent = Some d
        \<and> vw_tree vw w (join_path [d, a]) = Some i \<longrightarrow>
        vw_tree vw w' = (vw_tree vw w)(join_path [d, a] := None, join_path [d, b] \<mapsto> i) \<and> vw_open vw w' = vw_open vw w)"

definition naming_laws :: "'w posix \<Rightarrow> 'w posix_view \<Rightarrow> bool" where
  "naming_laws px vw \<longleftrightarrow>
     opens_law px vw \<and> creates_law px vw \<and> renames_law px vw
     \<and> (\<forall>w. untouched vw w (snd (px_random px w)))
     \<and> (\<forall>w parent name mode w'. px_create_at px parent name mode w = (AtExists, w') \<longrightarrow> untouched vw w w')"

definition chown_law :: "'w posix \<Rightarrow> 'w posix_view \<Rightarrow> bool" where
  "chown_law px vw \<longleftrightarrow>
     (\<forall>w fd u g w'. px_chown px fd u g w = (None, w') \<longrightarrow>
        changes_inode vw fd (\<lambda>i i'. \<exists>b. i' = i\<lparr>in_bits := b, in_uid := if u = -1 then in_uid i else nat u,
            in_gid := if g = -1 then in_gid i else nat g\<rparr>) w w')"

definition inode_laws :: "'w posix \<Rightarrow> 'w posix_view \<Rightarrow> bool" where
  "inode_laws px vw \<longleftrightarrow>
     chown_law px vw
     \<and> (\<forall>w fd m w'. px_chmod px fd m w = (None, w') \<longrightarrow> changes_inode vw fd (\<lambda>i i'. i' = i\<lparr>in_bits := m\<rparr>) w w')
     \<and> (\<forall>w fd c w'. px_write px fd c w = (None, w') \<longrightarrow> changes_inode vw fd (\<lambda>i i'. i' = i\<lparr>in_data := in_data i @ c\<rparr>) w w')
     \<and> (\<forall>w fd w'. px_sync px fd w = (None, w') \<longrightarrow> untouched vw w w')"

lemma changes_inodeD:
  assumes "changes_inode vw fd f w w'" "vw_open vw w fd = Some p" "vw_tree vw w p = Some i"
  obtains i' where "f i i'" "vw_tree vw w' = (vw_tree vw w)(p \<mapsto> i')" "vw_open vw w' = vw_open vw w"
  using assms unfolding changes_inode_def by blast

text \<open>Whose name an id reads back as, and the declared fields of a file that never read back as they were declared.\<close>

definition reads_as :: "(string \<Rightarrow> string option) \<Rightarrow> nat \<Rightarrow> string" where
  "reads_as name_of n = (case name_of (format_nat n) of Some name \<Rightarrow> name | None \<Rightarrow> format_nat n)"

definition one_zero :: "string \<Rightarrow> bool" where
  "one_zero text \<longleftrightarrow> (\<exists>a t. text = CHR ''0'' # a # t \<and> a \<noteq> CHR ''0'')"

definition other_name :: "(string \<Rightarrow> string option) \<Rightarrow> (string \<Rightarrow> string option) \<Rightarrow> string \<Rightarrow> string \<Rightarrow> bool" where
  "other_name id_of name_of what name \<longleftrightarrow>
     (\<exists>i. lookup_id id_of what name = Inr i \<and> reads_as name_of (nat i) \<noteq> name)"

definition unsettled :: "'w posix \<Rightarrow> request \<Rightarrow> 'w \<Rightarrow> string set" where
  "unsettled px rq w =
     {f. \<exists>v. request_field rq f = Some v
        \<and> (f = ''sensitive'' \<or> f = ''mode'' \<and> \<not> one_zero v
           \<or> f = ''owner'' \<and> other_name (\<lambda>n. px_user_id px n w) (\<lambda>n. px_user_name px n w) ''user'' v
           \<or> f = ''group'' \<and> other_name (\<lambda>n. px_group_id px n w) (\<lambda>n. px_group_name px n w) ''group'' v)}"

definition owned :: "'w posix \<Rightarrow> request \<Rightarrow> 'w \<Rightarrow> inode \<Rightarrow> bool" where
  "owned px rq w i \<longleftrightarrow>
     (\<forall>name. request_field rq ''owner'' = Some name \<longrightarrow>
        (\<exists>u. lookup_id (\<lambda>n. px_user_id px n w) ''user'' name = Inr u \<and> (0 \<le> u \<longrightarrow> in_uid i = nat u)))
     \<and> (\<forall>name. request_field rq ''group'' = Some name \<longrightarrow>
        (\<exists>g. lookup_id (\<lambda>n. px_group_id px n w) ''group'' name = Inr g \<and> (0 \<le> g \<longrightarrow> in_gid i = nat g)))"

lemma after_ok: "after m f w = (Inr x, w') \<longleftrightarrow> (\<exists>y v. m w = (Inr y, v) \<and> f y v = (Inr x, w'))"
  by (auto simp: after_def split: prod.splits sum.splits)

lemma effect_ok: "effect f w = (Inr x, w') \<longleftrightarrow> f w = (None, w')"
  by (auto simp: effect_def split: prod.splits option.splits)

lemma at_effect_ok: "at_effect operation path f w = (Inr x, w') \<longleftrightarrow> f w = (AtDone x, w')"
  by (auto simp: at_effect_def split: prod.splits at_result.splits)

lemma ownership_applied:
  assumes laws: "inode_laws px vw" and ok: "apply_ownership px rq fd w = (Inr u, w')"
    and i: "vw_open vw w fd = Some p" "vw_tree vw w p = Some i"
  obtains i' where "vw_tree vw w' = (vw_tree vw w)(p \<mapsto> i')" "vw_open vw w' = vw_open vw w"
    "in_kind i' = in_kind i" "in_data i' = in_data i" "owned px rq w i'"
proof (cases "request_field rq ''owner'' = None \<and> request_field rq ''group'' = None")
  case True
  with ok have "w' = w" by (simp add: apply_ownership_def pure_def)
  with True i that [of i] show ?thesis by (simp add: owned_def fun_upd_idem)
next
  case False
  let ?o = "declared_id (\<lambda>n. px_user_id px n w) ''user'' (request_field rq ''owner'')"
  let ?g = "declared_id (\<lambda>n. px_group_id px n w) ''group'' (request_field rq ''group'')"
  from False ok obtain uid gid where ids: "?o = Inr uid" "?g = Inr gid" and c: "px_chown px fd uid gid w = (None, w')"
    by (auto simp: apply_ownership_def Let_def fail_def effect_ok split: if_splits sum.splits)
  then have "changes_inode vw fd (\<lambda>i i'. \<exists>b. i' = i\<lparr>in_bits := b, in_uid := if uid = -1 then in_uid i else nat uid,
            in_gid := if gid = -1 then in_gid i else nat gid\<rparr>) w w'"
    using laws unfolding inode_laws_def chown_law_def by blast
  from changes_inodeD [OF this i] obtain b i' where i': "i' = i\<lparr>in_bits := b, in_uid := if uid = -1 then in_uid i else nat uid,
            in_gid := if gid = -1 then in_gid i else nat gid\<rparr>" "vw_tree vw w' = (vw_tree vw w)(p \<mapsto> i')"
    "vw_open vw w' = vw_open vw w" by blast
  have "owned px rq w i'" using ids by (auto simp: owned_def declared_id_def i'(1))
  with i' that [of i'] show ?thesis by simp
qed

lemma mode_applied:
  assumes laws: "inode_laws px vw" and ok: "apply_mode px rq fd fallback w = (Inr u, w')"
    and i: "vw_open vw w fd = Some p" "vw_tree vw w p = Some i"
  obtains m where "vw_tree vw w' = (vw_tree vw w)(p \<mapsto> i\<lparr>in_bits := syscall_mode m\<rparr>)" "vw_open vw w' = vw_open vw w"
    "\<And>text. request_field rq ''mode'' = Some text \<Longrightarrow> parse_file_mode text = Inr m"
proof -
  from ok obtain m where m: "\<And>text. request_field rq ''mode'' = Some text \<Longrightarrow> parse_file_mode text = Inr m"
    and c: "px_chmod px fd (syscall_mode m) w = (None, w')"
    by (auto simp: apply_mode_def fail_def effect_ok split: option.splits sum.splits)
  then have "changes_inode vw fd (\<lambda>i i'. i' = i\<lparr>in_bits := syscall_mode m\<rparr>) w w'"
    using laws unfolding inode_laws_def by blast
  from changes_inodeD [OF this i] m that show ?thesis by blast
qed

lemma renamed:
  assumes "naming_laws px vw" "px_rename_at px parent a b w = (AtDone x, w')" "vw_open vw w parent = Some d"
    and "vw_tree vw w (join_path [d, a]) = Some i"
  shows "vw_tree vw w' = (vw_tree vw w)(join_path [d, a] := None, join_path [d, b] \<mapsto> i) \<and> vw_open vw w' = vw_open vw w"
proof -
  have "renames_law px vw" using assms(1) by (simp add: naming_laws_def)
  with assms(2-) show ?thesis unfolding renames_law_def by blast
qed

lemma created:
  assumes "naming_laws px vw" "px_create_at px parent name mode w = (AtDone fd, w')" "vw_open vw w parent = Some d"
  obtains i where "fd \<noteq> parent" "vw_open vw w' = (vw_open vw w)(fd \<mapsto> join_path [d, name])" "in_kind i = 0" "in_data i = []"
    "vw_tree vw w' = (vw_tree vw w)(join_path [d, name] \<mapsto> i)"
proof -
  have "creates_law px vw" using assms(1) by (simp add: naming_laws_def)
  with assms(2-) that show ?thesis unfolding creates_law_def by blast
qed

lemma create_failed: "naming_laws px vw \<Longrightarrow> px_create_at px parent name mode w = (AtExists, w') \<Longrightarrow> untouched vw w w'"
  by (simp add: naming_laws_def)

lemma temp_named: "naming_laws px vw \<Longrightarrow> temp_name px w = (name, w') \<Longrightarrow> untouched vw w w'"
proof -
  assume laws: "naming_laws px vw" and "temp_name px w = (name, w')"
  then have "w' = snd (px_random px w)" by (auto simp: temp_name_def split: prod.splits option.splits)
  with laws show ?thesis by (simp add: naming_laws_def)
qed

lemma file_staged:
  assumes laws: "inode_laws px vw" "naming_laws px vw" "reading_laws px vw"
    and ok: "stage_file px rq parent name temp temp_path content w = (Inr u, w')"
    and o: "vw_open vw w temp = Some (join_path [d, temp_path])" "vw_open vw w parent = Some d"
    and i: "vw_tree vw w (join_path [d, temp_path]) = Some i" "in_kind i = 0" "in_data i = []"
  obtains i' m where "vw_tree vw w' (join_path [d, name]) = Some i'" "vw_open vw w' = vw_open vw w"
    "in_kind i' = 0" "in_data i' = content" "in_bits i' = syscall_mode m" "owned px rq w i'"
    "\<And>text. request_field rq ''mode'' = Some text \<Longrightarrow> parse_file_mode text = Inr m"
proof -
  let ?p = "join_path [d, temp_path]"
  from ok obtain w1 w2 w3 w4 where s: "apply_ownership px rq temp w = (Inr (), w1)" "apply_mode px rq temp 420 w1 = (Inr (), w2)"
    "px_write px temp content w2 = (None, w3)" "px_sync px temp w3 = (None, w4)" "px_rename_at px parent temp_path name w4 = (AtDone u, w')"
    by (auto simp: stage_file_def after_ok effect_ok at_effect_ok)
  from ownership_applied [OF laws(1) s(1) o(1) i(1)] obtain i1 where i1: "vw_tree vw w1 = (vw_tree vw w)(?p \<mapsto> i1)"
    "vw_open vw w1 = vw_open vw w" "in_kind i1 = in_kind i" "in_data i1 = in_data i" "owned px rq w i1" by blast
  have "vw_open vw w1 temp = Some ?p" "vw_tree vw w1 ?p = Some i1" using i1 o by simp_all
  from mode_applied [OF laws(1) s(2) this] obtain m where m: "vw_tree vw w2 = (vw_tree vw w1)(?p \<mapsto> i1\<lparr>in_bits := syscall_mode m\<rparr>)"
    "vw_open vw w2 = vw_open vw w1" "\<And>text. request_field rq ''mode'' = Some text \<Longrightarrow> parse_file_mode text = Inr m" by blast
  let ?i2 = "i1\<lparr>in_bits := syscall_mode m\<rparr>"
  have there: "vw_open vw w2 temp = Some ?p" "vw_tree vw w2 ?p = Some ?i2" using m i1 o by simp_all
  have "changes_inode vw temp (\<lambda>i i'. i' = i\<lparr>in_data := in_data i @ content\<rparr>) w2 w3"
    using laws(1) s(3) unfolding inode_laws_def by blast
  from changes_inodeD [OF this there] obtain j where "j = ?i2\<lparr>in_data := in_data ?i2 @ content\<rparr>"
    "vw_tree vw w3 = (vw_tree vw w2)(?p \<mapsto> j)" "vw_open vw w3 = vw_open vw w2" by blast
  moreover have "in_data ?i2 = []" using i1(4) i(3) by simp
  ultimately have t3: "vw_tree vw w3 = (vw_tree vw w2)(?p \<mapsto> ?i2\<lparr>in_data := content\<rparr>)" "vw_open vw w3 = vw_open vw w2"
    by simp_all
  have "untouched vw w3 w4" using laws(1) s(4) unfolding inode_laws_def by blast
  then have t4: "vw_tree vw w4 ?p = Some (?i2\<lparr>in_data := content\<rparr>)" "vw_open vw w4 = vw_open vw w"
    using t3 m i1 by (simp_all add: untouched_def)
  then have "vw_tree vw w' (join_path [d, name]) = Some (?i2\<lparr>in_data := content\<rparr>)" "vw_open vw w' = vw_open vw w4"
    using renamed [OF laws(2) s(5) _ t4(1)] t4(2) o(2) by simp_all
  then show ?thesis
    using that [of "?i2\<lparr>in_data := content\<rparr>" m] t4 m(3) i1 i by (simp add: owned_def)
qed

lemma temp_created:
  assumes laws: "naming_laws px vw" and ok: "create_temp_at n px parent dir w = (Inr (fd, name), w')"
    and d: "vw_open vw w parent = Some d"
  obtains i where "vw_open vw w' fd = Some (join_path [d, name])" "vw_open vw w' parent = Some d"
    "vw_tree vw w' (join_path [d, name]) = Some i" "in_kind i = 0" "in_data i = []"
  using ok d
proof (induction n arbitrary: w thesis)
  case (Suc n)
  obtain t w1 where t: "temp_name px w = (t, w1)" by fastforce
  have u: "untouched vw w w1" using temp_named [OF laws t] .
  obtain r w2 where c: "px_create_at px parent t 384 w1 = (r, w2)" by fastforce
  show ?case
  proof (cases r)
    case (AtDone f)
    from created [OF laws c [unfolded AtDone], of d] u Suc.prems(3) obtain i where i: "f \<noteq> parent"
      "vw_open vw w2 = (vw_open vw w1)(f \<mapsto> join_path [d, t])" "in_kind i = 0" "in_data i = []"
      "vw_tree vw w2 = (vw_tree vw w1)(join_path [d, t] \<mapsto> i)"
      by (auto simp: untouched_def)
    moreover have "fd = f" "name = t" "w' = w2" using Suc.prems(2) t c AtDone by simp_all
    ultimately show ?thesis using Suc.prems(1) [of i] Suc.prems(3) u by (simp add: untouched_def)
  next
    case AtExists
    with create_failed [OF laws] c have "untouched vw w1 w2" by blast
    then have "vw_open vw w2 parent = Some d" using u Suc.prems(3) by (simp add: untouched_def)
    moreover have "create_temp_at n px parent dir w2 = (Inr (fd, name), w')" using Suc.prems(2) t c AtExists by simp
    ultimately show ?thesis using Suc.IH Suc.prems(1) by blast
  qed (use Suc.prems(2) t c in \<open>simp_all add: fail_def\<close>)
qed (simp add: fail_def)

text \<open>A file that was written is there with what was declared.\<close>

lemma file_written:
  assumes laws: "inode_laws px vw" "naming_laws px vw" "reading_laws px vw"
    and ok: "write_staged px rq parent name content w = (Inr u, w')" and d: "vw_open vw w parent = Some d"
  obtains i m where "vw_tree vw w' (join_path [d, name]) = Some i" "in_kind i = 0" "in_data i = content"
    "in_bits i = syscall_mode m" "owned px rq w' i" "\<And>text. request_field rq ''mode'' = Some text \<Longrightarrow> parse_file_mode text = Inr m"
proof -
  from ok obtain temp tp w1 where c: "create_temp_at 8 px parent (parent_dir (rq_target rq)) w = (Inr (temp, tp), w1)"
    and f: "(case stage_file px rq parent name temp tp content w1 of
       (Inl err, w') \<Rightarrow> (Inl err, snd (px_unlink_at px parent tp False w')) | (Inr _, w') \<Rightarrow> effect (px_sync px parent) w') = (Inr u, w')"
    unfolding write_staged_def after_ok by auto
  obtain r w2 where r: "stage_file px rq parent name temp tp content w1 = (r, w2)" by fastforce
  with f have st: "stage_file px rq parent name temp tp content w1 = (Inr (), w2)" and sy: "px_sync px parent w2 = (None, w')"
    by (cases r; simp add: effect_ok)+
  from temp_created [OF laws(2) c d] obtain i where i: "vw_open vw w1 temp = Some (join_path [d, tp])" "vw_open vw w1 parent = Some d"
    "vw_tree vw w1 (join_path [d, tp]) = Some i" "in_kind i = 0" "in_data i = []" by blast
  from file_staged [OF laws st i] obtain i' m where i': "vw_tree vw w2 (join_path [d, name]) = Some i'"
    "in_kind i' = 0" "in_data i' = content" "in_bits i' = syscall_mode m" "owned px rq w1 i'"
    "\<And>text. request_field rq ''mode'' = Some text \<Longrightarrow> parse_file_mode text = Inr m" by metis
  have "untouched vw w2 w'" using laws(1) sy unfolding inode_laws_def by blast
  moreover have "owned px rq w' i'"
  proof -
    have "px_user_id px n w1 = px_user_id px n w'" "px_group_id px n w1 = px_group_id px n w'" for n
      using laws(3) unfolding reading_laws_def by blast+
    with i'(5) show ?thesis by (simp add: owned_def)
  qed
  ultimately show ?thesis using that [of i' m] i' by (simp add: untouched_def)
qed

text \<open>The directory and the name of a target.\<close>

lemma clean_parts_end: "clean_parts r (xs @ [[]]) = clean_parts r xs"
  by (simp add: clean_parts_def)

lemma target_parts:
  assumes "list_all normal_component (ds @ [n])"
  shows "snd (split_path (abs_path (ds @ [n]))) = n" "parent_dir (abs_path (ds @ [n])) = abs_path ds"
    "join_path [abs_path ds, n] = abs_path (ds @ [n])"
proof -
  let ?base = "if ds = [] then [] else abs_path ds"
  have join: "join_with ''/'' (ds @ [n]) = (if ds = [] then n else join_with ''/'' ds @ CHR ''/'' # n)" for ds
  proof (induction ds)
    case (Cons d ds)
    then show ?case by (cases ds) auto
  qed simp
  have t: "abs_path (ds @ [n]) = ?base @ CHR ''/'' # n" by (simp add: abs_path_def join)
  have n: "normal_component n" "CHR ''/'' \<notin> set n" using assms by (auto simp: normal_component_def)
  have ds: "list_all normal_component ds" using assms by simp
  show "snd (split_path (abs_path (ds @ [n]))) = n" unfolding t by (rule split_path_append) (rule n(2))
  have "takeWhile (\<lambda>c. c \<noteq> CHR ''/'') (rev n @ CHR ''/'' # rev ?base) = rev n"
    "dropWhile (\<lambda>c. c \<noteq> CHR ''/'') (rev n @ CHR ''/'' # rev ?base) = CHR ''/'' # rev ?base"
    using n(2) by (simp_all add: takeWhile_append dropWhile_append)
  then have "fst (split_path (abs_path (ds @ [n]))) = ?base @ ''/''" unfolding t by (simp add: split_path_def)
  moreover have "clean (?base @ ''/'') = abs_path ds"
  proof (cases "ds = []")
    case True
    then show ?thesis by (simp add: clean_def abs_path_def is_abs_def has_prefix_def clean_parts_def Let_def)
  next
    case False
    have "is_abs (abs_path ds @ ''/'')" by (simp add: is_abs_def abs_path_def has_prefix_def)
    moreover have "split_on CHR ''/'' (abs_path ds @ CHR ''/'' # []) = ([] # ds) @ [[]]"
      unfolding split_on_append_sep split_abs_path [OF ds False] by simp
    moreover have "clean_parts True (([] # ds) @ [[]]) = ds"
      unfolding clean_parts_end using ds by (simp add: clean_parts_def clean_step_normal)
    ultimately show ?thesis using False by (simp add: clean_def Let_def abs_path_def)
  qed
  ultimately show "parent_dir (abs_path (ds @ [n])) = abs_path ds"
    using clean_abs_path [OF assms] by (simp add: parent_dir_def)
  show "join_path [abs_path ds, n] = abs_path (ds @ [n])"
  proof (cases "ds = []")
    case True
    have "clean (''//'' @ n) = abs_path [n]"
    proof -
      have "split_on CHR ''/'' (''/'' @ CHR ''/'' # n) = [[], [], n]"
        using n(2) by (simp add: split_on_no_sep)
      then show ?thesis using n(1)
        by (simp add: clean_def is_abs_def has_prefix_def clean_parts_def abs_path_def normal_component_def Let_def)
    qed
    with True n(1) show ?thesis by (simp add: join_path_def abs_path_def normal_component_def Let_def)
  next
    case False
    with n(1) t clean_abs_path [OF assms] show ?thesis
      by (simp add: join_path_def normal_component_def Let_def) (simp add: abs_path_def)
  qed
qed

text \<open>The fields of an accepted File.\<close>

lemma file_fields:
  assumes "validate r [] = []" "ref_type (sr_ref r) = ''File''"
  shows "v_kind (sr_desired r) = KindMap"
    and "map_of (v_map (sr_desired r)) key = Some v \<Longrightarrow> v_kind v = KindScalar
      \<and> key \<in> {''path'', ''state'', ''content'', ''source'', ''template'', ''secretRef'', ''owner'', ''group'', ''mode'',
          ''sensitive'', ''validate'', ''allowPrivileged''}
      \<and> (key = ''state'' \<longrightarrow> existence_word (v_scalar v)) \<and> (key = ''mode'' \<longrightarrow> check_mode (sr_desired r) v = [])"
proof -
  have spec: "map_of types (ref_type (sr_ref r)) = Some file_type" using assms(2) by (simp add: types_def)
  note p = passed [OF assms(1) spec]
  from p(1) show "v_kind (sr_desired r) = KindMap" .
  assume "map_of (v_map (sr_desired r)) key = Some v"
  from p(6) [OF this] obtain f where f: "find_field file_type key = Some f" "check_value (sr_desired r) f v = []" by blast
  then have "f \<in> set (type_fields file_type)" "f_name f = key" by (auto simp: find_field_def find_Some_iff)
  then have k: "key \<in> {''path'', ''state'', ''content'', ''source'', ''template'', ''secretRef'', ''owner'', ''group'', ''mode'',
          ''sensitive'', ''validate'', ''allowPrivileged''}"
    and kind: "f_kind f \<noteq> NameListField" "f_kind f \<noteq> TextListField"
    and state: "key = ''state'' \<Longrightarrow> f = presence" and mode: "key = ''mode'' \<Longrightarrow> f_kind f = ModeField"
    by (auto simp: file_type_def presence_def)
  have "v_kind v = KindScalar" using f(2) kind by (simp add: check_value_def split: if_splits)
  moreover have "existence_word (v_scalar v)" if "key = ''state''"
    using f(2) state [OF that] \<open>v_kind v = KindScalar\<close>
    by (auto simp: check_value_def presence_def one_of_def existence_word_def list_ex_iff split: if_splits)
  moreover have "check_mode (sr_desired r) v = []" if "key = ''mode''"
    using f(2) mode [OF that] \<open>v_kind v = KindScalar\<close> by (simp add: check_value_def)
  ultimately show "v_kind v = KindScalar
      \<and> key \<in> {''path'', ''state'', ''content'', ''source'', ''template'', ''secretRef'', ''owner'', ''group'', ''mode'',
          ''sensitive'', ''validate'', ''allowPrivileged''}
      \<and> (key = ''state'' \<longrightarrow> existence_word (v_scalar v)) \<and> (key = ''mode'' \<longrightarrow> check_mode (sr_desired r) v = [])"
    using k by blast
qed

text \<open>What the kind of a regular file reads as, and what is observed of one.\<close>

lemma kind_regular: "kind_of (stat_mode 0 k) = ''File''"
proof -
  have bits: "bit (stat_mode 0 k) n \<longleftrightarrow> n < 9 \<and> bit k n \<or> n = 23 \<and> bit k 11 \<or> n = 22 \<and> bit k 10 \<or> n = 20 \<and> bit k 9" for n
    unfolding stat_mode_def mode_bits and_mode_bit
    by (auto simp: mode_setuid_def mode_setgid_def mode_sticky_def bit_mode_bit bit_simps)
  have "stat_mode 0 k AND mode_type = 0"
    by (rule bit_eqI) (auto simp: bits mode_type_def mode_dir_def mode_symlink_def bit_mode_bit bit_simps)
  moreover have "stat_mode 0 k AND mode_symlink = 0" "stat_mode 0 k AND mode_dir = 0"
    by (simp_all add: bits mode_symlink_def mode_dir_def and_mode_bit)
  ultimately show ?thesis by (simp add: kind_of_def)
qed

definition seen_fields :: "'w posix \<Rightarrow> inode \<Rightarrow> 'w \<Rightarrow> (string \<times> val) list" where
  "seen_fields px i w =
     [(''owner'', scalar_val (reads_as (\<lambda>n. px_user_name px n w) (in_uid i))),
      (''group'', scalar_val (reads_as (\<lambda>n. px_group_name px n w) (in_gid i))),
      (''mode'', scalar_val (mode_text (stat_mode 0 (in_bits i))))]"

lemma observed_file:
  assumes "reading_laws px vw" "vw_tree vw w (rq_target rq) = Some i" "in_kind i = 0" "ctx w = None"
    and "ref_type (rq_ref rq) = ''File''" "desired_content px rq w = Inr (content, kind)" "kind \<noteq> ContentSecret"
  obtains ob where "posix_observe px ctx rq w = (Inr ob, w)" "ob_exists ob" "ob_unobservable ob = []" "ob_found ob = []"
    "kind = ContentNone \<Longrightarrow> ob_fields ob = seen_fields px i w \<and> ob_desired ob = zero_val"
    "kind \<noteq> ContentNone \<Longrightarrow> ob_fields ob = seen_fields px i w @ [(''content'', scalar_val (content_digest (px_sha px) (in_data i)))]
       \<and> ob_desired ob = map_val ((''content'', scalar_val (content_digest (px_sha px) content))
            # filter (\<lambda>(name, _). name \<noteq> ''content'') (v_map (rq_desired rq)))"
proof -
  have l: "px_lstat px (rq_target rq) w = FsOk \<lparr>pi_mode = stat_mode 0 (in_bits i), pi_owner = Some (in_uid i, in_gid i)\<rparr>"
    "px_read px (rq_target rq) w = FsOk (in_data i)"
    using assms(1-3) unfolding reading_laws_def by metis+
  let ?info = "\<lparr>pi_mode = stat_mode 0 (in_bits i), pi_owner = Some (in_uid i, in_gid i)\<rparr>"
  have "ownership px ?info w = Some (reads_as (\<lambda>n. px_user_name px n w) (in_uid i), reads_as (\<lambda>n. px_group_name px n w) (in_gid i))"
    by (simp add: ownership_def reads_as_def Let_def)
  then have "observe_present px rq ?info w = compare_content px rq (zero_observation\<lparr>ob_exists := True, ob_fields := seen_fields px i w\<rparr>) w"
    using assms(5) by (simp add: observe_present_def seen_fields_def zero_observation_def)
  then have obs: "posix_observe px ctx rq w = (case compare_content px rq (zero_observation\<lparr>ob_exists := True, ob_fields := seen_fields px i w\<rparr>) w of
      Inl err \<Rightarrow> fail err w | Inr ob \<Rightarrow> pure ob w)"
    using assms(4,5) l(1) by (simp add: posix_observe_def kind_regular)
  show ?thesis
  proof (cases "kind = ContentNone")
    case True
    with obs assms(6) that [of "zero_observation\<lparr>ob_exists := True, ob_fields := seen_fields px i w\<rparr>"] show ?thesis
      by (simp add: compare_content_def pure_def zero_observation_def)
  next
    case False
    let ?ob = "zero_observation\<lparr>ob_exists := True,
        ob_fields := seen_fields px i w @ [(''content'', scalar_val (content_digest (px_sha px) (in_data i)))],
        ob_desired := map_val ((''content'', scalar_val (content_digest (px_sha px) content))
            # filter (\<lambda>(name, _). name \<noteq> ''content'') (v_map (rq_desired rq)))\<rparr>"
    have "compare_content px rq (zero_observation\<lparr>ob_exists := True, ob_fields := seen_fields px i w\<rparr>) w = Inr ?ob"
      using False assms(6,7) l(2)
      by (cases kind) (simp_all add: compare_content_def read_text_def zero_observation_def seen_fields_def Let_def)
    with obs False that [of ?ob] show ?thesis by (simp add: pure_def zero_observation_def)
  qed
qed

lemma regular_written:
  assumes laws: "inode_laws px vw" "naming_laws px vw" "reading_laws px vw"
    and ok: "posix_apply True goos px ctx rq act w = (Inr u, w')" and act: "act \<in> {Create, Update}"
    and "file": "ref_type (rq_ref rq) = ''File''" and t: "rq_target rq = abs_path cs" "list_all normal_component cs"
    and content: "\<And>v. desired_content px rq v = Inr (content, kind)"
  obtains i m where "vw_tree vw w' (rq_target rq) = Some i" "in_kind i = 0" "in_bits i = syscall_mode m" "owned px rq w' i"
    "\<And>text. request_field rq ''mode'' = Some text \<Longrightarrow> parse_file_mode text = Inr m"
    "kind \<noteq> ContentNone \<Longrightarrow> in_data i = content" "kind \<noteq> ContentSecret"
proof -
  have "write_target px rq w = (Inr (), w')"
    using ok act by (auto simp: posix_apply_def Let_def fail_def split: option.splits)
  then obtain parent name w1 where o: "open_parent px (rq_target rq) w = (Inr (parent, name), w1)"
    and r: "write_regular px rq parent name w1 = (Inr (), w')"
    using "file" by (auto simp: write_target_def fail_def split: prod.splits sum.splits)
  have "name \<noteq> []" "name = snd (split_path (rq_target rq))" and d: "px_open_dir px (parent_dir (rq_target rq)) w = (AtDone parent, w1)"
    using o t clean_abs_path [OF t(2)]
    by (auto simp: open_parent_def Let_def split: if_splits prod.splits at_result.splits)
  then have "cs \<noteq> []" using t(1) by (auto simp: abs_path_def split_path_def)
  then obtain ds n where cs: "cs = ds @ [n]" by (cases cs rule: rev_cases) auto
  note parts = target_parts [of ds n, folded cs, OF t(2)]
  have "name = n" using \<open>name = _\<close> parts(1) t(1) by simp
  have "vw_open vw w1 parent = Some (abs_path ds)"
    using laws(2) d parts(2) t(1) by (auto simp: naming_laws_def opens_law_def)
  moreover obtain existing where st: "write_staged px rq parent n existing w1 = (Inr (), w')" "kind \<noteq> ContentNone \<Longrightarrow> existing = content"
    and kind: "kind \<noteq> ContentSecret"
    using r content \<open>name = n\<close> by (cases kind) (auto simp: write_regular_def fail_def split: fs_result.splits)
  ultimately obtain i m where "vw_tree vw w' (join_path [abs_path ds, n]) = Some i" "in_kind i = 0" "in_data i = existing"
    "in_bits i = syscall_mode m" "owned px rq w' i" "\<And>text. request_field rq ''mode'' = Some text \<Longrightarrow> parse_file_mode text = Inr m"
    using file_written [OF laws st(1)] by metis
  with that [of i m] parts(3) st(2) kind t(1) cs show ?thesis by simp
qed

text \<open>What drifts from what was declared, with its content as a digest or without content.\<close>

lemma field_named:
  "map_of (v_map d) f = Some v \<Longrightarrow> v_kind d = KindMap \<Longrightarrow> v_kind v = KindScalar \<Longrightarrow> CHR ''.'' \<notin> set f \<Longrightarrow>
     rq_desired rq = d \<Longrightarrow> request_field rq f = Some (v_scalar v)"
  by (simp add: request_field_def lookup_field)

lemma file_drift:
  assumes fields: "v_kind (rq_desired rq) = KindMap"
      "\<And>key v. map_of (v_map (rq_desired rq)) key = Some v \<Longrightarrow> v_kind v = KindScalar
      \<and> key \<in> {''path'', ''state'', ''content'', ''source'', ''template'', ''secretRef'', ''owner'', ''group'', ''mode'',
          ''sensitive'', ''validate'', ''allowPrivileged''}
      \<and> (key = ''state'' \<longrightarrow> existence_word (v_scalar v)) \<and> (key = ''mode'' \<longrightarrow> check_mode (rq_desired rq) v = [])"
    and "file": "ref_type (rq_ref rq) = ''File''"
    and i: "in_bits i = syscall_mode m" "owned px rq w i"
    and mode: "\<And>text. request_field rq ''mode'' = Some text \<Longrightarrow> parse_file_mode text = Inr m"
    and ids: "\<And>name u. request_field rq ''owner'' = Some name \<Longrightarrow> lookup_id (\<lambda>n. px_user_id px n w) ''user'' name = Inr u \<Longrightarrow> 0 \<le> u"
      "\<And>name g. request_field rq ''group'' = Some name \<Longrightarrow> lookup_id (\<lambda>n. px_group_id px n w) ''group'' name = Inr g \<Longrightarrow> 0 \<le> g"
    and f: "f \<noteq> ''content''" "field_value d f = field_value (rq_desired rq) f" "v_kind d = KindMap"
      "f \<in> fst ` set (v_map d) \<longleftrightarrow> f \<in> fst ` set (v_map (rq_desired rq))"
    and ob: "ob_unobservable ob = []" "observed_value ob f = map_of (seen_fields px i w) f"
  shows "drifted (rq_ref rq) d ob f \<longleftrightarrow> f \<in> unsettled px rq w"
proof (cases "map_of (v_map (rq_desired rq)) f")
  case None
  then have "f \<notin> fst ` set (v_map d)" using f(4) by (simp add: map_of_eq_None_iff)
  moreover have "request_field rq f = None" if "f \<in> {''sensitive'', ''mode'', ''owner'', ''group''}"
    using None that fields(1) by (auto simp: request_field_def lookup_field)
  ultimately show ?thesis by (auto simp: drifted_def unsettled_def)
next
  case (Some v)
  note k = fields(2) [OF Some]
  have "f \<in> {''path'', ''state'', ''content'', ''source'', ''template'', ''secretRef'', ''owner'', ''group'', ''mode'',
      ''sensitive'', ''validate'', ''allowPrivileged''}" using k by (elim conjE)
  then have dot: "CHR ''.'' \<notin> set f"
    and cases: "f \<in> {''path'', ''state'', ''source'', ''template'', ''secretRef'', ''validate'', ''allowPrivileged''}
      \<or> f = ''sensitive'' \<or> f = ''mode'' \<or> f = ''owner'' \<or> f = ''group''"
    using f(1) by (elim insertE emptyE; simp)+
  have rf: "request_field rq f = Some (v_scalar v)" using field_named [OF Some fields(1) _ dot refl] k by blast
  have v: "field_value d f = v" using Some f(2) by (simp add: field_value_def)
  have "f \<in> fst ` set (v_map d)" using Some f(4) by (force dest: map_of_SomeD)
  then have drift: "drifted (rq_ref rq) d ob f \<longleftrightarrow> f \<noteq> ''path'' \<and> comparable f v
      \<and> map_option rendered (map_of (seen_fields px i w) f) \<noteq> Some (v_scalar v)"
  proof -
    have "identity_of (rq_ref rq) = ''path''" by (simp add: identity_of_def target_identity_field_def "file")
    moreover have "rendered v = v_scalar v" using k by (simp add: rendered_def)
    ultimately show ?thesis using f(3) \<open>f \<in> fst ` set (v_map d)\<close>
      unfolding drifted_def can_observe_def v ob by simp
  qed
  from cases show ?thesis
  proof (elim disjE, goal_cases)
    case 1
    then have "\<not> (f \<noteq> ''path'' \<and> comparable f v)" using k by (auto simp: comparable_def not_comparable_def)
    moreover have "f \<notin> unsettled px rq w" using 1 by (auto simp: unsettled_def)
    ultimately show ?thesis using drift by blast
  next
    case 2
    then show ?thesis using drift rf by (simp add: unsettled_def comparable_def not_comparable_def seen_fields_def)
  next
    case 3
    have "check_mode (rq_desired rq) v = []" "parse_file_mode (v_scalar v) = Inr m" using k 3 mode rf by auto
    from mode_reads_back [OF this, of 0]
    have "mode_text (stat_mode 0 (in_bits i)) = v_scalar v \<longleftrightarrow> one_zero (v_scalar v)" by (simp add: i(1) one_zero_def)
    then show ?thesis using drift 3 rf
      by (simp add: unsettled_def comparable_def not_comparable_def seen_fields_def rendered_def)
  next
    case 4
    obtain u where "lookup_id (\<lambda>n. px_user_id px n w) ''user'' (v_scalar v) = Inr u" "in_uid i = nat u"
      using i(2) ids(1) 4 rf by (auto simp: owned_def)
    then show ?thesis using drift 4 rf
      by (simp add: unsettled_def other_name_def comparable_def not_comparable_def seen_fields_def rendered_def)
  next
    case 5
    obtain u where "lookup_id (\<lambda>n. px_group_id px n w) ''group'' (v_scalar v) = Inr u" "in_gid i = nat u"
      using i(2) ids(2) 5 rf by (auto simp: owned_def)
    then show ?thesis using drift 5 rf
      by (simp add: unsettled_def other_name_def comparable_def not_comparable_def seen_fields_def rendered_def)
  qed
qed

section \<open>Properties\<close>

text \<open>
  C10: what is left to do after a file was written. If the system keeps its promises, then after a
  create or an update of an accepted File without error the file is there, and the fields that still
  differ are exactly these: \<open>sensitive\<close>, whenever it is declared; the mode, unless it is written
  with one leading zero; the owner or the group, where the declared name is not the one its id reads
  back as. The content never differs.
\<close>

theorem file_settles:
  assumes "reading_laws px vw" "naming_laws px vw" "inode_laws px vw"
    and "posix_apply True goos px ctx rq act w = (Inr u, w')" "act \<in> {Create, Update}" "ctx w' = None"
    and "validate r [] = []" "sr_ref r = rq_ref rq" "sr_desired r = rq_desired rq" "ref_type (rq_ref rq) = ''File''"
    and "rq_target rq = abs_path cs" "list_all normal_component cs"
    and "\<And>v. desired_content px rq v = Inr (content, kind)"
    and "\<And>name i. request_field rq ''owner'' = Some name \<Longrightarrow> lookup_id (\<lambda>n. px_user_id px n w') ''user'' name = Inr i \<Longrightarrow> 0 \<le> i"
    and "\<And>name i. request_field rq ''group'' = Some name \<Longrightarrow> lookup_id (\<lambda>n. px_group_id px n w') ''group'' name = Inr i \<Longrightarrow> 0 \<le> i"
  shows "\<exists>ob. posix_observe px ctx rq w' = (Inr ob, w') \<and> ob_exists ob
    \<and> fd_field ` set (df_fields (compare_state (rq_ref rq) (desired_or ob (rq_desired rq)) ob)) = unsettled px rq w'"
proof -
  note fields = file_fields [OF assms(7), unfolded assms(8,9), OF assms(10)]
  obtain i m where i: "vw_tree vw w' (rq_target rq) = Some i" "in_kind i = 0" "in_bits i = syscall_mode m" "owned px rq w' i"
    "\<And>text. request_field rq ''mode'' = Some text \<Longrightarrow> parse_file_mode text = Inr m"
    "kind \<noteq> ContentNone \<Longrightarrow> in_data i = content" "kind \<noteq> ContentSecret"
    using regular_written [OF assms(3,2,1,4,5,10-13)] by metis
  obtain ob where ob: "posix_observe px ctx rq w' = (Inr ob, w')" "ob_exists ob" "ob_unobservable ob = []"
    "kind = ContentNone \<Longrightarrow> ob_fields ob = seen_fields px i w' \<and> ob_desired ob = zero_val"
    "kind \<noteq> ContentNone \<Longrightarrow> ob_fields ob = seen_fields px i w' @ [(''content'', scalar_val (content_digest (px_sha px) (in_data i)))]
       \<and> ob_desired ob = map_val ((''content'', scalar_val (content_digest (px_sha px) content))
            # filter (\<lambda>(name, _). name \<noteq> ''content'') (v_map (rq_desired rq)))"
    using observed_file [where ctx = ctx, OF assms(1) i(1,2) assms(6,10) assms(13) [of w'] i(7)] by metis
  let ?d = "desired_or ob (rq_desired rq)"
  have "drifted (rq_ref rq) ?d ob f \<longleftrightarrow> f \<in> unsettled px rq w'" for f
  proof (cases "f = ''content''")
    case True
    have "\<not> drifted (rq_ref rq) ?d ob f"
    proof (cases "kind = ContentNone")
      case none: True
      have "request_field rq ''content'' = None"
        using assms(13) [of w'] none by (auto simp: desired_content_def split: option.splits)
      then have "map_of (v_map (rq_desired rq)) ''content'' = None"
        using fields(2) [of "''content''"] field_named [OF _ fields(1) _ _ refl, of "''content''"] by fastforce
      then show ?thesis using True ob(4) [OF none] by (simp add: drifted_def desired_or_def map_of_eq_None_iff)
    next
      case some: False
      then show ?thesis using True ob(5) [OF some] i(6)
        by (simp add: drifted_def desired_or_def field_value_def observed_value_def seen_fields_def)
    qed
    moreover have "f \<notin> unsettled px rq w'" using True by (simp add: unsettled_def)
    ultimately show ?thesis by blast
  next
    case False
    have same: "map_of (filter (\<lambda>(name, _). name \<noteq> ''content'') m) f = map_of m f" for m :: "(string \<times> val) list"
      using False by (induction m) auto
    have keys: "f \<in> fst ` set m \<longleftrightarrow> map_of m f \<noteq> None" for m :: "(string \<times> val) list"
      by (simp add: map_of_eq_None_iff)
    have d: "map_of (v_map ?d) f = map_of (v_map (rq_desired rq)) f" "v_kind ?d = KindMap"
      using False fields(1) ob(4,5) same by (cases "kind = ContentNone"; simp add: desired_or_def)+
    have "observed_value ob f = map_of (seen_fields px i w') f"
      using False ob(4,5) by (cases "kind = ContentNone") (simp_all add: observed_value_def map_add_def split: option.split)
    with file_drift [OF fields assms(10) i(3,4,5) assms(14,15) False _ d(2) _ ob(3)] d(1) keys show ?thesis
      by (simp add: field_value_def)
  qed
  then show ?thesis using ob(1,2) by (intro exI [of _ ob]) (simp add: compare_fields set_eq_iff)
qed

text \<open>A system that is a tree and a table of descriptors, and whose only account is root.\<close>

type_synonym demo_tree = "(string \<Rightarrow> inode option) \<times> (nat \<Rightarrow> string option)"

definition demo_inode :: "nat \<Rightarrow> (inode \<Rightarrow> inode) \<Rightarrow> demo_tree \<Rightarrow> string option \<times> demo_tree" where
  "demo_inode fd f w =
     (case snd w fd of
        None \<Rightarrow> (Some ''bad file descriptor'', w)
      | Some p \<Rightarrow> (case fst w p of None \<Rightarrow> (Some ''stale'', w) | Some i \<Rightarrow> (None, ((fst w)(p \<mapsto> f i), snd w))))"

definition demo_posix :: "demo_tree posix" where
  "demo_posix = \<lparr>
     px_lstat = \<lambda>p w. (case fst w p of None \<Rightarrow> NotExist [] | Some i \<Rightarrow>
       FsOk \<lparr>pi_mode = stat_mode (in_kind i) (in_bits i), pi_owner = Some (in_uid i, in_gid i)\<rparr>),
     px_readlink = \<lambda>p w. Inl [],
     px_read = \<lambda>p w. (case fst w p of None \<Rightarrow> NotExist [] | Some i \<Rightarrow> FsOk (in_data i)),
     px_user_name = \<lambda>n w. if n = ''0'' then Some ''root'' else None, px_group_name = \<lambda>n w. if n = ''0'' then Some ''root'' else None,
     px_user_id = \<lambda>n w. if n = ''root'' then Some ''0'' else None, px_group_id = \<lambda>n w. if n = ''root'' then Some ''0'' else None,
     px_abs = \<lambda>p w. Inr p, px_eval = \<lambda>p w. Some p,
     px_open_dir = \<lambda>d w. (AtDone 3, (fst w, (snd w)(3 \<mapsto> d))), px_open_dir_at = \<lambda>fd n w. (AtMissing, w),
     px_create_at = \<lambda>parent name m w. (case snd w parent of
         None \<Rightarrow> (AtFailed [], w)
       | Some d \<Rightarrow> (AtDone (Suc parent), ((fst w)(join_path [d, name] \<mapsto>
           \<lparr>in_kind = 0, in_bits = m, in_uid = 0, in_gid = 0, in_data = []\<rparr>), (snd w)(Suc parent \<mapsto> join_path [d, name])))),
     px_mkdir_at = \<lambda>fd n m w. (AtFailed [], w), px_symlink_at = \<lambda>t fd n w. (AtFailed [], w),
     px_rename_at = \<lambda>parent a b w. (case snd w parent of
         None \<Rightarrow> (AtFailed [], w)
       | Some d \<Rightarrow> (case fst w (join_path [d, a]) of
           None \<Rightarrow> (AtMissing, w)
         | Some i \<Rightarrow> (AtDone (), ((fst w)(join_path [d, a] := None, join_path [d, b] \<mapsto> i), snd w)))),
     px_unlink_at = \<lambda>fd n b w. (AtMissing, w),
     px_chown = \<lambda>fd u g. demo_inode fd (\<lambda>i. i\<lparr>in_uid := if u = -1 then in_uid i else nat u, in_gid := if g = -1 then in_gid i else nat g\<rparr>),
     px_chmod = \<lambda>fd m. demo_inode fd (\<lambda>i. i\<lparr>in_bits := m\<rparr>), px_write = \<lambda>fd c. demo_inode fd (\<lambda>i. i\<lparr>in_data := in_data i @ c\<rparr>),
     px_sync = \<lambda>fd w. (None, w), px_random = \<lambda>w. (None, w), px_sha = id\<rparr>"

definition demo_view :: "demo_tree posix_view" where
  "demo_view = \<lparr>vw_tree = fst, vw_open = snd\<rparr>"

lemma demo_changes: "demo_inode fd f w = (None, w') \<Longrightarrow> (\<And>i. g i (f i)) \<Longrightarrow> changes_inode demo_view fd g w w'"
  by (auto simp: demo_inode_def changes_inode_def demo_view_def split: option.splits) metis

lemma demo_posix_laws: "reading_laws demo_posix demo_view" "naming_laws demo_posix demo_view" "inode_laws demo_posix demo_view"
proof -
  show "reading_laws demo_posix demo_view" by (simp add: reading_laws_def demo_posix_def demo_view_def)
  have "opens_law demo_posix demo_view" by (simp add: opens_law_def demo_posix_def demo_view_def)
  moreover have "creates_law demo_posix demo_view" 
    by (auto simp: creates_law_def demo_posix_def demo_view_def)
      (rule exI [where x = "\<lparr>in_kind = 0, in_bits = _, in_uid = 0, in_gid = 0, in_data = []\<rparr>"], simp)
  moreover have "renames_law demo_posix demo_view" by (auto simp: renames_law_def demo_posix_def demo_view_def)
  ultimately show "naming_laws demo_posix demo_view"
    by (auto simp: naming_laws_def untouched_def demo_posix_def split: option.splits)
  have "chown_law demo_posix demo_view"
    unfolding chown_law_def
  proof (intro allI impI)
    fix w w' :: demo_tree and fd u g
    let ?f = "\<lambda>i. i\<lparr>in_uid := if u = -1 then in_uid i else nat u, in_gid := if g = -1 then in_gid i else nat g\<rparr>"
    assume "px_chown demo_posix fd u g w = (None, w')"
    then have "demo_inode fd ?f w = (None, w')" by (simp add: demo_posix_def)
    then show "changes_inode demo_view fd (\<lambda>i i'. \<exists>b. i' = i\<lparr>in_bits := b, in_uid := if u = -1 then in_uid i else nat u,
        in_gid := if g = -1 then in_gid i else nat g\<rparr>) w w'"
      by (rule demo_changes) (rule_tac x = "in_bits i" in exI, simp)
  qed
  then show "inode_laws demo_posix demo_view"
    by (auto simp: inode_laws_def untouched_def demo_posix_def intro: demo_changes)
qed

definition demo_file :: request where
  "demo_file = \<lparr>rq_ref = Reference ''File'' ''motd'', rq_target = ''/motd'',
     rq_desired = map_val [(''path'', scalar_val ''/motd''), (''content'', scalar_val ''hi''), (''sensitive'', scalar_val ''true'')],
     rq_layerDir = [], rq_repoRoot = [], rq_trigger = NoTrigger\<rparr>"

lemma demo_file_fields:
  "request_field demo_file ''content'' = Some ''hi''" "request_field demo_file ''owner'' = None"
  "request_field demo_file ''group'' = None" "request_field demo_file ''mode'' = None"
  "request_field demo_file ''sensitive'' = Some ''true''"
  by (simp_all add: request_field_def demo_file_def lookup_field)

lemma demo_file_passes:
  "validate \<lparr>sr_ref = rq_ref demo_file, sr_desired = rq_desired demo_file, sr_position = no_position\<rparr> [] = []"
  by code_simp

lemma demo_content: "desired_content demo_posix demo_file v = Inr (''hi'', ContentLiteral)"
  by (simp add: desired_content_def demo_file_fields)

lemma demo_ops:
  "px_random demo_posix w = (None, w)" "px_sync demo_posix fd w = (None, w)"
  "px_open_dir demo_posix d w = (AtDone 3, (fst w, (snd w)(3 \<mapsto> d)))"
  "px_chmod demo_posix fd m = demo_inode fd (\<lambda>i. i\<lparr>in_bits := m\<rparr>)"
  "px_write demo_posix fd c = demo_inode fd (\<lambda>i. i\<lparr>in_data := in_data i @ c\<rparr>)"
  "snd w parent = Some d \<Longrightarrow> px_create_at demo_posix parent name m w = (AtDone (Suc parent),
     ((fst w)(join_path [d, name] \<mapsto> \<lparr>in_kind = 0, in_bits = m, in_uid = 0, in_gid = 0, in_data = []\<rparr>),
      (snd w)(Suc parent \<mapsto> join_path [d, name])))"
  "snd w parent = Some d \<Longrightarrow> fst w (join_path [d, a]) = Some i \<Longrightarrow> px_rename_at demo_posix parent a b w
     = (AtDone (), ((fst w)(join_path [d, a] := None, join_path [d, b] \<mapsto> i), snd w))"
  by (simp_all add: demo_posix_def)

lemma demo_staged:
  "\<exists>w'. write_staged demo_posix demo_file 3 name content (t, [3 \<mapsto> d]) = (Inr (), w')"
proof -
  let ?tmp = "''.datum.tmp.fallback''"
  let ?p = "join_path [d, ?tmp]" and ?i = "\<lparr>in_kind = 0, in_bits = 384, in_uid = 0, in_gid = 0, in_data = []\<rparr>"
  have c: "create_temp_at 8 demo_posix 3 dir (t, [3 \<mapsto> d]) = (Inr (4, ?tmp), (t(?p \<mapsto> ?i), [3 \<mapsto> d, 4 \<mapsto> ?p]))" for dir
    by (simp add: demo_ops temp_name_def eval_nat_numeral)
  have "\<exists>w'. stage_file demo_posix demo_file 3 name 4 ?tmp content (t(?p \<mapsto> ?i), [3 \<mapsto> d, 4 \<mapsto> ?p]) = (Inr (), w')"
    by (simp add: stage_file_def apply_ownership_def apply_mode_def demo_file_fields after_def effect_def pure_def
        demo_ops demo_inode_def at_effect_def)
  then show ?thesis
    by (auto simp: write_staged_def after_def c effect_def demo_ops)
qed

lemma demo_file_written:
  "\<exists>w'. posix_apply True ''linux'' demo_posix (\<lambda>_. None) demo_file Create (Map.empty, Map.empty) = (Inr (), w')"
proof -
  have p: "clean ''/motd'' = ''/motd''" "split_path ''/motd'' = (''/'', ''motd'')" "clean ''/'' = ''/''" by code_simp+
  have t: "ref_type (rq_ref demo_file) = ''File''" "rq_target demo_file = ''/motd''" by (simp_all add: demo_file_def)
  have "open_parent demo_posix ''/motd'' (Map.empty, Map.empty) = (Inr (3, ''motd''), (Map.empty, [3 \<mapsto> ''/'']))"
    by (simp add: open_parent_def parent_dir_def p demo_ops)
  moreover obtain w' where "write_staged demo_posix demo_file 3 ''motd'' ''hi'' (Map.empty, [3 \<mapsto> ''/'']) = (Inr (), w')"
    using demo_staged by blast
  ultimately show ?thesis
    by (simp add: posix_apply_def write_target_def t write_regular_def demo_content Let_def)
qed

theorem file_settles_witness:
  "\<exists>w' ob. posix_observe demo_posix (\<lambda>_. None) demo_file w' = (Inr ob, w')
     \<and> fd_field ` set (df_fields (compare_state (rq_ref demo_file) (desired_or ob (rq_desired demo_file)) ob)) = {''sensitive''}"
proof -
  obtain w' where w': "posix_apply True ''linux'' demo_posix (\<lambda>_. None) demo_file Create (Map.empty, Map.empty) = (Inr (), w')"
    using demo_file_written by blast
  have "unsettled demo_posix demo_file w' = {''sensitive''}"
    using demo_file_fields by (auto simp: unsettled_def)
  moreover have "rq_target demo_file = abs_path [''motd'']" by (simp add: abs_path_def demo_file_def)
  moreover have "ref_type (rq_ref demo_file) = ''File''" "list_all normal_component [''motd'']"
    by (simp_all add: demo_file_def normal_component_def)
  note t = this and target = \<open>rq_target demo_file = abs_path [''motd'']\<close>
  have "\<exists>ob. posix_observe demo_posix (\<lambda>_. None) demo_file w' = (Inr ob, w') \<and> ob_exists ob
      \<and> fd_field ` set (df_fields (compare_state (rq_ref demo_file) (desired_or ob (rq_desired demo_file)) ob))
        = unsettled demo_posix demo_file w'"
    by (rule file_settles [OF demo_posix_laws w' _ _ demo_file_passes _ _ t(1) target t(2) demo_content])
      (simp_all add: demo_file_fields)
  then show ?thesis using \<open>unsettled demo_posix demo_file w' = {''sensitive''}\<close> by metis
qed

end
