(* ===== verification/Sources.thy ===== *)
theory Sources
  imports Programs Reconcile Effects Procsys
begin

text \<open>
  Package sources: \<open>repository.go\<close> of \<open>internal/provider/apt\<close> and of \<open>internal/provider/dnf\<close>. A
  source is a file that names it and a file with the key it must be signed by, a deb822 stanza
  for apt and an ini section for dnf. What the two packages do alike is one definition here.
\<close>

section \<open>Definitions\<close>

text \<open>The files of the host, the paths of the repository, SHA-256, and the root the files are written below.\<close>

record 'w source_host =
  sh_os :: "'w os"
  sh_abs :: "string \<Rightarrow> 'w \<Rightarrow> string + string"
  sh_eval :: "string \<Rightarrow> 'w \<Rightarrow> string option"
  sh_sha :: "string \<Rightarrow> string"
  sh_root :: string

subsection \<open>What both packages do\<close>

definition host_read :: "'w source_host \<Rightarrow> string \<Rightarrow> 'w \<Rightarrow> string + string" where
  "host_read h path w =
     (case os_read_file (sh_os h) path w of FsOk text \<Rightarrow> Inr text | NotExist err \<Rightarrow> Inl err | FsError err \<Rightarrow> Inl err)"

definition source_error_text :: "source_error \<Rightarrow> string" where
  "source_error_text e =
     (case e of
        CannotResolve err \<Rightarrow> err
      | SourceOutside rel \<Rightarrow> ''source '' @ rel @ '' resolves outside the repository''
      | UnresolvedPlaceholder rel \<Rightarrow>
          quote_key rel @ '' is an unresolved placeholder, and secret references are not implemented''
      | CannotRead err \<Rightarrow> err)"

definition read_key :: "'w source_host \<Rightarrow> string \<Rightarrow> request \<Rightarrow> string \<Rightarrow> 'w \<Rightarrow> string + string" where
  "read_key h tag rq rel w =
     (case read_source (\<lambda>p. sh_abs h p w) (\<lambda>p. sh_eval h p w) (\<lambda>p. host_read h p w) rq rel of
        Inl e \<Rightarrow> Inl (tag @ '': reading signingKey: '' @ source_error_text e)
      | Inr key \<Rightarrow> Inr key)"

text \<open>The declared fields as they compare with a host: enabled unless said otherwise, the key as a digest.\<close>

definition desired_source :: "'w source_host \<Rightarrow> string \<Rightarrow> request \<Rightarrow> 'w \<Rightarrow> string + val" where
  "desired_source h tag rq w =
     (let out = filter (\<lambda>(name, _). name \<noteq> ''signingKey'') (v_map (rq_desired rq));
          out = (if map_of out ''enabled'' = None \<and> request_present rq
                 then AList.update ''enabled'' (scalar_val ''true'') out else out)
      in case request_field rq ''signingKey'' of
           None \<Rightarrow> Inr (map_val out)
         | Some rel \<Rightarrow>
             (case read_key h tag rq rel w of
                Inl err \<Rightarrow> Inl err
              | Inr key \<Rightarrow> Inr (map_val (AList.update ''signingKey'' (scalar_val (content_digest (sh_sha h) key)) out))))"

text \<open>A file is written beside its place and renamed into it.\<close>

definition write_source_file :: "'w source_host \<Rightarrow> string \<Rightarrow> string \<Rightarrow> ('w, unit) io" where
  "write_source_file h path text =
     after (effect (os_mkdir_all (sh_os h) (path_dir path) 493)) (\<lambda>_.
     after (effect (os_write_file (sh_os h) (path @ ''.datum-tmp'') text 420)) (\<lambda>_ w.
       case os_rename (sh_os h) (path @ ''.datum-tmp'') path w of
         (Some err, w') \<Rightarrow> (Inl (plain_error err), snd (os_remove (sh_os h) (path @ ''.datum-tmp'') w'))
       | (None, w') \<Rightarrow> (Inr (), w')))"

fun remove_files :: "'w source_host \<Rightarrow> string list \<Rightarrow> ('w, unit) io" where
  "remove_files h [] w = (Inr (), w)"
| "remove_files h (path # paths) w =
     (case os_remove (sh_os h) path w of
        (FsError err, w') \<Rightarrow> (Inl (plain_error err), w')
      | (_, w') \<Rightarrow> remove_files h paths w')"

text \<open>The key, as the last field of an observation.\<close>

definition observe_key :: "'w source_host \<Rightarrow> string \<Rightarrow> observation \<Rightarrow> 'w \<Rightarrow> string + observation" where
  "observe_key h path ob w =
     (let with_key = (\<lambda>text. ob\<lparr>ob_fields := AList.update ''signingKey'' (scalar_val text) (ob_fields ob)\<rparr>)
      in case os_read_file (sh_os h) path w of
           FsOk key \<Rightarrow> Inr (with_key (content_digest (sh_sha h) key))
         | NotExist _ \<Rightarrow> Inr (with_key [])
         | FsError err \<Rightarrow> Inl err)"

definition with_id :: "string \<Rightarrow> string \<Rightarrow> ('w, 'a) io \<Rightarrow> ('w, 'a) io" where
  "with_id tag name m = with_word tag ''repository id'' ''-._'' name m"

definition write_source ::
    "'w source_host \<Rightarrow> string \<Rightarrow> (string \<Rightarrow> string) \<Rightarrow> (string \<Rightarrow> string) \<Rightarrow> (request \<Rightarrow> string \<Rightarrow> string \<Rightarrow> string)
      \<Rightarrow> request \<Rightarrow> ('w, unit) io" where
  "write_source h tag file_of key_of build_text rq w =
     (case request_field rq ''url'' of
        None \<Rightarrow> fail (tag @ '': '' @ ref_string (rq_ref rq) @ '' has no desired.url'') w
      | Some url \<Rightarrow>
          (if url = [] then fail (tag @ '': '' @ ref_string (rq_ref rq) @ '' has no desired.url'') w
           else case request_field rq ''signingKey'' of
             None \<Rightarrow> write_source_file h (file_of (rq_target rq)) (build_text rq url []) w
           | Some rel \<Rightarrow>
               (case read_key h tag rq rel w of
                  Inl err \<Rightarrow> fail err w
                | Inr key \<Rightarrow>
                    after (write_source_file h (key_of (rq_target rq)) key) (\<lambda>_.
                      write_source_file h (file_of (rq_target rq)) (build_text rq url (key_of (rq_target rq)))) w)))"

subsection \<open>apt\<close>

definition sources_path :: "string \<Rightarrow> string \<Rightarrow> string" where
  "sources_path root name = join_path [root, ''etc/apt/sources.list.d'', name @ ''.sources'']"

definition keyring_path :: "string \<Rightarrow> string \<Rightarrow> string" where
  "keyring_path root name = join_path [root, ''etc/apt/keyrings'', name @ ''.asc'']"

definition apt_reject :: "request \<Rightarrow> string option" where
  "apt_reject rq =
     (case request_field rq ''priority'' of
        Some v \<Rightarrow>
          if v \<noteq> [] then Some (''apt: '' @ ref_string (rq_ref rq) @ '' sets desired.priority, which this provider does not express'')
          else None
      | None \<Rightarrow> None)"

definition components_of :: "request \<Rightarrow> string list" where
  "components_of rq =
     (case lookup_val (rq_desired rq) ''components'' of
        None \<Rightarrow> []
      | Some v \<Rightarrow>
          if v_kind v \<noteq> KindList then []
          else map v_scalar (filter (\<lambda>item. v_kind item = KindScalar \<and> v_scalar item \<noteq> []) (v_list v)))"

definition yes_no :: "string \<Rightarrow> string" where
  "yes_no v = (if v = ''false'' then ''no'' else ''yes'')"

definition build_stanza :: "request \<Rightarrow> string \<Rightarrow> string \<Rightarrow> string" where
  "build_stanza rq url keyring =
     (let nl = [CHR 0x0A];
          suite = field_or rq ''suite'' [];
          suite = (if suite = [] \<and> has_suffix url ''/'' then ''/'' else suite)
      in ''Types: deb'' @ nl @ ''URIs: '' @ url @ nl
         @ (if suite \<noteq> [] then ''Suites: '' @ suite @ nl else [])
         @ (if components_of rq \<noteq> [] then ''Components: '' @ join_with '' '' (components_of rq) @ nl else [])
         @ (if keyring \<noteq> [] then ''Signed-By: '' @ keyring @ nl else ''Trusted: yes'' @ nl)
         @ ''Enabled: '' @ yes_no (field_or rq ''enabled'' ''true'') @ nl)"

text \<open>A line that starts with white space continues the field before it.\<close>

definition field_at :: "(string \<times> string) list \<Rightarrow> string \<Rightarrow> string" where
  "field_at m name = (case map_of m name of Some v \<Rightarrow> v | None \<Rightarrow> [])"

definition stanza_line :: "(string \<times> string) list \<times> string \<Rightarrow> string \<Rightarrow> (string \<times> string) list \<times> string" where
  "stanza_line acc line =
     (case acc of (m, key) \<Rightarrow>
        if trim_space line = [] then (m, key)
        else if has_prefix line '' '' \<or> has_prefix line [CHR 0x09]
          then (if key \<noteq> [] then AList.update key (field_at m key @ '' '' @ trim_space line) m else m, key)
        else case cut_at (CHR '':'') line of
          None \<Rightarrow> (m, key)
        | Some (name, v) \<Rightarrow>
            (let key = to_lower (trim_space name) in (AList.update key (trim_space v) m, key)))"

definition parse_stanza :: "string \<Rightarrow> (string \<times> string) list" where
  "parse_stanza text = fst (foldl stanza_line ([], []) (split_on (CHR 0x0A) text))"

definition first_word :: "string \<Rightarrow> string" where
  "first_word v = (case fields_of v of [] \<Rightarrow> [] | w # _ \<Rightarrow> w)"

definition bool_from_yes_no :: "string \<Rightarrow> string" where
  "bool_from_yes_no v =
     (let t = to_lower (trim_space v) in if t = ''no'' \<or> t = ''false'' then ''false'' else ''true'')"

definition component_list :: "string \<Rightarrow> val" where
  "component_list v = list_val (map scalar_val (sort (fields_of v)))"

definition stanza_fields :: "(string \<times> string) list \<Rightarrow> (string \<times> val) list" where
  "stanza_fields m =
     [(''url'', scalar_val (first_word (field_at m ''uris''))),
      (''enabled'', scalar_val (bool_from_yes_no (field_at m ''enabled'')))]
     @ (if field_at m ''suites'' \<noteq> [] then [(''suite'', scalar_val (first_word (field_at m ''suites'')))] else [])
     @ (if field_at m ''components'' \<noteq> [] then [(''components'', component_list (field_at m ''components''))] else [])"

definition observe_source ::
    "'w source_host \<Rightarrow> string \<Rightarrow> (request \<Rightarrow> string option) \<Rightarrow> (string \<Rightarrow> string) \<Rightarrow> (string \<Rightarrow> string)
      \<Rightarrow> (string \<Rightarrow> (string \<times> val) list) \<Rightarrow> request \<Rightarrow> ('w, observation) io" where
  "observe_source h tag reject file_of key_of fields_in rq =
     with_id tag (rq_target rq) (\<lambda>w.
       case reject rq of
         Some err \<Rightarrow> fail err w
       | None \<Rightarrow>
           (case desired_source h tag rq w of
              Inl err \<Rightarrow> fail err w
            | Inr desired \<Rightarrow>
                (let ob = zero_observation\<lparr>ob_desired := desired\<rparr>
                 in case os_read_file (sh_os h) (file_of (rq_target rq)) w of
                   NotExist _ \<Rightarrow> pure ob w
                 | FsError err \<Rightarrow> fail err w
                 | FsOk text \<Rightarrow>
                     (case observe_key h (key_of (rq_target rq)) (ob\<lparr>ob_exists := True, ob_fields := fields_in text\<rparr>) w of
                        Inl err \<Rightarrow> fail err w
                      | Inr ob \<Rightarrow> pure ob w))))"

definition apply_source ::
    "'w source_host \<Rightarrow> string \<Rightarrow> (request \<Rightarrow> string option) \<Rightarrow> (string \<Rightarrow> string) \<Rightarrow> (string \<Rightarrow> string)
      \<Rightarrow> (request \<Rightarrow> string \<Rightarrow> string \<Rightarrow> string) \<Rightarrow> request \<Rightarrow> action \<Rightarrow> ('w, unit) io" where
  "apply_source h tag reject file_of key_of build_text rq act =
     with_id tag (rq_target rq)
       (case reject rq of
          Some err \<Rightarrow> fail err
        | None \<Rightarrow>
            (case act of
               NoAction \<Rightarrow> pure ()
             | Skip \<Rightarrow> pure ()
             | Remove \<Rightarrow> remove_files h [file_of (rq_target rq), key_of (rq_target rq)]
             | _ \<Rightarrow> write_source h tag file_of key_of build_text rq))"

definition apt_observe_repository :: "'w source_host \<Rightarrow> request \<Rightarrow> ('w, observation) io" where
  "apt_observe_repository h =
     observe_source h ''apt'' apt_reject (sources_path (sh_root h)) (keyring_path (sh_root h)) (\<lambda>text. stanza_fields (parse_stanza text))"

definition apt_apply_repository :: "'w source_host \<Rightarrow> request \<Rightarrow> action \<Rightarrow> ('w, unit) io" where
  "apt_apply_repository h = apply_source h ''apt'' apt_reject (sources_path (sh_root h)) (keyring_path (sh_root h)) build_stanza"

subsection \<open>dnf\<close>

definition repo_path :: "string \<Rightarrow> string \<Rightarrow> string" where
  "repo_path root name = join_path [root, ''etc/yum.repos.d'', name @ ''.repo'']"

definition key_path :: "string \<Rightarrow> string \<Rightarrow> string" where
  "key_path root name = join_path [root, ''etc/pki/rpm-gpg'', name @ ''.asc'']"

definition empty_value :: "val \<Rightarrow> bool" where
  "empty_value v = (case v_kind v of KindScalar \<Rightarrow> v_scalar v = [] | KindList \<Rightarrow> v_list v = [] | _ \<Rightarrow> False)"

definition dnf_reject :: "request \<Rightarrow> string option" where
  "dnf_reject rq =
     map_option (\<lambda>name. ''dnf: '' @ ref_string (rq_ref rq) @ '' sets desired.'' @ name @ '', which an rpm source has no equivalent of'')
       (find (\<lambda>name. case lookup_val (rq_desired rq) name of Some v \<Rightarrow> \<not> empty_value v | None \<Rightarrow> False) [''suite'', ''components''])"

definition digit_from_bool :: "string \<Rightarrow> string" where
  "digit_from_bool v = (if v = ''false'' then ''0'' else ''1'')"

definition build_repo :: "request \<Rightarrow> string \<Rightarrow> string \<Rightarrow> string" where
  "build_repo rq url key =
     (let nl = [CHR 0x0A]
      in ''['' @ rq_target rq @ '']'' @ nl @ ''name='' @ rq_target rq @ nl @ ''baseurl='' @ url @ nl
         @ ''enabled='' @ digit_from_bool (field_or rq ''enabled'' ''true'') @ nl
         @ (if key \<noteq> [] then ''gpgcheck=1'' @ nl @ ''gpgkey=file://'' @ key @ nl else ''gpgcheck=0'' @ nl)
         @ (case request_field rq ''priority'' of Some p \<Rightarrow> if p \<noteq> [] then ''priority='' @ p @ nl else [] | None \<Rightarrow> []))"

definition ini_line :: "(string \<times> string) list \<Rightarrow> string \<Rightarrow> (string \<times> string) list" where
  "ini_line m l =
     (let line = trim_space l
      in if line = [] \<or> has_prefix line ''#'' \<or> has_prefix line ''['' then m
         else case cut_at (CHR ''='') line of
           None \<Rightarrow> m
         | Some (name, v) \<Rightarrow> AList.update (to_lower (trim_space name)) (trim_space v) m)"

definition parse_ini :: "string \<Rightarrow> (string \<times> string) list" where
  "parse_ini text = foldl ini_line [] (split_on (CHR 0x0A) text)"

definition bool_from_digit :: "string \<Rightarrow> bool \<Rightarrow> string" where
  "bool_from_digit v fallback =
     (if v \<in> {''1'', ''true'', ''yes''} then ''true''
      else if v \<in> {''0'', ''false'', ''no''} then ''false''
      else if fallback then ''true'' else ''false'')"

definition ini_fields :: "(string \<times> string) list \<Rightarrow> (string \<times> val) list" where
  "ini_fields m =
     [(''url'', scalar_val (field_at m ''baseurl'')), (''enabled'', scalar_val (bool_from_digit (field_at m ''enabled'') True))]
     @ (if field_at m ''priority'' \<noteq> [] then [(''priority'', scalar_val (field_at m ''priority''))] else [])"

definition dnf_observe_repository :: "'w source_host \<Rightarrow> request \<Rightarrow> ('w, observation) io" where
  "dnf_observe_repository h =
     observe_source h ''dnf'' dnf_reject (repo_path (sh_root h)) (key_path (sh_root h)) (\<lambda>text. ini_fields (parse_ini text))"

definition dnf_apply_repository :: "'w source_host \<Rightarrow> request \<Rightarrow> action \<Rightarrow> ('w, unit) io" where
  "dnf_apply_repository h = apply_source h ''dnf'' dnf_reject (repo_path (sh_root h)) (key_path (sh_root h)) build_repo"

section \<open>Specification\<close>

text \<open>What is asked of the files of a host: a written file reads back, a rename moves it, and nothing else changes.\<close>

definition keeps_text :: "'w os \<Rightarrow> string \<Rightarrow> 'w \<Rightarrow> 'w \<Rightarrow> bool" where
  "keeps_text os q w w' \<longleftrightarrow> (\<forall>c. os_read_file os q w = FsOk c \<longrightarrow> os_read_file os q w' = FsOk c)"

definition text_laws :: "'w os \<Rightarrow> bool" where
  "text_laws os \<longleftrightarrow>
     (\<forall>w d m q. keeps_text os q w (snd (os_mkdir_all os d m w)))
     \<and> (\<forall>w p text m w'. os_write_file os p text m w = (None, w') \<longrightarrow>
          os_read_file os p w' = FsOk text \<and> (\<forall>q. q \<noteq> p \<longrightarrow> keeps_text os q w w'))
     \<and> (\<forall>w a b w' c. os_rename os a b w = (None, w') \<and> os_read_file os a w = FsOk c \<longrightarrow>
          os_read_file os b w' = FsOk c \<and> (\<forall>q. q \<notin> {a, b} \<longrightarrow> keeps_text os q w w'))"

text \<open>The two files of a source and the ones they are written to first are four.\<close>

locale source_files =
  fixes file_of key_of :: "string \<Rightarrow> string"
  assumes apart: "check_word ''repository id'' name ''-._'' = None \<Longrightarrow>
    distinct [file_of name, key_of name, file_of name @ ''.datum-tmp'', key_of name @ ''.datum-tmp'']"
begin

lemma write_source_file_reads:
  assumes "text_laws (sh_os h)" "write_source_file h path text w = (Inr u, w')"
  shows "os_read_file (sh_os h) path w' = FsOk text \<and> (\<forall>q. q \<notin> {path, path @ ''.datum-tmp''} \<longrightarrow> keeps_text (sh_os h) q w w')"
proof -
  from assms(2) obtain w1 w2 where s: "os_mkdir_all (sh_os h) (path_dir path) 493 w = (None, w1)"
    "os_write_file (sh_os h) (path @ ''.datum-tmp'') text 420 w1 = (None, w2)"
    "os_rename (sh_os h) (path @ ''.datum-tmp'') path w2 = (None, w')"
    by (auto simp: write_source_file_def after_def effect_def split: prod.splits sum.splits option.splits)
  have k: "keeps_text (sh_os h) q w w1" for q using assms(1) s(1) unfolding text_laws_def by (metis snd_conv)
  have "os_read_file (sh_os h) (path @ ''.datum-tmp'') w2 = FsOk text \<and> (\<forall>q. q \<noteq> path @ ''.datum-tmp'' \<longrightarrow> keeps_text (sh_os h) q w1 w2)"
    using assms(1) s(2) unfolding text_laws_def by blast
  moreover from this have "os_read_file (sh_os h) path w' = FsOk text
      \<and> (\<forall>q. q \<notin> {path @ ''.datum-tmp'', path} \<longrightarrow> keeps_text (sh_os h) q w2 w')"
    using assms(1) s(3) unfolding text_laws_def by blast
  ultimately show ?thesis using k unfolding keeps_text_def by blast
qed

lemma source_written:
  assumes laws: "text_laws (sh_os h)" and ok: "write_source h tag file_of key_of build_text rq w = (Inr u, w')"
    and name: "check_word ''repository id'' (rq_target rq) ''-._'' = None"
  obtains url key where "request_field rq ''url'' = Some url" "url \<noteq> []"
    "os_read_file (sh_os h) (file_of (rq_target rq)) w'
       = FsOk (build_text rq url (if request_field rq ''signingKey'' = None then [] else key_of (rq_target rq)))"
    "\<And>rel. request_field rq ''signingKey'' = Some rel \<Longrightarrow>
       read_key h tag rq rel w = Inr key \<and> os_read_file (sh_os h) (key_of (rq_target rq)) w' = FsOk key"
proof -
  from ok obtain url where url: "request_field rq ''url'' = Some url" "url \<noteq> []"
    by (auto simp: write_source_def fail_def split: option.splits if_splits)
  note ok = ok [unfolded write_source_def]
  show ?thesis
  proof (cases "request_field rq ''signingKey''")
    case None
    with ok url have "write_source_file h (file_of (rq_target rq)) (build_text rq url []) w = (Inr u, w')" by simp
    from write_source_file_reads [OF laws this] that [of url undefined] url None show ?thesis by simp
  next
    case (Some rel)
    with ok url obtain key w1 where key: "read_key h tag rq rel w = Inr key"
      and k: "write_source_file h (key_of (rq_target rq)) key w = (Inr (), w1)"
      and f: "write_source_file h (file_of (rq_target rq)) (build_text rq url (key_of (rq_target rq))) w1 = (Inr u, w')"
      by (auto simp: after_def fail_def split: sum.splits prod.splits)
    have "key_of (rq_target rq) \<notin> {file_of (rq_target rq), file_of (rq_target rq) @ ''.datum-tmp''}"
      using apart [OF name] by simp metis
    then have "keeps_text (sh_os h) (key_of (rq_target rq)) w1 w'"
      using conjunct2 [OF write_source_file_reads [OF laws f]] by blast
    then have "os_read_file (sh_os h) (key_of (rq_target rq)) w' = FsOk key"
      using write_source_file_reads [OF laws k] by (simp add: keeps_text_def)
    moreover have "os_read_file (sh_os h) (file_of (rq_target rq)) w'
        = FsOk (build_text rq url (if request_field rq ''signingKey'' = None then [] else key_of (rq_target rq)))"
      using conjunct1 [OF write_source_file_reads [OF laws f]] Some by simp
    moreover have "read_key h tag rq rel' w = Inr key" if "request_field rq ''signingKey'' = Some rel'" for rel'
      using Some key that by simp
    ultimately show ?thesis using that [of url key] url by blast
  qed
qed

end

section \<open>Lemmas\<close>

subsection \<open>Where the files are\<close>

lemma word_visible: "check_word kind word ''-._'' = None \<Longrightarrow> word \<noteq> [] \<and> list_all (\<lambda>c. visible c \<and> c \<noteq> CHR ''/'' \<and> c \<noteq> CHR '']'') word"
proof -
  assume "check_word kind word ''-._'' = None"
  then have w: "word \<noteq> []" "list_all (word_char ''-._'') word" by (simp_all add: check_word_chars)
  have "visible c \<and> c \<noteq> CHR ''/'' \<and> c \<noteq> CHR '']''" if "word_char ''-._'' c" for c
    using that by (auto simp: word_char_def visible_def Let_def)
  with w show ?thesis by (auto simp: list_all_iff)
qed

lemma source_path:
  assumes "list_all normal_component cs" "cs \<noteq> []" "normal_component n"
  shows "join_path [''/'', join_with ''/'' cs, n] = abs_path (cs @ [n])"
proof -
  have ne: "join_with ''/'' cs \<noteq> []" "n \<noteq> []"
    using assms by (auto simp: normal_component_def join_with_eq_Nil list_all_iff)
  have n: "CHR ''/'' \<notin> set n" using assms(3) by (simp add: normal_component_def)
  have "split_on CHR ''/'' (''//'' @ join_with ''/'' cs @ ''/'' @ n) = [[], []] @ cs @ [n]"
    using split_on_append_sep [of "CHR ''/''" "''//'' @ join_with ''/'' cs" n] split_on_no_sep [OF n]
      split_on_join_with [OF assms(2), of "CHR ''/''"] assms(1)
    by (simp add: list_all_iff normal_component_def)
  moreover have "clean_parts True ([[], []] @ cs @ [n]) = cs @ [n]"
  proof -
    have "foldl (clean_step True) [] ([[], []] @ cs @ [n]) = foldl (clean_step True) [] (cs @ [n])" by simp
    also have "\<dots> = rev (cs @ [n])" using assms clean_step_normal [of "cs @ [n]" True "[]"] by (simp del: foldl_append)
    finally show ?thesis unfolding clean_parts_def by (simp only: rev_rev_ident)
  qed
  ultimately have "clean (''//'' @ join_with ''/'' cs @ ''/'' @ n) = abs_path (cs @ [n])"
    by (simp add: clean_def is_abs_def has_prefix_def abs_path_def Let_def)
  then show ?thesis using ne by (simp add: join_path_def)
qed

lemma source_name:
  assumes "check_word kind word ''-._'' = None" "a \<noteq> []" "CHR ''/'' \<notin> set a" "last a \<noteq> CHR ''.''"
  shows "normal_component (word @ a)"
proof -
  have "last (word @ a) \<noteq> CHR ''.''" using assms(2,4) by simp
  then have "word @ a \<noteq> ''.''" "word @ a \<noteq> ''..''" by (metis last.simps list.distinct(1))+
  then show ?thesis using word_visible [OF assms(1)] assms(2,3) by (auto simp: normal_component_def list_all_iff)
qed

lemma source_places:
  assumes "check_word ''repository id'' name ''-._'' = None"
  shows "sources_path ''/'' name = abs_path [''etc'', ''apt'', ''sources.list.d'', name @ ''.sources'']"
    "keyring_path ''/'' name = abs_path [''etc'', ''apt'', ''keyrings'', name @ ''.asc'']"
    "repo_path ''/'' name = abs_path [''etc'', ''yum.repos.d'', name @ ''.repo'']"
    "key_path ''/'' name = abs_path [''etc'', ''pki'', ''rpm-gpg'', name @ ''.asc'']"
proof -
  note n = source_name [OF assms]
  show "sources_path ''/'' name = abs_path [''etc'', ''apt'', ''sources.list.d'', name @ ''.sources'']"
    using source_path [of "[''etc'', ''apt'', ''sources.list.d'']" "name @ ''.sources''"] n [of "''.sources''"]
    by (simp add: sources_path_def normal_component_def)
  show "keyring_path ''/'' name = abs_path [''etc'', ''apt'', ''keyrings'', name @ ''.asc'']"
    using source_path [of "[''etc'', ''apt'', ''keyrings'']" "name @ ''.asc''"] n [of "''.asc''"]
    by (simp add: keyring_path_def normal_component_def)
  show "repo_path ''/'' name = abs_path [''etc'', ''yum.repos.d'', name @ ''.repo'']"
    using source_path [of "[''etc'', ''yum.repos.d'']" "name @ ''.repo''"] n [of "''.repo''"]
    by (simp add: repo_path_def normal_component_def)
  show "key_path ''/'' name = abs_path [''etc'', ''pki'', ''rpm-gpg'', name @ ''.asc'']"
    using source_path [of "[''etc'', ''pki'', ''rpm-gpg'']" "name @ ''.asc''"] n [of "''.asc''"]
    by (simp add: key_path_def normal_component_def)
qed

interpretation apt_files: source_files "sources_path ''/''" "keyring_path ''/''"
  by unfold_locales (simp add: source_places abs_path_def)

interpretation dnf_files: source_files "repo_path ''/''" "key_path ''/''"
  by unfold_locales (simp add: source_places abs_path_def)

subsection \<open>Words and lines\<close>

lemma space_at_visible: "visible c \<Longrightarrow> space_at (c # s) = None"
  by (simp add: space_at_def no_space_start)

lemma fields_acc_word: "list_all visible w \<Longrightarrow> fields_acc (w @ s) acc = fields_acc s (acc @ w)"
proof (induction w arbitrary: acc)
  case (Cons c w)
  then show ?case by (simp add: fields_acc.simps [of "c # w @ s"] space_at_visible)
qed simp

lemma fields_acc_space: "fields_acc (CHR '' '' # s) acc = (if acc = [] then [] else [acc]) @ fields_acc s []"
  by (simp add: fields_acc.simps [of "CHR '' '' # s"] space_at_def find_space)

lemma fields_of_words: "\<forall>w \<in> set ws. w \<noteq> [] \<and> list_all visible w \<Longrightarrow> fields_of (join_with '' '' ws) = ws"
proof (induction "'' ''" ws rule: join_with.induct)
  case (2 w)
  then show ?case using fields_acc_word [of w "[]" "[]"] by (simp add: fields_of_def fields_acc.simps [of "[]"])
next
  case (3 w v ws)
  then have "fields_of (join_with '' '' (v # ws)) = v # ws" by simp
  with 3(2) show ?case
    using fields_acc_word [of w "CHR '' '' # join_with '' '' (v # ws)" "[]"] by (simp add: fields_of_def fields_acc_space)
qed (simp add: fields_of_def fields_acc.simps [of "[]"])

lemma fields_of_strip_left: "fields_of (strip_from space_encodings n s) = fields_of s"
proof (induction n arbitrary: s)
  case (Suc n)
  show ?case
  proof (cases "find (has_prefix s) space_encodings")
    case (Some e)
    then have e: "e \<noteq> []" "has_prefix s e" using space_at_Some [of s e] space_encodings_not_Nil by (auto simp: space_at_def)
    then have "s \<noteq> []" by (auto simp: has_prefix_def)
    then have "fields_of s = fields_of (drop (length e) s)"
      using Some by (simp add: fields_of_def fields_acc.simps [of s] space_at_def)
    with Suc Some show ?thesis by simp
  qed simp
qed simp

lemma fields_of_trim: "fields_of (trim_space s) = fields_of s"
  by (simp add: trim_space_def fields_of_trim_right trim_left_def fields_of_strip_left)

lemma trim_space_Cons: "trim_space (CHR '' '' # s) = trim_space s"
  by (simp add: trim_space_def trim_left_def find_space)

lemma trim_visible_word: "list_all visible s \<Longrightarrow> trim_space s = s"
proof (cases "s = []")
  case False
  assume "list_all visible s"
  with False show ?thesis by (intro trim_space_visible) (auto simp: list_all_iff)
qed (simp add: trim_space_def trim_left_def trim_right_def)

lemma split_lines:
  "\<forall>l \<in> set ls. c \<notin> set l \<Longrightarrow> split_on c (concat (map (\<lambda>l. l @ [c]) ls)) = ls @ [[]]"
  by (induction ls) (simp_all add: split_on_append_sep split_on_no_sep)

end
