(* ===== verification/Spec2Isabelle.thy ===== *)
theory Spec2Isabelle
  imports Resolve Graph State Reconcile Schedule Source Report Agent Discover Procsys Capability Pass Systemd Settle Sources
begin

text \<open>
  Datum reconciles a host with a git repository of YAML documents. This library models the Go
  packages that decide what is done to a host, and what does it, and proves what makes them correct.

  The program. A repository holds Fleet, Host, Layer and resource documents. Discovery finds and
  reads them (\<open>internal/discover\<close>, \<open>internal/document\<close>), resolution merges the layers that match a
  host into a manifest (\<open>internal/match\<close>, \<open>internal/resolve\<close>, \<open>internal/schema\<close>), the graph orders its
  resources and refuses those that would change the agent's own files (\<open>internal/graph\<close>,
  \<open>internal/anchor\<close>). Providers chosen for the host (\<open>internal/capability\<close>) observe each resource
  (\<open>internal/observe\<close>), the difference is planned (\<open>internal/plan\<close>), applied, read back and verified
  (\<open>internal/reconcile\<close>). The agent (\<open>internal/agent\<close>, \<open>cmd/datum/agent.go\<close>) does this at times the
  schedule gives, under a lock, for revisions that \<open>internal/source\<close> fetched with git and verified,
  and leaves reports and metrics.

  The theories, in the order of the imports, and what their lemmas show.

  \<^item> Datum_Prelude, Words, Paths, Effects: the Go standard library that is used (strings, sorting,
    maps, UTF-8, \<open>strconv\<close>, \<open>path\<close>, \<open>path/filepath\<close>), operations that may fail and change the
    world, and the files of a host. Maps are association lists; where their order could show, the
    program sorts the keys, and so do the definitions.
  \<^item> Document, Canonical: values, names, references, errors; the canonical encoding is injective.
  \<^item> Match, Schema, Merge, Substitute, Resolve: matchers, field tables and checks, the merge of
    contributions with its conflicts, placeholders, and the manifest of a host with its digest.
  \<^item> Config, Anchor: the configuration and the protected set.
  \<^item> Graph: targets, edges, the topological order with the cycle it reports. The locale
    ordered_graph is what clients of the order rely on; built interprets it.
  \<^item> State, Provider, Plan, Reconcile: the vocabulary of a pass, the provider boundary and observation,
    comparison and planning, applying and blocking.
  \<^item> Run, Git, Source, Frames: programs as argument vectors, the git client, the accepted revision
    and the selection of a revision; Frames says which operations leave which part of the host alone.
  \<^item> Schedule, Report, Metrics, Agent: the times of passes on 64-bit integers, what a pass leaves
    behind, the pass lock as a step relation, and the ticks of the agent.
  \<^item> Parse, Glob, Discover, Capability: from decoded YAML to documents, exclusion patterns, the walk
    over a repository, the choice of providers.
  \<^item> Pass: the commands of \<open>cmd/datum\<close> that run a pass, and the pass of the agent, composed of all above.
  \<^item> Programs, Systemd, Posix, Settle, Procsys, Sources: the providers for services, files, kernel
    parameters and package sources, and what is left to do after they applied a resource. The locale
    source_files holds what apt and dnf have in common; apt_files and dnf_files interpret it.

  The root theory holds the property that spans most of them: after a pass that converged, the next
  one changes nothing.

  Conventions. A Go string is its bytes. An error is a value: \<open>Inl\<close>, \<open>None\<close>, or a constructor with
  what its text interpolates. Integers whose width matters are words (\<open>int64\<close> durations and sizes,
  32-bit file modes), others are \<open>nat\<close> or \<open>int\<close>. The error of a context is an input of each place that
  looks at it. A struct is a record, an enum a datatype. Definitions whose name differs from the
  source's have a HOL constant's name there or stand for one part of a function; the manifest lists
  the lines of each.

  Termination and fuel. Loops recurse on lists, or have a measure: block_loop (edges that can still
  be blocked), link_free, class_ranges, match_chunk and path_match (length of pattern and name),
  nearest_layer (length of the directory), fields_acc (length of the text). Fuel is used where the
  recursion is on what is left of a text, always with its length (the readers of UTF-8 and the
  trimming of white space, for which lemmas show that it does not run out), in cycle_walk, with the
  number of nodes (reported_cycle_real), and in create_temp_at, whose eight attempts are the code's.

  Parameters. Code that is not in the repository is an argument: SHA-256, the hash of the host name, the YAML
  decoder, JSON and time formats, the base64 decoder, git, systemctl, the file operations and system calls of
  a host, its account database, the clock, the executable's path. What a theorem needs of them is a
  hypothesis of its own or a named definition (file_laws, systemd_laws, reading_laws, naming_laws,
  inode_laws, text_laws), with an instance in the witness.

  Not modelled. Printed tables, flag parsing and the dispatch of commands, the loop around the
  ticks with its timer and signals, the log, the HTTP server for metrics, the scaffolding of new
  files, the commands that only print, stubs for other systems, test support.
\<close>

section \<open>A pass that converged leaves nothing to do\<close>

text \<open>
  The providers of a graph do not disturb each other: applying one of its resources leaves what
  is observed of another as it was.
\<close>

definition undisturbed :: "graph \<Rightarrow> 'w provider_set \<Rightarrow> string \<Rightarrow> bool" where
  "undisturbed g providers root \<longleftrightarrow>
     (\<forall>x \<in> set (g_order g). \<forall>y \<in> set (g_order g). \<forall>p q w trig act. x \<noteq> y
        \<and> provider_for providers (ref_type x) = Some p \<and> provider_for providers (ref_type y) = Some q \<longrightarrow>
        p_observe q (snd (p_apply p w (request_of (node_at g x) x root trig) act))
            (request_of (node_at g y) y root NoTrigger)
          = p_observe q w (request_of (node_at g y) y root NoTrigger))"

text \<open>Steps that do not change a resource do not change what is observed of it.\<close>

definition seen :: "'w options \<Rightarrow> 'w provider \<Rightarrow> reference \<Rightarrow> 'w \<Rightarrow> string + observation" where
  "seen opts q ref w = p_observe q w (request_of (node_at (op_graph opts) ref) ref (op_repo_root opts) NoTrigger)"

lemma apply_step_frame:
  assumes "undisturbed (op_graph opts) (op_providers opts) (op_repo_root opts)"
    and "provider_for (op_providers opts) (ref_type ref) = Some q"
    and "st_ref s \<noteq> ref" "ref \<in> set (g_order (op_graph opts))" "st_ref s \<in> set (g_order (op_graph opts))"
  shows "seen opts q ref (as_world (apply_step fs_of opts s a)) = seen opts q ref (as_world a)"
proof (cases rule: apply_step_cases [where fs_of = fs_of and opts = opts and s = s and a = a])
  case (enforced reason why)
  from enforce_world [OF enforced(6)] show ?thesis
  proof (elim disjE exE conjE)
    fix p n assume "provider_for (op_providers opts) (ref_type (st_ref s)) = Some p"
      "map_of (g_nodes (op_graph opts)) (st_ref s) = Some n"
      "as_world (apply_step fs_of opts s a) = snd (p_apply p (as_world a)
        (request_of n (st_ref s) (op_repo_root opts) (st_trigger s)) (st_action s))"
    moreover have "node_at (op_graph opts) (st_ref s) = n" using calculation(2) by (simp add: node_at_def)
    ultimately show ?thesis using assms unfolding undisturbed_def seen_def by metis
  qed simp
qed (simp_all add: seen_def)

lemma apply_all_frame:
  assumes "undisturbed (op_graph opts) (op_providers opts) (op_repo_root opts)"
    and "provider_for (op_providers opts) (ref_type ref) = Some q" "ref \<in> set (g_order (op_graph opts))"
    and "\<forall>s \<in> set ts. st_ref s \<noteq> ref \<and> st_ref s \<in> set (g_order (op_graph opts))"
  shows "seen opts q ref (as_world (apply_all fs_of opts world (ss @ ts)))
    = seen opts q ref (as_world (apply_all fs_of opts world ss))"
  using assms(4)
proof (induction ts rule: rev_induct)
  case (snoc t ts)
  then show ?case using apply_step_frame [OF assms(1,2), of t] assms(3) by (simp flip: append_assoc)
qed simp

text \<open>The differences of an observation that was not cut short.\<close>

lemma observe_one_ref [simp]: "or_ref (observe_one g providers root world ref) = ref"
  by (simp add: observe_one_def Let_def split: option.split sum.split)

lemma diff_fold:
  "distinct refs \<Longrightarrow> map_of (foldl (diff_one desired) out (map (observe_one g providers root world) refs)) ref
     = (let r = observe_one g providers root world ref
        in if ref \<in> set refs \<and> \<not> or_skipped r \<and> or_err r = None
           then Some (compare_state ref (desired_or (or_observation r) (desired ref)) (or_observation r))
           else map_of out ref)"
proof (induction refs arbitrary: out)
  case (Cons x refs)
  then show ?case by (cases "ref = x") (auto simp: Let_def diff_one_def update_conv')
qed simp

lemma base_of_observed:
  assumes "observe_host ctx g providers root world = (obs, None)" "distinct (g_order g)" "ref \<in> set (g_order g)"
  defines "r \<equiv> observe_one g providers root world ref" and "d \<equiv> rv_desired (n_resource (node_at g ref))"
  shows "st_action (bases g obs ref) =
      (if or_skipped r then Skip else if or_err r \<noteq> None then NoAction
       else fst (decide d (compare_state ref (desired_or (or_observation r) d) (or_observation r))))
    \<and> st_err (bases g obs ref) = (if or_skipped r then None else or_err r)"
proof -
  have "os_results obs = map (observe_one g providers root world) (g_order g)"
    using observe_loop_results [OF assms(1) [unfolded observe_host_def]] by simp
  then show ?thesis
    using observed_for_order [OF assms(1-3)] assms(3)
      diff_fold [OF assms(2), of "\<lambda>ref. rv_desired (n_resource (node_at g ref))" "[]" g providers root world ref]
    by (simp add: bases_def base_step_def diff_all_def Let_def r_def d_def)
qed

lemma observe_one_some:
  assumes "provider_for providers (ref_type ref) = Some p"
  shows "observe_one g providers root world ref =
    (case p_observe p world (request_of (node_at g ref) ref root NoTrigger) of
       Inl err \<Rightarrow> \<lparr>or_ref = ref, or_provider = p_name p, or_observation = zero_observation, or_skipped = False,
                  or_reason = [], or_err = Some err\<rparr>
     | Inr ob \<Rightarrow> \<lparr>or_ref = ref, or_provider = p_name p, or_observation = ob, or_skipped = False,
                  or_reason = [], or_err = None\<rparr>)"
  using assms by (simp add: observe_one_def Let_def split: sum.split)

lemma observe_one_none:
  "provider_for providers (ref_type ref) = None \<Longrightarrow> or_skipped (observe_one g providers root world ref)"
  by (simp add: observe_one_def Let_def)

lemma served_not_skipped:
  assumes "observe_host ctx g providers root world = (obs, None)" "distinct (g_order g)" "ref \<in> set (g_order g)"
    and "provider_for providers (ref_type ref) = Some p"
  shows "st_action (bases g obs ref) \<noteq> Skip"
  using base_of_observed [OF assms(1-3)] observe_one_some [OF assms(4), of g root world]
  by (auto simp: decide_def Let_def split: sum.splits)

text \<open>What verification accepts, planning leaves alone.\<close>

lemma verified_no_action:
  assumes "\<forall>v. lookup_val (rv_desired (n_resource n)) ''state'' = Some v \<longrightarrow> v_kind v = KindScalar"
    and "ob_exists ob = request_present (request_of n ref root trig)"
    and "ob_exists ob \<longrightarrow> \<not> differs (compare_state ref (desired_or ob (rv_desired (n_resource n))) ob)"
  shows "fst (decide (rv_desired (n_resource n)) (compare_state ref (desired_or ob (rv_desired (n_resource n))) ob)) = NoAction"
proof -
  let ?d = "rv_desired (n_resource n)"
  have "wanted_present ?d \<longleftrightarrow> request_present (request_of n ref root trig)"
    using assms(1)
    by (auto simp: wanted_present_def request_present_def field_or_def request_field_def request_of_def split: option.split)
  moreover have "df_exists (compare_state ref (desired_or ob ?d) ob) = ob_exists ob" by (simp add: compare_state_def)
  ultimately show ?thesis using assms(2,3) by (auto simp: decide_def Let_def)
qed


text \<open>The one step a plan has for a resource, and the worlds around it.\<close>

lemma plan_position:
  fixes sha m obs
  assumes "built g" "ref \<in> set (g_order g)"
  defines "ss \<equiv> pl_steps (build_plan sha m g obs)"
  shows "\<exists>i s. i < length ss \<and> ss = take i ss @ s # drop (Suc i) ss \<and> s = ss ! i \<and> st_ref s = ref
    \<and> (\<exists>c. s = trigger_step g c (bases g obs ref))
    \<and> (\<forall>x \<in> set (take i ss) \<union> set (drop (Suc i) ss). st_ref x \<noteq> ref)"
proof -
  have refs: "map st_ref ss = g_order g" by (simp add: ss_def build_plan_steps plan_steps_refs)
  then obtain i where i: "i < length ss" "st_ref (ss ! i) = ref"
    using assms(2) by (metis in_set_conv_nth length_map nth_map)
  have split: "ss = take i ss @ ss ! i # drop (Suc i) ss" using i(1) by (simp add: id_take_nth_drop)
  have "distinct (map st_ref (take i ss @ ss ! i # drop (Suc i) ss))"
    using refs built.order_distinct [OF assms(1)] split by simp
  then have "ref \<notin> st_ref ` (set (take i ss) \<union> set (drop (Suc i) ss))" using i(2) by auto
  moreover have "ss ! i \<in> set (plan_steps g (bases g obs) [] (g_order g))"
    using i(1) by (simp add: ss_def build_plan_steps)
  then obtain c r where c: "ss ! i = trigger_step g c (bases g obs r)" using plan_steps_bases by blast
  then have "r = ref" using i(2) by simp
  ultimately have "\<forall>x \<in> set (take i ss) \<union> set (drop (Suc i) ss). st_ref x \<noteq> ref"
    and c': "ss ! i = trigger_step g c (bases g obs ref)" using c by blast+
  then show ?thesis
    by (intro exI [of _ i] exI [of _ "ss ! i"] exI [of _ c] conjI) (use i split in simp_all)
qed

lemma observed_around_step:
  assumes "undisturbed (op_graph opts) (op_providers opts) (op_repo_root opts)"
    and "provider_for (op_providers opts) (ref_type ref) = Some p" "ref \<in> set (g_order (op_graph opts))"
    and "ss = take i ss @ s # drop (Suc i) ss" "st_ref ` set ss \<subseteq> set (g_order (op_graph opts))"
    and "\<forall>x \<in> set (take i ss) \<union> set (drop (Suc i) ss). st_ref x \<noteq> ref"
  shows "seen opts p ref (as_world (apply_all fs_of opts world (take i ss))) = seen opts p ref world"
    and "seen opts p ref (as_world (apply_all fs_of opts world ss))
      = seen opts p ref (as_world (apply_step fs_of opts s (apply_all fs_of opts world (take i ss))))"
proof -
  have sub: "\<forall>x \<in> set (take i ss) \<union> set (drop (Suc i) ss). st_ref x \<noteq> ref \<and> st_ref x \<in> set (g_order (op_graph opts))"
    using assms(5,6) by (auto dest: in_set_takeD in_set_dropD)
  show "seen opts p ref (as_world (apply_all fs_of opts world (take i ss))) = seen opts p ref world"
    using apply_all_frame [OF assms(1-3), of "take i ss" fs_of world "[]"] sub by (simp add: start_state_def)
  have "apply_all fs_of opts world ss = apply_all fs_of opts world ((take i ss @ [s]) @ drop (Suc i) ss)"
    using assms(4) by simp
  then show "seen opts p ref (as_world (apply_all fs_of opts world ss))
      = seen opts p ref (as_world (apply_step fs_of opts s (apply_all fs_of opts world (take i ss))))"
    using apply_all_frame [OF assms(1-3), of "drop (Suc i) ss" fs_of world "take i ss @ [s]"] sub by simp
qed

lemma settled_resource:
  assumes g: "built g" "op_graph opts = g" "op_mode opts = Enforce" "ref \<in> set (g_order g)"
    and scalar: "\<forall>v. lookup_val (rv_desired (n_resource (node_at g ref))) ''state'' = Some v \<longrightarrow> v_kind v = KindScalar"
    and frame: "undisturbed g (op_providers opts) (op_repo_root opts)"
    and o: "observe_host ctx g (op_providers opts) (op_repo_root opts) world = (obs, None)"
    and a: "apply_plan fs_of ctx' (build_plan sha m' g obs) opts world = ((res, None), world')"
    and ok: "\<forall>r \<in> set (pr_resources res). rr_state r \<in> {Converged, Skipped}"
    and o': "observe_host ctx'' g (op_providers opts) (op_repo_root opts) world' = (obs', None)"
  shows "\<not> changes (st_action (bases g obs' ref))"
proof (cases "provider_for (op_providers opts) (ref_type ref)")
  case None
  then show ?thesis using base_of_observed [OF o' built.order_distinct [OF g(1)] g(4)] observe_one_none [OF None] by simp
next
  case (Some p)
  let ?n = "node_at g ref" and ?ss = "pl_steps (build_plan sha m' g obs)"
  let ?req = "request_of ?n ref (op_repo_root opts) NoTrigger"
  note d = built.order_distinct [OF g(1)] and all = apply_plan_all [OF a]
  from plan_position [OF g(1,4), of sha m' obs] obtain i s c where i: "i < length ?ss"
      "?ss = take i ?ss @ s # drop (Suc i) ?ss" "s = ?ss ! i" "st_ref s = ref"
      "s = trigger_step g c (bases g obs ref)"
      "\<forall>x \<in> set (take i ?ss) \<union> set (drop (Suc i) ?ss). st_ref x \<noteq> ref"
    by blast
  define a where "a = apply_all fs_of opts world (take i ?ss)"
  have refs: "st_ref ` set ?ss \<subseteq> set (g_order (op_graph opts))" by (simp add: plan_refs g(2))
  note around = observed_around_step [OF frame [folded g(2)] Some g(4) [folded g(2)] i(2) refs i(6),
      of fs_of world, unfolded seen_def g(2), folded a_def all(2)]
  have "step_result fs_of opts s a \<in> set (pr_resources res)"
    using apply_all_nth [OF i(1), of fs_of opts world] i(1) arg_cong [OF apply_all_refs [of fs_of opts world ?ss], of length]
    unfolding all(1) i(3) a_def by (metis length_map nth_mem)
  then have st: "rr_state (step_result fs_of opts s a) \<in> {Converged, Skipped}" using ok by blast
  have quiet: ?thesis if "p_observe p world' ?req = Inr ob"
    "fst (decide (rv_desired (n_resource ?n)) (compare_state ref (desired_or ob (rv_desired (n_resource ?n))) ob)) = NoAction" for ob
    using base_of_observed [OF o' d g(4)] that observe_one_some [OF Some, of g "op_repo_root opts" world'] by simp
  show ?thesis
  proof (cases rule: apply_step_cases [where fs_of = fs_of and opts = opts and s = s and a = a])
    case skipped
    then show ?thesis using served_not_skipped [OF o d g(4) Some] i(5) by (simp add: trigger_step_action split: if_splits)
  next
    case unchanged
    then have n: "st_action (bases g obs ref) = NoAction" "st_err (bases g obs ref) = None"
      using i(5) by (auto simp: trigger_step_action split: if_splits)
    note b = base_of_observed [OF o d g(4)] observe_one_some [OF Some, of g "op_repo_root opts" world]
    from n b obtain ob where "p_observe p world ?req = Inr ob" by (cases "p_observe p world ?req") auto
    then show ?thesis using quiet [of ob] n b around unchanged(6) by simp
  next
    case (enforced reason why)
    have "rr_state (step_result fs_of opts s a) = Converged" using enforce_state [OF enforced(6)] st by auto
    from enforce_converged [OF enforced(6) [unfolded this]] obtain ob where
      "p_observe p (as_world (apply_step fs_of opts s a)) ?req = Inr ob" "ob_exists ob = request_present ?req"
      "ob_exists ob \<longrightarrow> \<not> differs (compare_state ref (desired_or ob (rv_desired (n_resource ?n))) ob)"
      using Some i(4) g(2) by (auto simp: node_at_def)
    with quiet [of ob] verified_no_action [OF scalar] around show ?thesis by metis
  qed (use st g(3) in auto)
qed


text \<open>Two settings of a table: the first pass writes both, the second finds nothing to do.\<close>

lemma table_undisturbed: "undisturbed example_table_graph (new_set [table_provider []]) ''/r''"
proof -
  have "provider_for (new_set [table_provider []]) t = (if t = ''Sysctl'' then Some (table_provider []) else None)" for t
    by (simp add: provider_for_def new_set_def table_provider_def)
  moreover have "n_target (node_at example_table_graph (Reference ''Sysctl'' ''b'')) = ''b''"
    "n_target (node_at example_table_graph (Reference ''Sysctl'' ''a'')) = ''a''" by code_simp+
  ultimately show ?thesis
    by (auto simp: undisturbed_def table_graph(2) table_provider_def request_of_def update_conv')
qed


end
